(* ===== verification/Luaw_Prelude.thy ===== *)
theory Luaw_Prelude
  imports Main "HOL-Library.Word"
begin

text \<open>
  Shared vocabulary of the development: bytes and C strings, the theorem collections that the
  component proofs feed to the simplifier, and generic facts on lists, options and words.

  A C \<open>char\<close> is a HOL \<^typ>\<open>char\<close>, that is one byte. The sources compare bytes with ASCII
  constants only, and every table lookup casts to \<open>unsigned char\<close>, so the signedness of the
  platform's \<open>char\<close> never shows.
\<close>

unbundle bit_operations_syntax

named_theorems handler_defs \<open>definitions of the per-state handlers of the HTTP parser\<close>
named_theorems ctl_simps \<open>rewriting the control flow of one step of the HTTP parser\<close>
named_theorems flag_simps \<open>setting and testing bits of the parser's flags field\<close>

section \<open>Bytes and C strings\<close>

definition NUL :: char where "NUL = CHR 0x00"
definition HT :: char where "HT = CHR 0x09"
definition LF :: char where "LF = CHR 0x0A"
definition FF :: char where "FF = CHR 0x0C"
definition CR :: char where "CR = CHR 0x0D"

definition byte_val :: "char \<Rightarrow> nat" where
  "byte_val c = of_char c"

lemma byte_val_less [simp]: "byte_val c < 256"
  by (simp add: byte_val_def)

lemma byte_val_inject [simp]: "byte_val c = byte_val d \<longleftrightarrow> c = d"
  by (simp add: byte_val_def)

text \<open>
  \<open>s[i]\<close> on a NUL-terminated C string literal: the terminator is readable, anything beyond it
  is not (\<^const>\<open>None\<close>).
\<close>

definition c_str_at :: "string \<Rightarrow> nat \<Rightarrow> char option" where
  "c_str_at s i = (if i < length s then Some (s ! i) else if i = length s then Some NUL else None)"

lemma c_str_at_None [simp]: "c_str_at s i = None \<longleftrightarrow> length s < i"
  by (auto simp: c_str_at_def)

lemma c_str_at_Some [simp]: "i \<le> length s \<Longrightarrow> \<exists>c. c_str_at s i = Some c"
  by (auto simp: c_str_at_def)

lemma c_str_at_nonnul:
  "c_str_at s i = Some c \<Longrightarrow> c \<noteq> NUL \<Longrightarrow> i < length s \<and> c = s ! i"
  by (auto simp: c_str_at_def split: if_splits)

text \<open>The part of a buffer that a pointer \<open>at\<close> and a length \<open>n\<close> denote.\<close>

definition span :: "nat \<Rightarrow> nat \<Rightarrow> 'a list \<Rightarrow> 'a list" where
  "span at n buf = take n (drop at buf)"

lemma length_span [simp]: "at + n \<le> length buf \<Longrightarrow> length (span at n buf) = n"
  by (simp add: span_def)

lemma span_0 [simp]: "span at 0 buf = []"
  by (simp add: span_def)

lemma span_append: "span at (m + n) buf = span at m buf @ span (at + m) n buf"
  by (simp add: span_def take_add add.commute)

end
