(* ===== verification/Http_Types.thy ===== *)
theory Http_Types
  imports Luaw_Prelude "HOL-Library.Char_ord"
begin

text \<open>
  The data model of the HTTP parser that luaw embeds: the enumerations and the \<open>struct\<close>s of
  \<^verbatim>\<open>src/src/http_parser.h\<close>, and the state enumerations, tables and character classes of
  \<^verbatim>\<open>src/src/http_parser.c\<close>. The build defines neither \<open>HTTP_PARSER_STRICT=0\<close> nor \<open>NDEBUG\<close>,
  so the strict character classes are in force and every \<open>assert\<close> is live.
\<close>

section \<open>Enumerations of http\_parser.h\<close>

datatype (plugins only: code size) http_method =
    HTTP_DELETE | HTTP_GET | HTTP_HEAD | HTTP_POST | HTTP_PUT
  | HTTP_CONNECT | HTTP_OPTIONS | HTTP_TRACE
  | HTTP_COPY | HTTP_LOCK | HTTP_MKCOL | HTTP_MOVE | HTTP_PROPFIND | HTTP_PROPPATCH
  | HTTP_SEARCH | HTTP_UNLOCK
  | HTTP_REPORT | HTTP_MKACTIVITY | HTTP_CHECKOUT | HTTP_MERGE
  | HTTP_MSEARCH | HTTP_NOTIFY | HTTP_SUBSCRIBE | HTTP_UNSUBSCRIBE
  | HTTP_PATCH | HTTP_PURGE

fun method_strings :: "http_method \<Rightarrow> string" where
  "method_strings HTTP_DELETE = ''DELETE''"
| "method_strings HTTP_GET = ''GET''"
| "method_strings HTTP_HEAD = ''HEAD''"
| "method_strings HTTP_POST = ''POST''"
| "method_strings HTTP_PUT = ''PUT''"
| "method_strings HTTP_CONNECT = ''CONNECT''"
| "method_strings HTTP_OPTIONS = ''OPTIONS''"
| "method_strings HTTP_TRACE = ''TRACE''"
| "method_strings HTTP_COPY = ''COPY''"
| "method_strings HTTP_LOCK = ''LOCK''"
| "method_strings HTTP_MKCOL = ''MKCOL''"
| "method_strings HTTP_MOVE = ''MOVE''"
| "method_strings HTTP_PROPFIND = ''PROPFIND''"
| "method_strings HTTP_PROPPATCH = ''PROPPATCH''"
| "method_strings HTTP_SEARCH = ''SEARCH''"
| "method_strings HTTP_UNLOCK = ''UNLOCK''"
| "method_strings HTTP_REPORT = ''REPORT''"
| "method_strings HTTP_MKACTIVITY = ''MKACTIVITY''"
| "method_strings HTTP_CHECKOUT = ''CHECKOUT''"
| "method_strings HTTP_MERGE = ''MERGE''"
| "method_strings HTTP_MSEARCH = ''M-SEARCH''"
| "method_strings HTTP_NOTIFY = ''NOTIFY''"
| "method_strings HTTP_SUBSCRIBE = ''SUBSCRIBE''"
| "method_strings HTTP_UNSUBSCRIBE = ''UNSUBSCRIBE''"
| "method_strings HTTP_PATCH = ''PATCH''"
| "method_strings HTTP_PURGE = ''PURGE''"

datatype http_parser_type = HTTP_REQUEST | HTTP_RESPONSE | HTTP_BOTH

text \<open>The six flag bits of \<open>unsigned int flags : 6\<close>.\<close>

type_synonym flag_word = "6 word"

definition F_CHUNKED :: flag_word where "F_CHUNKED = 1"
definition F_CONNECTION_KEEP_ALIVE :: flag_word where "F_CONNECTION_KEEP_ALIVE = 2"
definition F_CONNECTION_CLOSE :: flag_word where "F_CONNECTION_CLOSE = 4"
definition F_TRAILING :: flag_word where "F_TRAILING = 8"
definition F_UPGRADE :: flag_word where "F_UPGRADE = 16"
definition F_SKIPBODY :: flag_word where "F_SKIPBODY = 32"

lemmas flag_defs = F_CHUNKED_def F_CONNECTION_KEEP_ALIVE_def F_CONNECTION_CLOSE_def
  F_TRAILING_def F_UPGRADE_def F_SKIPBODY_def

datatype (plugins only: code size) http_errno =
    HPE_OK
  | HPE_CB_message_begin | HPE_CB_url | HPE_CB_header_field | HPE_CB_header_value
  | HPE_CB_headers_complete | HPE_CB_body | HPE_CB_message_complete | HPE_CB_status
  | HPE_INVALID_EOF_STATE | HPE_HEADER_OVERFLOW | HPE_CLOSED_CONNECTION
  | HPE_INVALID_VERSION | HPE_INVALID_STATUS | HPE_INVALID_METHOD | HPE_INVALID_URL
  | HPE_INVALID_HOST | HPE_INVALID_PORT | HPE_INVALID_PATH | HPE_INVALID_QUERY_STRING
  | HPE_INVALID_FRAGMENT | HPE_LF_EXPECTED | HPE_INVALID_HEADER_TOKEN
  | HPE_INVALID_CONTENT_LENGTH | HPE_INVALID_CHUNK_SIZE | HPE_INVALID_CONSTANT
  | HPE_INVALID_INTERNAL_STATE | HPE_STRICT | HPE_PAUSED | HPE_UNKNOWN

section \<open>State enumerations of http\_parser.c\<close>

datatype (plugins only: code size) state =
    s_dead
  | s_start_req_or_res | s_res_or_resp_H
  | s_start_res | s_res_H | s_res_HT | s_res_HTT | s_res_HTTP
  | s_res_first_http_major | s_res_http_major | s_res_first_http_minor | s_res_http_minor
  | s_res_first_status_code | s_res_status_code | s_res_status_start | s_res_status
  | s_res_line_almost_done
  | s_start_req
  | s_req_method | s_req_spaces_before_url
  | s_req_schema | s_req_schema_slash | s_req_schema_slash_slash
  | s_req_server_start | s_req_server | s_req_server_with_at
  | s_req_path | s_req_query_string_start | s_req_query_string
  | s_req_fragment_start | s_req_fragment
  | s_req_http_start | s_req_http_H | s_req_http_HT | s_req_http_HTT | s_req_http_HTTP
  | s_req_first_http_major | s_req_http_major | s_req_first_http_minor | s_req_http_minor
  | s_req_line_almost_done
  | s_header_field_start | s_header_field | s_header_value_start | s_header_value
  | s_header_value_lws
  | s_header_almost_done
  | s_chunk_size_start | s_chunk_size | s_chunk_parameters | s_chunk_size_almost_done
  | s_headers_almost_done | s_headers_done
  | s_chunk_data | s_chunk_data_almost_done | s_chunk_data_done
  | s_body_identity | s_body_identity_eof
  | s_message_done

text \<open>The numeric value of each enumerator, \<open>s_dead = 1\<close> being the first.\<close>

fun state_num :: "state \<Rightarrow> nat" where
  "state_num s_dead = 1"
| "state_num s_start_req_or_res = 2"
| "state_num s_res_or_resp_H = 3"
| "state_num s_start_res = 4"
| "state_num s_res_H = 5"
| "state_num s_res_HT = 6"
| "state_num s_res_HTT = 7"
| "state_num s_res_HTTP = 8"
| "state_num s_res_first_http_major = 9"
| "state_num s_res_http_major = 10"
| "state_num s_res_first_http_minor = 11"
| "state_num s_res_http_minor = 12"
| "state_num s_res_first_status_code = 13"
| "state_num s_res_status_code = 14"
| "state_num s_res_status_start = 15"
| "state_num s_res_status = 16"
| "state_num s_res_line_almost_done = 17"
| "state_num s_start_req = 18"
| "state_num s_req_method = 19"
| "state_num s_req_spaces_before_url = 20"
| "state_num s_req_schema = 21"
| "state_num s_req_schema_slash = 22"
| "state_num s_req_schema_slash_slash = 23"
| "state_num s_req_server_start = 24"
| "state_num s_req_server = 25"
| "state_num s_req_server_with_at = 26"
| "state_num s_req_path = 27"
| "state_num s_req_query_string_start = 28"
| "state_num s_req_query_string = 29"
| "state_num s_req_fragment_start = 30"
| "state_num s_req_fragment = 31"
| "state_num s_req_http_start = 32"
| "state_num s_req_http_H = 33"
| "state_num s_req_http_HT = 34"
| "state_num s_req_http_HTT = 35"
| "state_num s_req_http_HTTP = 36"
| "state_num s_req_first_http_major = 37"
| "state_num s_req_http_major = 38"
| "state_num s_req_first_http_minor = 39"
| "state_num s_req_http_minor = 40"
| "state_num s_req_line_almost_done = 41"
| "state_num s_header_field_start = 42"
| "state_num s_header_field = 43"
| "state_num s_header_value_start = 44"
| "state_num s_header_value = 45"
| "state_num s_header_value_lws = 46"
| "state_num s_header_almost_done = 47"
| "state_num s_chunk_size_start = 48"
| "state_num s_chunk_size = 49"
| "state_num s_chunk_parameters = 50"
| "state_num s_chunk_size_almost_done = 51"
| "state_num s_headers_almost_done = 52"
| "state_num s_headers_done = 53"
| "state_num s_chunk_data = 54"
| "state_num s_chunk_data_almost_done = 55"
| "state_num s_chunk_data_done = 56"
| "state_num s_body_identity = 57"
| "state_num s_body_identity_eof = 58"
| "state_num s_message_done = 59"

text \<open>C compares enumerators by value; the model does so through the library's order classes.\<close>

lemma state_num_inject: "state_num s = state_num t \<Longrightarrow> s = t"
  by (cases s; cases t) simp_all

instantiation state :: linorder
begin
definition less_eq_state :: "state \<Rightarrow> state \<Rightarrow> bool" where
  "less_eq_state s t \<longleftrightarrow> state_num s \<le> state_num t"
definition less_state :: "state \<Rightarrow> state \<Rightarrow> bool" where
  "less_state s t \<longleftrightarrow> state_num s < state_num t"
instance
  by standard (auto simp: less_eq_state_def less_state_def dest: state_num_inject)
end

definition PARSING_HEADER :: "state \<Rightarrow> bool" where
  "PARSING_HEADER s \<longleftrightarrow> s \<le> s_headers_done"

datatype (plugins only: code size) header_states =
    h_general | h_C | h_CO | h_CON
  | h_matching_connection | h_matching_proxy_connection | h_matching_content_length
  | h_matching_transfer_encoding | h_matching_upgrade
  | h_connection | h_content_length | h_transfer_encoding | h_upgrade
  | h_matching_transfer_encoding_chunked | h_matching_connection_keep_alive
  | h_matching_connection_close
  | h_transfer_encoding_chunked | h_connection_keep_alive | h_connection_close

datatype (plugins only: code size) http_host_state =
    s_http_host_dead
  | s_http_userinfo_start | s_http_userinfo
  | s_http_host_start | s_http_host_v6_start | s_http_host | s_http_host_v6
  | s_http_host_v6_end | s_http_host_port_start | s_http_host_port

section \<open>Tables and character classes\<close>

text \<open>
  \<open>tokens[256]\<close>: a token byte is mapped to its lower-case form, any other byte to 0. The
  initialiser lists 128 entries; C zero-fills the rest.
\<close>

definition tokens :: "char list" where
  "tokens =
     replicate 32 NUL
     @ [NUL, CHR ''!'', NUL, CHR ''#'', CHR ''$'', CHR ''%'', CHR ''&'', CHR 0x27]
     @ [NUL, NUL, CHR ''*'', CHR ''+'', NUL, CHR ''-'', CHR ''.'', NUL]
     @ ''01234567''
     @ [CHR ''8'', CHR ''9'', NUL, NUL, NUL, NUL, NUL, NUL]
     @ [NUL] @ ''abcdefg''
     @ ''hijklmno''
     @ ''pqrstuvw''
     @ [CHR ''x'', CHR ''y'', CHR ''z'', NUL, NUL, NUL, CHR ''^'', CHR ''_'']
     @ [CHR 0x60] @ ''abcdefg''
     @ ''hijklmno''
     @ ''pqrstuvw''
     @ [CHR ''x'', CHR ''y'', CHR ''z'', NUL, CHR ''|'', NUL, CHR ''~'', NUL]
     @ replicate 128 NUL"

text \<open>
  \<open>unhex[256]\<close>: again only 128 initialisers, so the entries for bytes from 128 on are 0 and
  not \<open>-1\<close>.
\<close>

definition unhex :: "int list" where
  "unhex =
     replicate 48 (-1)
     @ [0, 1, 2, 3, 4, 5, 6, 7, 8, 9, -1, -1, -1, -1, -1, -1]
     @ [-1, 10, 11, 12, 13, 14, 15] @ replicate 9 (-1)
     @ replicate 16 (-1)
     @ [-1, 10, 11, 12, 13, 14, 15] @ replicate 9 (-1)
     @ replicate 16 (-1)
     @ replicate 128 0"

text \<open>\<open>normal_url_char[32]\<close> in strict mode, where \<open>T(v)\<close> is 0: one bit per byte.\<close>

definition normal_url_char :: "nat list" where
  "normal_url_char =
     [0, 0, 0, 0,
      0 + 2 + 4 + 0 + 16 + 32 + 64 + 128,
      1 + 2 + 4 + 8 + 16 + 32 + 64 + 128,
      1 + 2 + 4 + 8 + 16 + 32 + 64 + 128,
      1 + 2 + 4 + 8 + 16 + 32 + 64 + 0,
      1 + 2 + 4 + 8 + 16 + 32 + 64 + 128,
      1 + 2 + 4 + 8 + 16 + 32 + 64 + 128,
      1 + 2 + 4 + 8 + 16 + 32 + 64 + 128,
      1 + 2 + 4 + 8 + 16 + 32 + 64 + 128,
      1 + 2 + 4 + 8 + 16 + 32 + 64 + 128,
      1 + 2 + 4 + 8 + 16 + 32 + 64 + 128,
      1 + 2 + 4 + 8 + 16 + 32 + 64 + 128,
      1 + 2 + 4 + 8 + 16 + 32 + 64 + 0]
     @ replicate 16 0"

definition BIT_AT :: "nat list \<Rightarrow> nat \<Rightarrow> bool" where
  "BIT_AT a i \<longleftrightarrow> bit (a ! (i div 8)) (i mod 8)"

definition TOKEN :: "char \<Rightarrow> char" where
  "TOKEN c = tokens ! byte_val c"

definition unhex_at :: "char \<Rightarrow> int" where
  "unhex_at c = unhex ! byte_val c"

definition LOWER :: "char \<Rightarrow> char" where
  "LOWER c = char_of (of_char c OR (0x20 :: nat))"

definition IS_ALPHA :: "char \<Rightarrow> bool" where
  "IS_ALPHA c \<longleftrightarrow> CHR ''a'' \<le> LOWER c \<and> LOWER c \<le> CHR ''z''"

definition IS_NUM :: "char \<Rightarrow> bool" where
  "IS_NUM c \<longleftrightarrow> CHR ''0'' \<le> c \<and> c \<le> CHR ''9''"

definition IS_ALPHANUM :: "char \<Rightarrow> bool" where
  "IS_ALPHANUM c \<longleftrightarrow> IS_ALPHA c \<or> IS_NUM c"

definition IS_HEX :: "char \<Rightarrow> bool" where
  "IS_HEX c \<longleftrightarrow> IS_NUM c \<or> CHR ''a'' \<le> LOWER c \<and> LOWER c \<le> CHR ''f''"

definition IS_MARK :: "char \<Rightarrow> bool" where
  "IS_MARK c \<longleftrightarrow> c \<in> set [CHR ''-'', CHR ''_'', CHR ''.'', CHR ''!'', CHR ''~'', CHR ''*'',
     CHR 0x27, CHR ''('', CHR '')'']"

definition IS_USERINFO_CHAR :: "char \<Rightarrow> bool" where
  "IS_USERINFO_CHAR c \<longleftrightarrow> IS_ALPHANUM c \<or> IS_MARK c
     \<or> c \<in> set [CHR ''%'', CHR '';'', CHR '':'', CHR ''&'', CHR ''='', CHR ''+'', CHR ''$'',
          CHR '','']"

definition IS_URL_CHAR :: "char \<Rightarrow> bool" where
  "IS_URL_CHAR c \<longleftrightarrow> BIT_AT normal_url_char (byte_val c)"

definition IS_HOST_CHAR :: "char \<Rightarrow> bool" where
  "IS_HOST_CHAR c \<longleftrightarrow> IS_ALPHANUM c \<or> c = CHR ''.'' \<or> c = CHR ''-''"

text \<open>\<open>ch - '0'\<close>, evaluated only for decimal digits.\<close>

definition digit_val :: "char \<Rightarrow> nat" where
  "digit_val c = byte_val c - byte_val (CHR ''0'')"

section \<open>Structures\<close>

record http_parser =
  hp_type :: http_parser_type
  hp_flags :: flag_word
  hp_state :: state
  hp_header_state :: header_states
  hp_index :: "8 word"
  hp_nread :: "32 word"
  hp_content_length :: "64 word"
  hp_http_major :: "16 word"
  hp_http_minor :: "16 word"
  hp_status_code :: "16 word"
  hp_method :: http_method
  hp_errno :: http_errno
  hp_upgrade :: bool

text \<open>
  A callback receives the parser and, through \<open>parser->data\<close>, the application's object, here of
  type \<open>'u\<close>. It returns a status and may change both. A data callback also receives a pointer
  into the buffer being parsed, as an offset from \<open>data\<close>, and a length.
\<close>

type_synonym 'u http_cb = "'u \<Rightarrow> http_parser \<Rightarrow> int \<times> 'u \<times> http_parser"
type_synonym 'u http_data_cb = "'u \<Rightarrow> http_parser \<Rightarrow> nat \<Rightarrow> nat \<Rightarrow> int \<times> 'u \<times> http_parser"

text \<open>A \<^const>\<open>None\<close> entry is a null function pointer.\<close>

record 'u http_parser_settings =
  on_message_begin :: "'u http_cb option"
  on_url :: "'u http_data_cb option"
  on_status :: "'u http_data_cb option"
  on_header_field :: "'u http_data_cb option"
  on_header_value :: "'u http_data_cb option"
  on_headers_complete :: "'u http_cb option"
  on_body :: "'u http_data_cb option"
  on_message_complete :: "'u http_cb option"

definition HTTP_MAX_HEADER_SIZE :: "32 word" where
  "HTTP_MAX_HEADER_SIZE = 80 * 1024"

definition ULLONG_MAX :: "64 word" where
  "ULLONG_MAX = - 1"

section \<open>Small operations of http\_parser.c on a parser\<close>

text \<open>
  \<open>http_parser_init\<close> zeroes every field but \<open>data\<close>: method 0 is \<^const>\<open>HTTP_DELETE\<close> and header
  state 0 is \<^const>\<open>h_general\<close>.
\<close>

definition http_parser_init :: "http_parser_type \<Rightarrow> http_parser" where
  "http_parser_init t =
     \<lparr> hp_type = t, hp_flags = 0,
       hp_state = (if t = HTTP_REQUEST then s_start_req
                   else if t = HTTP_RESPONSE then s_start_res else s_start_req_or_res),
       hp_header_state = h_general, hp_index = 0, hp_nread = 0, hp_content_length = 0,
       hp_http_major = 0, hp_http_minor = 0, hp_status_code = 0, hp_method = HTTP_DELETE,
       hp_errno = HPE_OK, hp_upgrade = False \<rparr>"

text \<open>\<open>http_parser_pause\<close>: \<^const>\<open>None\<close> is the failing assertion on a parser in error.\<close>

definition http_parser_pause :: "http_parser \<Rightarrow> bool \<Rightarrow> http_parser option" where
  "http_parser_pause ps paused =
     (if hp_errno ps = HPE_OK \<or> hp_errno ps = HPE_PAUSED
      then Some (ps\<lparr>hp_errno := (if paused then HPE_PAUSED else HPE_OK)\<rparr>)
      else None)"

definition http_body_is_final :: "http_parser \<Rightarrow> bool" where
  "http_body_is_final ps \<longleftrightarrow> hp_state ps = s_message_done"

definition flag_set :: "http_parser \<Rightarrow> flag_word \<Rightarrow> bool" where
  "flag_set ps f \<longleftrightarrow> hp_flags ps AND f \<noteq> 0"

definition http_message_needs_eof :: "http_parser \<Rightarrow> bool" where
  "http_message_needs_eof ps =
     (if hp_type ps = HTTP_REQUEST then False
      else if hp_status_code ps div 100 = 1 \<or> hp_status_code ps = 204 \<or> hp_status_code ps = 304
           \<or> flag_set ps F_SKIPBODY then False
      else if flag_set ps F_CHUNKED \<or> hp_content_length ps \<noteq> ULLONG_MAX then False
      else True)"

definition http_should_keep_alive :: "http_parser \<Rightarrow> bool" where
  "http_should_keep_alive ps =
     (if (if hp_http_major ps > 0 \<and> hp_http_minor ps > 0
          then flag_set ps F_CONNECTION_CLOSE
          else \<not> flag_set ps F_CONNECTION_KEEP_ALIVE)
      then False
      else \<not> http_message_needs_eof ps)"

definition start_state :: "http_parser \<Rightarrow> state" where
  "start_state ps = (if hp_type ps = HTTP_REQUEST then s_start_req else s_start_res)"

definition NEW_MESSAGE :: "http_parser \<Rightarrow> state" where
  "NEW_MESSAGE ps = (if http_should_keep_alive ps then start_state ps else s_dead)"

text \<open>The methods in the order of their numbers; a number beyond the table has no name.\<close>

definition http_methods :: "http_method list" where
  "http_methods = [HTTP_DELETE, HTTP_GET, HTTP_HEAD, HTTP_POST, HTTP_PUT, HTTP_CONNECT, HTTP_OPTIONS, HTTP_TRACE,
     HTTP_COPY, HTTP_LOCK, HTTP_MKCOL, HTTP_MOVE, HTTP_PROPFIND, HTTP_PROPPATCH, HTTP_SEARCH, HTTP_UNLOCK,
     HTTP_REPORT, HTTP_MKACTIVITY, HTTP_CHECKOUT, HTTP_MERGE, HTTP_MSEARCH, HTTP_NOTIFY, HTTP_SUBSCRIBE,
     HTTP_UNSUBSCRIBE, HTTP_PATCH, HTTP_PURGE]"

definition http_method_str :: "32 word \<Rightarrow> string" where
  "http_method_str m =
     (if unat m < length http_methods then method_strings (http_methods ! unat m) else ''<unknown>'')"

definition http_parser_version :: nat where
  "http_parser_version = (2 * 0x10000) OR (2 * 0x100) OR (0 * 1)"

end
