(* ===== verification/Http_Url.thy ===== *)
theory Http_Url
  imports Http_Types
begin

text \<open>
  URL parsing in \<^verbatim>\<open>src/src/http_parser.c\<close>: the byte-wise URL automaton \<open>parse_url_char\<close> that the
  request-line states of \<open>http_parser_execute\<close> also use, the host automaton
  \<open>http_parse_host_char\<close>, and \<open>http_parser_parse_url\<close>, which cuts a URL into fields.
\<close>

section \<open>The URL automaton\<close>

text \<open>The common tail of the three server states, \<open>s_req_server_with_at\<close> falling through to it.\<close>

definition url_server_char :: "char \<Rightarrow> state" where
  "url_server_char ch =
     (if ch = CHR ''/'' then s_req_path
      else if ch = CHR ''?'' then s_req_query_string_start
      else if ch = CHR ''@'' then s_req_server_with_at
      else if IS_USERINFO_CHAR ch \<or> ch = CHR ''['' \<or> ch = CHR '']'' then s_req_server
      else s_dead)"

definition parse_url_char :: "state \<Rightarrow> char \<Rightarrow> state" where
  "parse_url_char s ch =
     (if ch = CHR '' '' \<or> ch = CR \<or> ch = LF then s_dead
      else if ch = HT \<or> ch = FF then s_dead
      else case s of
        s_req_spaces_before_url \<Rightarrow>
          (if ch = CHR ''/'' \<or> ch = CHR ''*'' then s_req_path
           else if IS_ALPHA ch then s_req_schema else s_dead)
      | s_req_schema \<Rightarrow>
          (if IS_ALPHA ch then s
           else if ch = CHR '':'' then s_req_schema_slash else s_dead)
      | s_req_schema_slash \<Rightarrow>
          (if ch = CHR ''/'' then s_req_schema_slash_slash else s_dead)
      | s_req_schema_slash_slash \<Rightarrow>
          (if ch = CHR ''/'' then s_req_server_start else s_dead)
      | s_req_server_with_at \<Rightarrow>
          (if ch = CHR ''@'' then s_dead else url_server_char ch)
      | s_req_server_start \<Rightarrow> url_server_char ch
      | s_req_server \<Rightarrow> url_server_char ch
      | s_req_path \<Rightarrow>
          (if IS_URL_CHAR ch then s
           else if ch = CHR ''?'' then s_req_query_string_start
           else if ch = CHR ''#'' then s_req_fragment_start else s_dead)
      | s_req_query_string_start \<Rightarrow>
          (if IS_URL_CHAR ch then s_req_query_string
           else if ch = CHR ''?'' then s_req_query_string
           else if ch = CHR ''#'' then s_req_fragment_start else s_dead)
      | s_req_query_string \<Rightarrow>
          (if IS_URL_CHAR ch then s_req_query_string
           else if ch = CHR ''?'' then s_req_query_string
           else if ch = CHR ''#'' then s_req_fragment_start else s_dead)
      | s_req_fragment_start \<Rightarrow>
          (if IS_URL_CHAR ch then s_req_fragment
           else if ch = CHR ''?'' then s_req_fragment
           else if ch = CHR ''#'' then s else s_dead)
      | s_req_fragment \<Rightarrow>
          (if IS_URL_CHAR ch then s
           else if ch = CHR ''?'' \<or> ch = CHR ''#'' then s else s_dead)
      | _ \<Rightarrow> s_dead)"

text \<open>The states a URL byte can lead to, besides \<^const>\<open>s_dead\<close>.\<close>

definition url_states :: "state set" where
  "url_states = {s_req_schema, s_req_schema_slash, s_req_schema_slash_slash, s_req_server_start,
     s_req_server, s_req_server_with_at, s_req_path, s_req_query_string_start,
     s_req_query_string, s_req_fragment_start, s_req_fragment}"

lemma parse_url_char_range: "parse_url_char s ch \<in> insert s_dead url_states"
  by (cases s) (simp_all add: parse_url_char_def url_server_char_def url_states_def)

section \<open>URL fields\<close>

datatype url_field = UF_SCHEMA | UF_HOST | UF_PORT | UF_PATH | UF_QUERY | UF_FRAGMENT
  | UF_USERINFO | UF_MAX

fun uf_num :: "url_field \<Rightarrow> nat" where
  "uf_num UF_SCHEMA = 0" | "uf_num UF_HOST = 1" | "uf_num UF_PORT = 2" | "uf_num UF_PATH = 3"
| "uf_num UF_QUERY = 4" | "uf_num UF_FRAGMENT = 5" | "uf_num UF_USERINFO = 6"
| "uf_num UF_MAX = 7"

text \<open>
  \<open>struct http_parser_url\<close>: a bit mask of the fields found, the numeric port, and for every field
  a 16-bit offset and length. The caller hands in uninitialised storage, so the model takes the
  whole initial structure as an argument.
\<close>

record http_parser_url =
  field_set :: "16 word"
  url_port :: "16 word"
  field_off :: "url_field \<Rightarrow> 16 word"
  field_len :: "url_field \<Rightarrow> 16 word"

definition has_field :: "http_parser_url \<Rightarrow> url_field \<Rightarrow> bool" where
  "has_field u f \<longleftrightarrow> bit (field_set u) (uf_num f)"

definition set_field :: "url_field \<Rightarrow> nat \<Rightarrow> nat \<Rightarrow> http_parser_url \<Rightarrow> http_parser_url" where
  "set_field f off len u = u\<lparr>
     field_set := field_set u OR push_bit (uf_num f) 1,
     field_off := (field_off u)(f := of_nat off),
     field_len := (field_len u)(f := of_nat len)\<rparr>"

definition incr_len :: "url_field \<Rightarrow> http_parser_url \<Rightarrow> http_parser_url" where
  "incr_len f u = u\<lparr>field_len := (field_len u)(f := field_len u f + 1)\<rparr>"

section \<open>The host automaton\<close>

definition http_parse_host_char :: "http_host_state \<Rightarrow> char \<Rightarrow> http_host_state" where
  "http_parse_host_char s ch = (case s of
     s_http_userinfo \<Rightarrow>
       (if ch = CHR ''@'' then s_http_host_start
        else if IS_USERINFO_CHAR ch then s_http_userinfo else s_http_host_dead)
   | s_http_userinfo_start \<Rightarrow>
       (if ch = CHR ''@'' then s_http_host_start
        else if IS_USERINFO_CHAR ch then s_http_userinfo else s_http_host_dead)
   | s_http_host_start \<Rightarrow>
       (if ch = CHR ''['' then s_http_host_v6_start
        else if IS_HOST_CHAR ch then s_http_host else s_http_host_dead)
   | s_http_host \<Rightarrow>
       (if IS_HOST_CHAR ch then s_http_host
        else if ch = CHR '':'' then s_http_host_port_start else s_http_host_dead)
   | s_http_host_v6_end \<Rightarrow>
       (if ch = CHR '':'' then s_http_host_port_start else s_http_host_dead)
   | s_http_host_v6 \<Rightarrow>
       (if ch = CHR '']'' then s_http_host_v6_end
        else if IS_HEX ch \<or> ch = CHR '':'' \<or> ch = CHR ''.'' then s_http_host_v6
        else s_http_host_dead)
   | s_http_host_v6_start \<Rightarrow>
       (if IS_HEX ch \<or> ch = CHR '':'' \<or> ch = CHR ''.'' then s_http_host_v6
        else s_http_host_dead)
   | s_http_host_port \<Rightarrow> (if IS_NUM ch then s_http_host_port else s_http_host_dead)
   | s_http_host_port_start \<Rightarrow> (if IS_NUM ch then s_http_host_port else s_http_host_dead)
   | s_http_host_dead \<Rightarrow> s_http_host_dead)"

text \<open>
  Outcomes: \<open>Url_ok\<close> is return value 0, \<open>Url_bad\<close> is 1, \<open>Url_abort\<close> the failing assertion and
  \<open>Url_oob\<close> a read outside the buffer (whose terminating NUL is readable).
\<close>

datatype url_result = Url_ok http_parser_url | Url_bad | Url_abort | Url_oob

text \<open>The bookkeeping of one host byte at offset \<open>p\<close> on the transition from \<open>s\<close> to \<open>new_s\<close>.\<close>

definition host_account ::
  "http_host_state \<Rightarrow> http_host_state \<Rightarrow> nat \<Rightarrow> http_parser_url \<Rightarrow> http_parser_url" where
  "host_account s new_s p u = (case new_s of
     s_http_host \<Rightarrow>
       incr_len UF_HOST (if s \<noteq> s_http_host
         then u\<lparr>field_off := (field_off u)(UF_HOST := of_nat p)\<rparr> else u)
   | s_http_host_v6 \<Rightarrow>
       incr_len UF_HOST (if s \<noteq> s_http_host_v6
         then u\<lparr>field_off := (field_off u)(UF_HOST := of_nat p)\<rparr> else u)
   | s_http_host_port \<Rightarrow>
       incr_len UF_PORT (if s \<noteq> s_http_host_port then set_field UF_PORT p 0 u else u)
   | s_http_userinfo \<Rightarrow>
       incr_len UF_USERINFO (if s \<noteq> s_http_userinfo then set_field UF_USERINFO p 0 u else u)
   | _ \<Rightarrow> u)"

text \<open>\<open>n\<close> counts the bytes from \<open>p\<close> up to \<open>buf + buflen\<close>.\<close>

fun parse_host_loop ::
  "string \<Rightarrow> nat \<Rightarrow> nat \<Rightarrow> http_host_state \<Rightarrow> http_parser_url \<Rightarrow> url_result" where
  "parse_host_loop buf 0 p s u =
     (if s \<in> {s_http_host_start, s_http_host_v6_start, s_http_host_v6, s_http_host_port_start,
              s_http_userinfo, s_http_userinfo_start}
      then Url_bad else Url_ok u)"
| "parse_host_loop buf (Suc n) p s u =
     (case c_str_at buf p of
        None \<Rightarrow> Url_oob
      | Some ch \<Rightarrow>
          (let new_s = http_parse_host_char s ch in
           if new_s = s_http_host_dead then Url_bad
           else parse_host_loop buf n (Suc p) new_s (host_account s new_s p u)))"

definition http_parse_host :: "string \<Rightarrow> http_parser_url \<Rightarrow> bool \<Rightarrow> url_result" where
  "http_parse_host buf u found_at =
     parse_host_loop buf (unat (field_len u UF_HOST)) (unat (field_off u UF_HOST))
       (if found_at then s_http_userinfo_start else s_http_host_start)
       (u\<lparr>field_len := (field_len u)(UF_HOST := 0)\<rparr>)"

section \<open>http\_parser\_parse\_url\<close>

text \<open>
  The field that a URL state belongs to: \<open>None\<close> for the delimiter states, which the loop skips.
\<close>

definition url_state_field :: "state \<Rightarrow> url_field option" where
  "url_state_field s = (case s of
     s_req_schema \<Rightarrow> Some UF_SCHEMA
   | s_req_server_with_at \<Rightarrow> Some UF_HOST
   | s_req_server \<Rightarrow> Some UF_HOST
   | s_req_path \<Rightarrow> Some UF_PATH
   | s_req_query_string \<Rightarrow> Some UF_QUERY
   | s_req_fragment \<Rightarrow> Some UF_FRAGMENT
   | _ \<Rightarrow> None)"

datatype url_scan = Scan_done http_parser_url bool | Scan_bad | Scan_abort

fun parse_url_loop ::
  "string \<Rightarrow> nat \<Rightarrow> state \<Rightarrow> url_field \<Rightarrow> bool \<Rightarrow> http_parser_url \<Rightarrow> url_scan" where
  "parse_url_loop [] p s old_uf found_at u = Scan_done u found_at"
| "parse_url_loop (ch # rest) p s old_uf found_at u =
     (let s' = parse_url_char s ch in
      if s' = s_dead then Scan_bad
      else if s' \<in> {s_req_schema_slash, s_req_schema_slash_slash, s_req_server_start,
                    s_req_query_string_start, s_req_fragment_start}
      then parse_url_loop rest (Suc p) s' old_uf found_at u
      else case url_state_field s' of
        None \<Rightarrow> Scan_abort
      | Some uf \<Rightarrow>
          parse_url_loop rest (Suc p) s' uf (found_at \<or> s' = s_req_server_with_at)
            (if uf = old_uf then incr_len uf u else set_field uf p 1 u))"

text \<open>
  \<open>strtoul(s, NULL, 10)\<close> on a string that starts with a digit, which is how it is called here:
  the value of the longest digit prefix, clipped to \<open>ULONG_MAX\<close>.
\<close>

definition decimal :: "string \<Rightarrow> int" where
  "decimal ds = foldl (\<lambda>n d. 10 * n + int (digit_val d)) 0 ds"

definition strtoul_10 :: "string \<Rightarrow> int" where
  "strtoul_10 s = min (decimal (takeWhile IS_NUM s)) (2 ^ 64 - 1)"

definition url_port_check :: "string \<Rightarrow> http_parser_url \<Rightarrow> url_result" where
  "url_port_check buf u =
     (if has_field u UF_PORT then
        (let v = strtoul_10 (drop (unat (field_off u UF_PORT)) buf) in
         if v > 0xffff then Url_bad else Url_ok (u\<lparr>url_port := of_int v\<rparr>))
      else Url_ok u)"

definition url_connect_check :: "bool \<Rightarrow> string \<Rightarrow> http_parser_url \<Rightarrow> url_result" where
  "url_connect_check is_connect buf u =
     (if is_connect \<and> field_set u \<noteq> (push_bit (uf_num UF_HOST) 1) OR (push_bit (uf_num UF_PORT) 1)
      then Url_bad else url_port_check buf u)"

definition http_parser_parse_url :: "string \<Rightarrow> bool \<Rightarrow> http_parser_url \<Rightarrow> url_result" where
  "http_parser_parse_url buf is_connect u0 =
     (case parse_url_loop buf 0 (if is_connect then s_req_server_start else s_req_spaces_before_url)
             UF_MAX False (u0\<lparr>url_port := 0, field_set := 0\<rparr>) of
        Scan_bad \<Rightarrow> Url_bad
      | Scan_abort \<Rightarrow> Url_abort
      | Scan_done u found_at \<Rightarrow>
          if has_field u UF_SCHEMA \<or> has_field u UF_HOST
          then (case http_parse_host buf u found_at of
                  Url_ok u' \<Rightarrow> url_connect_check is_connect buf u'
                | r \<Rightarrow> r)
          else url_connect_check is_connect buf u)"

end
