(* ===== verification/Http_Exec.thy ===== *)
theory Http_Exec
  imports Http_Url
begin

text \<open>
  \<open>http_parser_execute\<close> of \<^verbatim>\<open>src/src/http_parser.c\<close>. The local variables of the C function are the
  fields of an \<open>exec_ctx\<close>, every \<open>case\<close> of its big \<open>switch\<close> is one definition \<open>do_...\<close>, and the
  ways control can leave a \<open>case\<close> are the constructors of \<open>ctl\<close>. Assertions, reads outside a
  string, a loop that would not stop and running past the buffer are explicit outcomes.
\<close>

section \<open>Context and control flow\<close>

record 'u exec_ctx =
  parser :: http_parser
  header_field_mark :: "nat option"
  header_value_mark :: "nat option"
  url_mark :: "nat option"
  body_mark :: "nat option"
  status_mark :: "nat option"
  pos :: nat
  udata :: 'u

text \<open>
  \<open>Next\<close>: fall out of the \<open>switch\<close> (or go on after a macro); \<open>Reexecute\<close>: \<open>goto reexecute_byte\<close>;
  \<open>Goto_error\<close>: \<open>goto error\<close>; \<open>Return n\<close>: \<open>return n\<close>; \<open>Abort\<close>: an assertion failed; \<open>Bad_read\<close>: a
  string was read beyond its terminator.
\<close>

datatype ctl = Next | Reexecute | Goto_error | Return nat | Abort | Bad_read

type_synonym 'u step_result = "'u exec_ctx \<times> ctl"

text \<open>Statement sequencing: \<open>f\<close> runs only if control reaches it.\<close>

fun and_then :: "'u step_result \<Rightarrow> ('u exec_ctx \<Rightarrow> 'u step_result) \<Rightarrow> 'u step_result" where
  "and_then (c, Next) f = f c"
| "and_then (c, k) f = (c, k)"

abbreviation upd_parser :: "(http_parser \<Rightarrow> http_parser) \<Rightarrow> 'u exec_ctx \<Rightarrow> 'u exec_ctx" where
  "upd_parser f c \<equiv> c\<lparr>parser := f (parser c)\<rparr>"

definition set_state :: "state \<Rightarrow> 'u exec_ctx \<Rightarrow> 'u exec_ctx" where
  "set_state s c = upd_parser (\<lambda>q. q\<lparr>hp_state := s\<rparr>) c"

definition set_header_state :: "header_states \<Rightarrow> 'u exec_ctx \<Rightarrow> 'u exec_ctx" where
  "set_header_state h c = upd_parser (\<lambda>q. q\<lparr>hp_header_state := h\<rparr>) c"

definition set_index :: "8 word \<Rightarrow> 'u exec_ctx \<Rightarrow> 'u exec_ctx" where
  "set_index i c = upd_parser (\<lambda>q. q\<lparr>hp_index := i\<rparr>) c"

definition add_flag :: "flag_word \<Rightarrow> 'u exec_ctx \<Rightarrow> 'u exec_ctx" where
  "add_flag f c = upd_parser (\<lambda>q. q\<lparr>hp_flags := hp_flags q OR f\<rparr>) c"

definition set_errno :: "http_errno \<Rightarrow> 'u exec_ctx \<Rightarrow> 'u exec_ctx" where
  "set_errno e c = upd_parser (\<lambda>q. q\<lparr>hp_errno := e\<rparr>) c"

definition fail :: "http_errno \<Rightarrow> 'u exec_ctx \<Rightarrow> 'u step_result" where
  "fail e c = (set_errno e c, Goto_error)"

section \<open>Macros\<close>

definition CALLBACK_NOTIFY ::
  "'u http_cb option \<Rightarrow> http_errno \<Rightarrow> nat \<Rightarrow> 'u exec_ctx \<Rightarrow> 'u step_result" where
  "CALLBACK_NOTIFY f er ret c =
     (if hp_errno (parser c) \<noteq> HPE_OK then (c, Abort)
      else case f of
        None \<Rightarrow> (c, Next)
      | Some cb \<Rightarrow>
          (case cb (udata c) (parser c) of (rc, u, q) \<Rightarrow>
             (let q' = (if rc \<noteq> 0 then q\<lparr>hp_errno := er\<rparr> else q);
                  c' = c\<lparr>parser := q', udata := u\<rparr>
              in if hp_errno q' \<noteq> HPE_OK then (c', Return ret) else (c', Next))))"

text \<open>\<open>extra\<close> is 1 only for the body callback of \<open>s_body_identity\<close>, whose length is \<open>p - mark + 1\<close>.\<close>

definition CALLBACK_DATA ::
  "'u http_data_cb option \<Rightarrow> http_errno \<Rightarrow> ('u exec_ctx \<Rightarrow> nat option) \<Rightarrow>
     ('u exec_ctx \<Rightarrow> 'u exec_ctx) \<Rightarrow> nat \<Rightarrow> nat \<Rightarrow> 'u exec_ctx \<Rightarrow> 'u step_result" where
  "CALLBACK_DATA f er mark clear_mark extra ret c =
     (if hp_errno (parser c) \<noteq> HPE_OK then (c, Abort)
      else case mark c of
        None \<Rightarrow> (c, Next)
      | Some m \<Rightarrow>
          (case f of
             None \<Rightarrow> (clear_mark c, Next)
           | Some cb \<Rightarrow>
               (case cb (udata c) (parser c) m (pos c - m + extra) of (rc, u, q) \<Rightarrow>
                  (let q' = (if rc \<noteq> 0 then q\<lparr>hp_errno := er\<rparr> else q);
                       c' = c\<lparr>parser := q', udata := u\<rparr>
                   in if hp_errno q' \<noteq> HPE_OK then (c', Return ret) else (clear_mark c', Next)))))"

definition notify_message_begin ::
  "'u http_parser_settings \<Rightarrow> nat \<Rightarrow> 'u exec_ctx \<Rightarrow> 'u step_result" where
  "notify_message_begin S = CALLBACK_NOTIFY (on_message_begin S) HPE_CB_message_begin"

definition notify_message_complete ::
  "'u http_parser_settings \<Rightarrow> nat \<Rightarrow> 'u exec_ctx \<Rightarrow> 'u step_result" where
  "notify_message_complete S = CALLBACK_NOTIFY (on_message_complete S) HPE_CB_message_complete"

definition data_header_field ::
  "'u http_parser_settings \<Rightarrow> nat \<Rightarrow> 'u exec_ctx \<Rightarrow> 'u step_result" where
  "data_header_field S = CALLBACK_DATA (on_header_field S) HPE_CB_header_field
     header_field_mark (\<lambda>c. c\<lparr>header_field_mark := None\<rparr>) 0"

definition data_header_value ::
  "'u http_parser_settings \<Rightarrow> nat \<Rightarrow> 'u exec_ctx \<Rightarrow> 'u step_result" where
  "data_header_value S = CALLBACK_DATA (on_header_value S) HPE_CB_header_value
     header_value_mark (\<lambda>c. c\<lparr>header_value_mark := None\<rparr>) 0"

definition data_url ::
  "'u http_parser_settings \<Rightarrow> nat \<Rightarrow> 'u exec_ctx \<Rightarrow> 'u step_result" where
  "data_url S = CALLBACK_DATA (on_url S) HPE_CB_url url_mark (\<lambda>c. c\<lparr>url_mark := None\<rparr>) 0"

definition data_body ::
  "'u http_parser_settings \<Rightarrow> nat \<Rightarrow> nat \<Rightarrow> 'u exec_ctx \<Rightarrow> 'u step_result" where
  "data_body S extra = CALLBACK_DATA (on_body S) HPE_CB_body body_mark
     (\<lambda>c. c\<lparr>body_mark := None\<rparr>) extra"

definition data_status ::
  "'u http_parser_settings \<Rightarrow> nat \<Rightarrow> 'u exec_ctx \<Rightarrow> 'u step_result" where
  "data_status S = CALLBACK_DATA (on_status S) HPE_CB_status
     status_mark (\<lambda>c. c\<lparr>status_mark := None\<rparr>) 0"

definition MARK :: "nat option \<Rightarrow> nat \<Rightarrow> nat option" where
  "MARK m p = (case m of None \<Rightarrow> Some p | Some q \<Rightarrow> Some q)"

definition STRICT_CHECK ::
  "bool \<Rightarrow> 'u exec_ctx \<Rightarrow> 'u step_result \<Rightarrow> 'u step_result" where
  "STRICT_CHECK cond c rest = (if cond then fail HPE_STRICT c else rest)"

section \<open>Start of a message and the status line\<close>

definition do_dead :: "char \<Rightarrow> 'u exec_ctx \<Rightarrow> 'u step_result" where
  [handler_defs]: "do_dead ch c =
     (if ch = CR \<or> ch = LF then (c, Next) else fail HPE_CLOSED_CONNECTION c)"

definition do_start_req_or_res ::
  "'u http_parser_settings \<Rightarrow> char \<Rightarrow> 'u exec_ctx \<Rightarrow> 'u step_result" where
  [handler_defs]: "do_start_req_or_res S ch c =
     (if ch = CR \<or> ch = LF then (c, Next)
      else let c1 = upd_parser (\<lambda>q. q\<lparr>hp_flags := 0, hp_content_length := ULLONG_MAX\<rparr>) c in
        if ch = CHR ''H''
        then notify_message_begin S (pos c + 1) (set_state s_res_or_resp_H c1)
        else (upd_parser (\<lambda>q. q\<lparr>hp_type := HTTP_REQUEST, hp_state := s_start_req\<rparr>) c1, Reexecute))"

definition do_res_or_resp_H :: "char \<Rightarrow> 'u exec_ctx \<Rightarrow> 'u step_result" where
  [handler_defs]: "do_res_or_resp_H ch c =
     (if ch = CHR ''T''
      then (upd_parser (\<lambda>q. q\<lparr>hp_type := HTTP_RESPONSE, hp_state := s_res_HT\<rparr>) c, Next)
      else if ch \<noteq> CHR ''E'' then fail HPE_INVALID_CONSTANT c
      else (upd_parser (\<lambda>q. q\<lparr>hp_type := HTTP_REQUEST, hp_method := HTTP_HEAD, hp_index := 2,
                               hp_state := s_req_method\<rparr>) c, Next))"

definition do_start_res ::
  "'u http_parser_settings \<Rightarrow> char \<Rightarrow> 'u exec_ctx \<Rightarrow> 'u step_result" where
  [handler_defs]: "do_start_res S ch c =
     (let c1 = upd_parser (\<lambda>q. q\<lparr>hp_flags := 0, hp_content_length := ULLONG_MAX\<rparr>) c in
      if ch = CHR ''H'' then notify_message_begin S (pos c + 1) (set_state s_res_H c1)
      else if ch = CR \<or> ch = LF then notify_message_begin S (pos c + 1) c1
      else fail HPE_INVALID_CONSTANT c1)"

text \<open>The letters of \<open>HTTP/\<close>: \<open>expected\<close> is the byte the strict check wants.\<close>

definition do_literal :: "char \<Rightarrow> state \<Rightarrow> char \<Rightarrow> 'u exec_ctx \<Rightarrow> 'u step_result" where
  [handler_defs]: "do_literal expected s ch c =
     STRICT_CHECK (ch \<noteq> expected) c (set_state s c, Next)"

definition do_res_first_http_major :: "char \<Rightarrow> 'u exec_ctx \<Rightarrow> 'u step_result" where
  [handler_defs]: "do_res_first_http_major ch c =
     (if ch < CHR ''0'' \<or> ch > CHR ''9'' then fail HPE_INVALID_VERSION c
      else (upd_parser (\<lambda>q. q\<lparr>hp_http_major := of_nat (digit_val ch),
                              hp_state := s_res_http_major\<rparr>) c, Next))"

text \<open>\<open>n = n * 10 + digit\<close> on a 16-bit field.\<close>

definition push_digit :: "16 word \<Rightarrow> char \<Rightarrow> 16 word" where
  "push_digit n ch = n * 10 + of_nat (digit_val ch)"

definition do_major :: "state \<Rightarrow> char \<Rightarrow> 'u exec_ctx \<Rightarrow> 'u step_result" where
  [handler_defs]: "do_major after_dot ch c =
     (if ch = CHR ''.'' then (set_state after_dot c, Next)
      else if \<not> IS_NUM ch then fail HPE_INVALID_VERSION c
      else let c1 = upd_parser (\<lambda>q. q\<lparr>hp_http_major := push_digit (hp_http_major q) ch\<rparr>) c in
        if hp_http_major (parser c1) > 999 then fail HPE_INVALID_VERSION c1 else (c1, Next))"

definition do_first_minor :: "state \<Rightarrow> char \<Rightarrow> 'u exec_ctx \<Rightarrow> 'u step_result" where
  [handler_defs]: "do_first_minor after ch c =
     (if \<not> IS_NUM ch then fail HPE_INVALID_VERSION c
      else (upd_parser (\<lambda>q. q\<lparr>hp_http_minor := of_nat (digit_val ch), hp_state := after\<rparr>) c, Next))"

definition push_minor :: "char \<Rightarrow> 'u exec_ctx \<Rightarrow> 'u step_result" where
  [handler_defs]: "push_minor ch c =
     (if \<not> IS_NUM ch then fail HPE_INVALID_VERSION c
      else let c1 = upd_parser (\<lambda>q. q\<lparr>hp_http_minor := push_digit (hp_http_minor q) ch\<rparr>) c in
        if hp_http_minor (parser c1) > 999 then fail HPE_INVALID_VERSION c1 else (c1, Next))"

definition do_res_http_minor :: "char \<Rightarrow> 'u exec_ctx \<Rightarrow> 'u step_result" where
  [handler_defs]: "do_res_http_minor ch c =
     (if ch = CHR '' '' then (set_state s_res_first_status_code c, Next) else push_minor ch c)"

definition do_res_first_status_code :: "char \<Rightarrow> 'u exec_ctx \<Rightarrow> 'u step_result" where
  [handler_defs]: "do_res_first_status_code ch c =
     (if \<not> IS_NUM ch then (if ch = CHR '' '' then (c, Next) else fail HPE_INVALID_STATUS c)
      else (upd_parser (\<lambda>q. q\<lparr>hp_status_code := of_nat (digit_val ch),
                              hp_state := s_res_status_code\<rparr>) c, Next))"

definition do_res_status_code :: "char \<Rightarrow> 'u exec_ctx \<Rightarrow> 'u step_result" where
  [handler_defs]: "do_res_status_code ch c =
     (if \<not> IS_NUM ch then
        (if ch = CHR '' '' then (set_state s_res_status_start c, Next)
         else if ch = CR then (set_state s_res_line_almost_done c, Next)
         else if ch = LF then (set_state s_header_field_start c, Next)
         else fail HPE_INVALID_STATUS c)
      else let c1 = upd_parser (\<lambda>q. q\<lparr>hp_status_code := push_digit (hp_status_code q) ch\<rparr>) c in
        if hp_status_code (parser c1) > 999 then fail HPE_INVALID_STATUS c1 else (c1, Next))"

definition do_res_status_start :: "char \<Rightarrow> 'u exec_ctx \<Rightarrow> 'u step_result" where
  [handler_defs]: "do_res_status_start ch c =
     (if ch = CR then (set_state s_res_line_almost_done c, Next)
      else if ch = LF then (set_state s_header_field_start c, Next)
      else (set_index 0 (set_state s_res_status (c\<lparr>status_mark := MARK (status_mark c) (pos c)\<rparr>)),
            Next))"

definition do_res_status ::
  "'u http_parser_settings \<Rightarrow> char \<Rightarrow> 'u exec_ctx \<Rightarrow> 'u step_result" where
  [handler_defs]: "do_res_status S ch c =
     (if ch = CR then data_status S (pos c + 1) (set_state s_res_line_almost_done c)
      else if ch = LF then data_status S (pos c + 1) (set_state s_header_field_start c)
      else (c, Next))"

section \<open>The request line\<close>

definition initial_method :: "char \<Rightarrow> http_method option" where
  "initial_method ch =
     (if ch = CHR ''C'' then Some HTTP_CONNECT
      else if ch = CHR ''D'' then Some HTTP_DELETE
      else if ch = CHR ''G'' then Some HTTP_GET
      else if ch = CHR ''H'' then Some HTTP_HEAD
      else if ch = CHR ''L'' then Some HTTP_LOCK
      else if ch = CHR ''M'' then Some HTTP_MKCOL
      else if ch = CHR ''N'' then Some HTTP_NOTIFY
      else if ch = CHR ''O'' then Some HTTP_OPTIONS
      else if ch = CHR ''P'' then Some HTTP_POST
      else if ch = CHR ''R'' then Some HTTP_REPORT
      else if ch = CHR ''S'' then Some HTTP_SUBSCRIBE
      else if ch = CHR ''T'' then Some HTTP_TRACE
      else if ch = CHR ''U'' then Some HTTP_UNLOCK
      else None)"

definition do_start_req ::
  "'u http_parser_settings \<Rightarrow> char \<Rightarrow> 'u exec_ctx \<Rightarrow> 'u step_result" where
  [handler_defs]: "do_start_req S ch c =
     (if ch = CR \<or> ch = LF then (c, Next)
      else let c1 = upd_parser (\<lambda>q. q\<lparr>hp_flags := 0, hp_content_length := ULLONG_MAX\<rparr>) c in
        if \<not> IS_ALPHA ch then fail HPE_INVALID_METHOD c1
        else let c2 = upd_parser (\<lambda>q. q\<lparr>hp_method := HTTP_DELETE, hp_index := 1\<rparr>) c1 in
          case initial_method ch of
            None \<Rightarrow> fail HPE_INVALID_METHOD c2
          | Some m \<Rightarrow> notify_message_begin S (pos c + 1)
              (upd_parser (\<lambda>q. q\<lparr>hp_method := m, hp_state := s_req_method\<rparr>) c2))"

text \<open>
  Where the byte does not continue the current candidate, another method with the same prefix may
  take over. \<^const>\<open>None\<close> is \<open>HPE_INVALID_METHOD\<close>.
\<close>

definition switch_method :: "http_method \<Rightarrow> 8 word \<Rightarrow> char \<Rightarrow> http_method option" where
  "switch_method m i ch =
     (if m = HTTP_CONNECT then
        (if i = 1 \<and> ch = CHR ''H'' then Some HTTP_CHECKOUT
         else if i = 2 \<and> ch = CHR ''P'' then Some HTTP_COPY
         else None)
      else if m = HTTP_MKCOL then
        (if i = 1 \<and> ch = CHR ''O'' then Some HTTP_MOVE
         else if i = 1 \<and> ch = CHR ''E'' then Some HTTP_MERGE
         else if i = 1 \<and> ch = CHR ''-'' then Some HTTP_MSEARCH
         else if i = 2 \<and> ch = CHR ''A'' then Some HTTP_MKACTIVITY
         else None)
      else if m = HTTP_SUBSCRIBE then
        (if i = 1 \<and> ch = CHR ''E'' then Some HTTP_SEARCH else None)
      else if i = 1 \<and> m = HTTP_POST then
        (if ch = CHR ''R'' then Some HTTP_PROPFIND
         else if ch = CHR ''U'' then Some HTTP_PUT
         else if ch = CHR ''A'' then Some HTTP_PATCH
         else None)
      else if i = 2 then
        (if m = HTTP_PUT then (if ch = CHR ''R'' then Some HTTP_PURGE else None)
         else if m = HTTP_UNLOCK then (if ch = CHR ''S'' then Some HTTP_UNSUBSCRIBE else None)
         else None)
      else if i = 4 \<and> m = HTTP_PROPFIND \<and> ch = CHR ''P'' then Some HTTP_PROPPATCH
      else None)"

definition do_req_method :: "char \<Rightarrow> 'u exec_ctx \<Rightarrow> 'u step_result" where
  [handler_defs]: "do_req_method ch c =
     (let m = hp_method (parser c); i = hp_index (parser c) in
      if ch = NUL then fail HPE_INVALID_METHOD c
      else case c_str_at (method_strings m) (unat i) of
        None \<Rightarrow> (c, Bad_read)
      | Some e \<Rightarrow>
          if ch = CHR '' '' \<and> e = NUL
          then (set_index (i + 1) (set_state s_req_spaces_before_url c), Next)
          else if ch = e then (set_index (i + 1) c, Next)
          else case switch_method m i ch of
            None \<Rightarrow> fail HPE_INVALID_METHOD c
          | Some m' \<Rightarrow> (set_index (i + 1) (upd_parser (\<lambda>q. q\<lparr>hp_method := m'\<rparr>) c), Next))"

text \<open>\<open>parser->state = parse_url_char(state, ch)\<close>, with the error when that is \<open>s_dead\<close>.\<close>

definition url_step :: "char \<Rightarrow> 'u exec_ctx \<Rightarrow> 'u step_result" where
  [handler_defs]: "url_step ch c =
     (let s = parse_url_char (hp_state (parser c)) ch; c1 = set_state s c in
      if s = s_dead then fail HPE_INVALID_URL c1 else (c1, Next))"

definition do_req_spaces_before_url :: "char \<Rightarrow> 'u exec_ctx \<Rightarrow> 'u step_result" where
  [handler_defs]: "do_req_spaces_before_url ch c =
     (if ch = CHR '' '' then (c, Next)
      else let c1 = c\<lparr>url_mark := MARK (url_mark c) (pos c)\<rparr>;
               c2 = (if hp_method (parser c) = HTTP_CONNECT then set_state s_req_server_start c1 else c1)
           in url_step ch c2)"

definition do_req_schema :: "char \<Rightarrow> 'u exec_ctx \<Rightarrow> 'u step_result" where
  [handler_defs]: "do_req_schema ch c =
     (if ch = CHR '' '' \<or> ch = CR \<or> ch = LF then fail HPE_INVALID_URL c else url_step ch c)"

definition do_req_url ::
  "'u http_parser_settings \<Rightarrow> char \<Rightarrow> 'u exec_ctx \<Rightarrow> 'u step_result" where
  [handler_defs]: "do_req_url S ch c =
     (if ch = CHR '' '' then data_url S (pos c + 1) (set_state s_req_http_start c)
      else if ch = CR \<or> ch = LF then
        data_url S (pos c + 1)
          (upd_parser (\<lambda>q. q\<lparr>hp_http_major := 0, hp_http_minor := 9,
             hp_state := (if ch = CR then s_req_line_almost_done else s_header_field_start)\<rparr>) c)
      else url_step ch c)"

definition do_req_http_start :: "char \<Rightarrow> 'u exec_ctx \<Rightarrow> 'u step_result" where
  [handler_defs]: "do_req_http_start ch c =
     (if ch = CHR ''H'' then (set_state s_req_http_H c, Next)
      else if ch = CHR '' '' then (c, Next)
      else fail HPE_INVALID_CONSTANT c)"

definition do_req_first_http_major :: "char \<Rightarrow> 'u exec_ctx \<Rightarrow> 'u step_result" where
  [handler_defs]: "do_req_first_http_major ch c =
     (if ch < CHR ''1'' \<or> ch > CHR ''9'' then fail HPE_INVALID_VERSION c
      else (upd_parser (\<lambda>q. q\<lparr>hp_http_major := of_nat (digit_val ch),
                              hp_state := s_req_http_major\<rparr>) c, Next))"

definition do_req_http_minor :: "char \<Rightarrow> 'u exec_ctx \<Rightarrow> 'u step_result" where
  [handler_defs]: "do_req_http_minor ch c =
     (if ch = CR then (set_state s_req_line_almost_done c, Next)
      else if ch = LF then (set_state s_header_field_start c, Next)
      else push_minor ch c)"

definition do_req_line_almost_done :: "char \<Rightarrow> 'u exec_ctx \<Rightarrow> 'u step_result" where
  [handler_defs]: "do_req_line_almost_done ch c =
     (if ch \<noteq> LF then fail HPE_LF_EXPECTED c else (set_state s_header_field_start c, Next))"

section \<open>Header fields\<close>

definition PROXY_CONNECTION :: string where "PROXY_CONNECTION = ''proxy-connection''"
definition CONNECTION :: string where "CONNECTION = ''connection''"
definition CONTENT_LENGTH :: string where "CONTENT_LENGTH = ''content-length''"
definition TRANSFER_ENCODING :: string where "TRANSFER_ENCODING = ''transfer-encoding''"
definition UPGRADE :: string where "UPGRADE = ''upgrade''"
definition CHUNKED :: string where "CHUNKED = ''chunked''"
definition KEEP_ALIVE :: string where "KEEP_ALIVE = ''keep-alive''"
definition CLOSE :: string where "CLOSE = ''close''"

lemmas header_words = PROXY_CONNECTION_def CONNECTION_def CONTENT_LENGTH_def
  TRANSFER_ENCODING_def UPGRADE_def CHUNKED_def KEEP_ALIVE_def CLOSE_def

definition do_header_field_start :: "char \<Rightarrow> 'u exec_ctx \<Rightarrow> 'u step_result" where
  [handler_defs]: "do_header_field_start ch c =
     (if ch = CR then (set_state s_headers_almost_done c, Next)
      else if ch = LF then (set_state s_headers_almost_done c, Reexecute)
      else let t = TOKEN ch in
        if t = NUL then fail HPE_INVALID_HEADER_TOKEN c
        else (set_header_state
                (if t = CHR ''c'' then h_C
                 else if t = CHR ''p'' then h_matching_proxy_connection
                 else if t = CHR ''t'' then h_matching_transfer_encoding
                 else if t = CHR ''u'' then h_matching_upgrade
                 else h_general)
                (set_state s_header_field (set_index 0
                  (c\<lparr>header_field_mark := MARK (header_field_mark c) (pos c)\<rparr>))), Next))"

text \<open>
  One byte \<open>t\<close> against the word \<open>w\<close> at the already incremented index \<open>i\<close>. \<open>sizeof(W)-1\<close> is the
  length of \<open>w\<close>, so the read \<open>W[i]\<close> stays inside \<open>w\<close> and its terminator.
\<close>

definition match_word ::
  "string \<Rightarrow> header_states \<Rightarrow> header_states \<Rightarrow> 8 word \<Rightarrow> char \<Rightarrow> header_states" where
  "match_word w matching matched i t =
     (if unat i > length w \<or> c_str_at w (unat i) \<noteq> Some t then h_general
      else if unat i = length w - 1 then matched
      else matching)"

text \<open>The header-name automaton; \<^const>\<open>None\<close> is the failing assertion on an unknown state.\<close>

definition header_name_step ::
  "header_states \<Rightarrow> 8 word \<Rightarrow> char \<Rightarrow> char \<Rightarrow> (header_states \<times> 8 word) option" where
  "header_name_step h i t ch = (case h of
     h_general \<Rightarrow> Some (h_general, i)
   | h_C \<Rightarrow> Some (if t = CHR ''o'' then h_CO else h_general, i + 1)
   | h_CO \<Rightarrow> Some (if t = CHR ''n'' then h_CON else h_general, i + 1)
   | h_CON \<Rightarrow> Some (if t = CHR ''n'' then h_matching_connection
                     else if t = CHR ''t'' then h_matching_content_length
                     else h_general, i + 1)
   | h_matching_connection \<Rightarrow>
       Some (match_word CONNECTION h h_connection (i + 1) t, i + 1)
   | h_matching_proxy_connection \<Rightarrow>
       Some (match_word PROXY_CONNECTION h h_connection (i + 1) t, i + 1)
   | h_matching_content_length \<Rightarrow>
       Some (match_word CONTENT_LENGTH h h_content_length (i + 1) t, i + 1)
   | h_matching_transfer_encoding \<Rightarrow>
       Some (match_word TRANSFER_ENCODING h h_transfer_encoding (i + 1) t, i + 1)
   | h_matching_upgrade \<Rightarrow>
       Some (match_word UPGRADE h h_upgrade (i + 1) t, i + 1)
   | h_connection \<Rightarrow> Some (if ch \<noteq> CHR '' '' then h_general else h, i)
   | h_content_length \<Rightarrow> Some (if ch \<noteq> CHR '' '' then h_general else h, i)
   | h_transfer_encoding \<Rightarrow> Some (if ch \<noteq> CHR '' '' then h_general else h, i)
   | h_upgrade \<Rightarrow> Some (if ch \<noteq> CHR '' '' then h_general else h, i)
   | _ \<Rightarrow> None)"

definition do_header_field ::
  "'u http_parser_settings \<Rightarrow> char \<Rightarrow> 'u exec_ctx \<Rightarrow> 'u step_result" where
  [handler_defs]: "do_header_field S ch c =
     (let t = TOKEN ch in
      if t \<noteq> NUL then
        (case header_name_step (hp_header_state (parser c)) (hp_index (parser c)) t ch of
           None \<Rightarrow> (c, Abort)
         | Some (h, i) \<Rightarrow> (set_header_state h (set_index i c), Next))
      else if ch = CHR '':'' then data_header_field S (pos c + 1) (set_state s_header_value_start c)
      else if ch = CR then data_header_field S (pos c + 1) (set_state s_header_almost_done c)
      else if ch = LF then data_header_field S (pos c + 1) (set_state s_header_field_start c)
      else fail HPE_INVALID_HEADER_TOKEN c)"

definition do_header_value_start ::
  "'u http_parser_settings \<Rightarrow> char \<Rightarrow> 'u exec_ctx \<Rightarrow> 'u step_result" where
  [handler_defs]: "do_header_value_start S ch c =
     (if ch = CHR '' '' \<or> ch = HT then (c, Next)
      else
        let c1 = set_index 0 (set_state s_header_value
                   (c\<lparr>header_value_mark := MARK (header_value_mark c) (pos c)\<rparr>)) in
        if ch = CR then
          data_header_value S (pos c + 1)
            (set_state s_header_almost_done (set_header_state h_general c1))
        else if ch = LF then data_header_value S (pos c + 1) (set_state s_header_field_start c1)
        else let t = LOWER ch in
          (case hp_header_state (parser c) of
             h_upgrade \<Rightarrow> (set_header_state h_general (add_flag F_UPGRADE c1), Next)
           | h_transfer_encoding \<Rightarrow>
               (set_header_state (if t = CHR ''c'' then h_matching_transfer_encoding_chunked
                                  else h_general) c1, Next)
           | h_content_length \<Rightarrow>
               (if \<not> IS_NUM ch then fail HPE_INVALID_CONTENT_LENGTH c1
                else (upd_parser (\<lambda>q. q\<lparr>hp_content_length := of_nat (digit_val ch)\<rparr>) c1, Next))
           | h_connection \<Rightarrow>
               (set_header_state (if t = CHR ''k'' then h_matching_connection_keep_alive
                                  else if t = CHR ''c'' then h_matching_connection_close
                                  else h_general) c1, Next)
           | _ \<Rightarrow> (set_header_state h_general c1, Next)))"

text \<open>A further digit of \<open>Content-Length\<close>; the sum wraps before the limit is tested.\<close>

definition do_content_length_digit :: "char \<Rightarrow> 'u exec_ctx \<Rightarrow> 'u step_result" where
  [handler_defs]: "do_content_length_digit ch c =
     (if ch = CHR '' '' then (c, Next)
      else if \<not> IS_NUM ch then fail HPE_INVALID_CONTENT_LENGTH c
      else let n = hp_content_length (parser c); t = n * 10 + of_nat (digit_val ch) in
        if (ULLONG_MAX - 10) div 10 < n then fail HPE_INVALID_CONTENT_LENGTH c
        else (upd_parser (\<lambda>q. q\<lparr>hp_content_length := t\<rparr>) c, Next))"

definition value_word_step ::
  "string \<Rightarrow> header_states \<Rightarrow> header_states \<Rightarrow> char \<Rightarrow> 'u exec_ctx \<Rightarrow> 'u step_result" where
  [handler_defs]: "value_word_step w matching matched t c =
     (let i = hp_index (parser c) + 1 in
      (set_header_state (match_word w matching matched i t) (set_index i c), Next))"

definition do_header_value ::
  "'u http_parser_settings \<Rightarrow> char \<Rightarrow> 'u exec_ctx \<Rightarrow> 'u step_result" where
  [handler_defs]: "do_header_value S ch c =
     (if ch = CR then data_header_value S (pos c + 1) (set_state s_header_almost_done c)
      else if ch = LF then
        and_then (data_header_value S (pos c) (set_state s_header_almost_done c))
          (\<lambda>c1. (c1, Reexecute))
      else let t = LOWER ch; h = hp_header_state (parser c) in
        (case h of
           h_general \<Rightarrow> (c, Next)
         | h_connection \<Rightarrow> (c, Abort)
         | h_transfer_encoding \<Rightarrow> (c, Abort)
         | h_content_length \<Rightarrow> do_content_length_digit ch c
         | h_matching_transfer_encoding_chunked \<Rightarrow>
             value_word_step CHUNKED h h_transfer_encoding_chunked t c
         | h_matching_connection_keep_alive \<Rightarrow>
             value_word_step KEEP_ALIVE h h_connection_keep_alive t c
         | h_matching_connection_close \<Rightarrow>
             value_word_step CLOSE h h_connection_close t c
         | h_transfer_encoding_chunked \<Rightarrow>
             (if ch \<noteq> CHR '' '' then set_header_state h_general c else c, Next)
         | h_connection_keep_alive \<Rightarrow>
             (if ch \<noteq> CHR '' '' then set_header_state h_general c else c, Next)
         | h_connection_close \<Rightarrow>
             (if ch \<noteq> CHR '' '' then set_header_state h_general c else c, Next)
         | _ \<Rightarrow> (set_header_state h_general (set_state s_header_value c), Next)))"

definition do_header_almost_done :: "char \<Rightarrow> 'u exec_ctx \<Rightarrow> 'u step_result" where
  [handler_defs]: "do_header_almost_done ch c =
     STRICT_CHECK (ch \<noteq> LF) c
       (let c1 = set_state s_header_value_lws c in
        (case hp_header_state (parser c) of
           h_connection_keep_alive \<Rightarrow> add_flag F_CONNECTION_KEEP_ALIVE c1
         | h_connection_close \<Rightarrow> add_flag F_CONNECTION_CLOSE c1
         | h_transfer_encoding_chunked \<Rightarrow> add_flag F_CHUNKED c1
         | _ \<Rightarrow> c1, Next))"

definition do_header_value_lws :: "char \<Rightarrow> 'u exec_ctx \<Rightarrow> 'u step_result" where
  [handler_defs]: "do_header_value_lws ch c =
     (if ch = CHR '' '' \<or> ch = HT then (set_state s_header_value_start c, Next)
      else (set_state s_header_field_start c, Reexecute))"

section \<open>End of the headers\<close>

text \<open>
  The callback \<open>on_headers_complete\<close> is special: a result of 1 means that the message has no
  body, and a pause is noticed afterwards.
\<close>

definition call_headers_complete ::
  "'u http_parser_settings \<Rightarrow> 'u exec_ctx \<Rightarrow> 'u step_result" where
  [handler_defs]: "call_headers_complete S c = (case on_headers_complete S of
     None \<Rightarrow> (c, Next)
   | Some cb \<Rightarrow>
       (case cb (udata c) (parser c) of (rc, u, q) \<Rightarrow>
          (let c1 = c\<lparr>parser := q, udata := u\<rparr> in
           if rc = 0 then (c1, Next)
           else if rc = 1 then (add_flag F_SKIPBODY c1, Next)
           else (set_errno HPE_CB_headers_complete c1, Return (pos c)))))"

definition do_headers_almost_done ::
  "'u http_parser_settings \<Rightarrow> char \<Rightarrow> 'u exec_ctx \<Rightarrow> 'u step_result" where
  [handler_defs]: "do_headers_almost_done S ch c =
     STRICT_CHECK (ch \<noteq> LF) c
       (if flag_set (parser c) F_TRAILING
        then notify_message_complete S (pos c + 1) (set_state (NEW_MESSAGE (parser c)) c)
        else and_then
          (call_headers_complete S
             (upd_parser (\<lambda>q. q\<lparr>hp_upgrade := (flag_set q F_UPGRADE \<or> hp_method q = HTTP_CONNECT)\<rparr>)
                (set_state s_headers_done c)))
          (\<lambda>c1. if hp_errno (parser c1) \<noteq> HPE_OK then (c1, Return (pos c1)) else (c1, Reexecute)))"

definition do_headers_done ::
  "'u http_parser_settings \<Rightarrow> char \<Rightarrow> 'u exec_ctx \<Rightarrow> 'u step_result" where
  [handler_defs]: "do_headers_done S ch c =
     STRICT_CHECK (ch \<noteq> LF) c
       (let c1 = upd_parser (\<lambda>q. q\<lparr>hp_nread := 0\<rparr>) c; q = parser c1;
            complete = notify_message_complete S (pos c + 1) (set_state (NEW_MESSAGE q) c1) in
        if hp_upgrade q then and_then complete (\<lambda>c2. (c2, Return (pos c + 1)))
        else if flag_set q F_SKIPBODY then complete
        else if flag_set q F_CHUNKED then (set_state s_chunk_size_start c1, Next)
        else if hp_content_length q = 0 then complete
        else if hp_content_length q \<noteq> ULLONG_MAX then (set_state s_body_identity c1, Next)
        else if hp_type q = HTTP_REQUEST \<or> \<not> http_message_needs_eof q then complete
        else (set_state s_body_identity_eof c1, Next))"

section \<open>The body\<close>

text \<open>
  \<open>MIN(content_length, (data + len) - p)\<close>. A buffer length fits in 64 bits, so the cast of the
  difference keeps its value.
\<close>

definition to_read :: "nat \<Rightarrow> 'u exec_ctx \<Rightarrow> nat" where
  "to_read len c = min (unat (hp_content_length (parser c))) (len - pos c)"

text \<open>Mark the body, account for the bytes at hand and move \<open>p\<close> to the last of them.\<close>

definition take_body :: "nat \<Rightarrow> 'u exec_ctx \<Rightarrow> 'u exec_ctx" where
  "take_body len c =
     (let n = to_read len c in
      (upd_parser (\<lambda>q. q\<lparr>hp_content_length := hp_content_length q - of_nat n\<rparr>) c)
        \<lparr>body_mark := MARK (body_mark c) (pos c), pos := pos c + n - 1\<rparr>)"

definition do_body_identity ::
  "'u http_parser_settings \<Rightarrow> nat \<Rightarrow> 'u exec_ctx \<Rightarrow> 'u step_result" where
  [handler_defs]: "do_body_identity S len c =
     (if hp_content_length (parser c) = 0 \<or> hp_content_length (parser c) = ULLONG_MAX
      then (c, Abort)
      else let c1 = take_body len c in
        if hp_content_length (parser c1) = 0
        then and_then (data_body S 1 (pos c1) (set_state s_message_done c1)) (\<lambda>c2. (c2, Reexecute))
        else (c1, Next))"

definition do_body_identity_eof :: "nat \<Rightarrow> 'u exec_ctx \<Rightarrow> 'u step_result" where
  [handler_defs]: "do_body_identity_eof len c =
     (c\<lparr>body_mark := MARK (body_mark c) (pos c), pos := len - 1\<rparr>, Next)"

definition do_message_done ::
  "'u http_parser_settings \<Rightarrow> 'u exec_ctx \<Rightarrow> 'u step_result" where
  [handler_defs]: "do_message_done S c =
     notify_message_complete S (pos c + 1) (set_state (NEW_MESSAGE (parser c)) c)"

definition ASSERT :: "bool \<Rightarrow> 'u exec_ctx \<Rightarrow> 'u step_result \<Rightarrow> 'u step_result" where
  "ASSERT cond c rest = (if cond then rest else (c, Abort))"

definition do_chunk_size_start :: "char \<Rightarrow> 'u exec_ctx \<Rightarrow> 'u step_result" where
  [handler_defs]: "do_chunk_size_start ch c =
     ASSERT (hp_nread (parser c) = 1) c (ASSERT (flag_set (parser c) F_CHUNKED) c
       (if unhex_at ch = -1 then fail HPE_INVALID_CHUNK_SIZE c
        else (upd_parser (\<lambda>q. q\<lparr>hp_content_length := of_int (unhex_at ch),
                                hp_state := s_chunk_size\<rparr>) c, Next)))"

definition do_chunk_size :: "char \<Rightarrow> 'u exec_ctx \<Rightarrow> 'u step_result" where
  [handler_defs]: "do_chunk_size ch c =
     ASSERT (flag_set (parser c) F_CHUNKED) c
       (if ch = CR then (set_state s_chunk_size_almost_done c, Next)
        else if unhex_at ch = -1 then
          (if ch = CHR '';'' \<or> ch = CHR '' '' then (set_state s_chunk_parameters c, Next)
           else fail HPE_INVALID_CHUNK_SIZE c)
        else let n = hp_content_length (parser c); t = n * 16 + of_int (unhex_at ch) in
          if (ULLONG_MAX - 16) div 16 < n then fail HPE_INVALID_CONTENT_LENGTH c
          else (upd_parser (\<lambda>q. q\<lparr>hp_content_length := t\<rparr>) c, Next))"

definition do_chunk_parameters :: "char \<Rightarrow> 'u exec_ctx \<Rightarrow> 'u step_result" where
  [handler_defs]: "do_chunk_parameters ch c =
     ASSERT (flag_set (parser c) F_CHUNKED) c
       (if ch = CR then (set_state s_chunk_size_almost_done c, Next) else (c, Next))"

definition do_chunk_size_almost_done :: "char \<Rightarrow> 'u exec_ctx \<Rightarrow> 'u step_result" where
  [handler_defs]: "do_chunk_size_almost_done ch c =
     ASSERT (flag_set (parser c) F_CHUNKED) c (STRICT_CHECK (ch \<noteq> LF) c
       (let c1 = upd_parser (\<lambda>q. q\<lparr>hp_nread := 0\<rparr>) c in
        if hp_content_length (parser c1) = 0
        then (set_state s_header_field_start (add_flag F_TRAILING c1), Next)
        else (set_state s_chunk_data c1, Next)))"

definition do_chunk_data :: "nat \<Rightarrow> 'u exec_ctx \<Rightarrow> 'u step_result" where
  [handler_defs]: "do_chunk_data len c =
     ASSERT (flag_set (parser c) F_CHUNKED) c
       (ASSERT (hp_content_length (parser c) \<noteq> 0 \<and> hp_content_length (parser c) \<noteq> ULLONG_MAX) c
         (let c1 = take_body len c in
          (if hp_content_length (parser c1) = 0 then set_state s_chunk_data_almost_done c1 else c1,
           Next)))"

definition do_chunk_data_almost_done ::
  "'u http_parser_settings \<Rightarrow> char \<Rightarrow> 'u exec_ctx \<Rightarrow> 'u step_result" where
  [handler_defs]: "do_chunk_data_almost_done S ch c =
     ASSERT (flag_set (parser c) F_CHUNKED) c (ASSERT (hp_content_length (parser c) = 0) c
       (STRICT_CHECK (ch \<noteq> CR) c
         (data_body S 0 (pos c + 1) (set_state s_chunk_data_done c))))"

definition do_chunk_data_done :: "char \<Rightarrow> 'u exec_ctx \<Rightarrow> 'u step_result" where
  [handler_defs]: "do_chunk_data_done ch c =
     ASSERT (flag_set (parser c) F_CHUNKED) c (STRICT_CHECK (ch \<noteq> LF) c
       (upd_parser (\<lambda>q. q\<lparr>hp_nread := 0, hp_state := s_chunk_size_start\<rparr>) c, Next))"

section \<open>The switch and the end of a call\<close>

definition dispatch ::
  "'u http_parser_settings \<Rightarrow> nat \<Rightarrow> char \<Rightarrow> 'u exec_ctx \<Rightarrow> 'u step_result" where
  "dispatch S len ch c = (case hp_state (parser c) of
     s_dead \<Rightarrow> do_dead ch c
   | s_start_req_or_res \<Rightarrow> do_start_req_or_res S ch c
   | s_res_or_resp_H \<Rightarrow> do_res_or_resp_H ch c
   | s_start_res \<Rightarrow> do_start_res S ch c
   | s_res_H \<Rightarrow> do_literal (CHR ''T'') s_res_HT ch c
   | s_res_HT \<Rightarrow> do_literal (CHR ''T'') s_res_HTT ch c
   | s_res_HTT \<Rightarrow> do_literal (CHR ''P'') s_res_HTTP ch c
   | s_res_HTTP \<Rightarrow> do_literal (CHR ''/'') s_res_first_http_major ch c
   | s_res_first_http_major \<Rightarrow> do_res_first_http_major ch c
   | s_res_http_major \<Rightarrow> do_major s_res_first_http_minor ch c
   | s_res_first_http_minor \<Rightarrow> do_first_minor s_res_http_minor ch c
   | s_res_http_minor \<Rightarrow> do_res_http_minor ch c
   | s_res_first_status_code \<Rightarrow> do_res_first_status_code ch c
   | s_res_status_code \<Rightarrow> do_res_status_code ch c
   | s_res_status_start \<Rightarrow> do_res_status_start ch c
   | s_res_status \<Rightarrow> do_res_status S ch c
   | s_res_line_almost_done \<Rightarrow> do_literal LF s_header_field_start ch c
   | s_start_req \<Rightarrow> do_start_req S ch c
   | s_req_method \<Rightarrow> do_req_method ch c
   | s_req_spaces_before_url \<Rightarrow> do_req_spaces_before_url ch c
   | s_req_schema \<Rightarrow> do_req_schema ch c
   | s_req_schema_slash \<Rightarrow> do_req_schema ch c
   | s_req_schema_slash_slash \<Rightarrow> do_req_schema ch c
   | s_req_server_start \<Rightarrow> do_req_schema ch c
   | s_req_server \<Rightarrow> do_req_url S ch c
   | s_req_server_with_at \<Rightarrow> do_req_url S ch c
   | s_req_path \<Rightarrow> do_req_url S ch c
   | s_req_query_string_start \<Rightarrow> do_req_url S ch c
   | s_req_query_string \<Rightarrow> do_req_url S ch c
   | s_req_fragment_start \<Rightarrow> do_req_url S ch c
   | s_req_fragment \<Rightarrow> do_req_url S ch c
   | s_req_http_start \<Rightarrow> do_req_http_start ch c
   | s_req_http_H \<Rightarrow> do_literal (CHR ''T'') s_req_http_HT ch c
   | s_req_http_HT \<Rightarrow> do_literal (CHR ''T'') s_req_http_HTT ch c
   | s_req_http_HTT \<Rightarrow> do_literal (CHR ''P'') s_req_http_HTTP ch c
   | s_req_http_HTTP \<Rightarrow> do_literal (CHR ''/'') s_req_first_http_major ch c
   | s_req_first_http_major \<Rightarrow> do_req_first_http_major ch c
   | s_req_http_major \<Rightarrow> do_major s_req_first_http_minor ch c
   | s_req_first_http_minor \<Rightarrow> do_first_minor s_req_http_minor ch c
   | s_req_http_minor \<Rightarrow> do_req_http_minor ch c
   | s_req_line_almost_done \<Rightarrow> do_req_line_almost_done ch c
   | s_header_field_start \<Rightarrow> do_header_field_start ch c
   | s_header_field \<Rightarrow> do_header_field S ch c
   | s_header_value_start \<Rightarrow> do_header_value_start S ch c
   | s_header_value \<Rightarrow> do_header_value S ch c
   | s_header_value_lws \<Rightarrow> do_header_value_lws ch c
   | s_header_almost_done \<Rightarrow> do_header_almost_done ch c
   | s_chunk_size_start \<Rightarrow> do_chunk_size_start ch c
   | s_chunk_size \<Rightarrow> do_chunk_size ch c
   | s_chunk_parameters \<Rightarrow> do_chunk_parameters ch c
   | s_chunk_size_almost_done \<Rightarrow> do_chunk_size_almost_done ch c
   | s_headers_almost_done \<Rightarrow> do_headers_almost_done S ch c
   | s_headers_done \<Rightarrow> do_headers_done S ch c
   | s_chunk_data \<Rightarrow> do_chunk_data len c
   | s_chunk_data_almost_done \<Rightarrow> do_chunk_data_almost_done S ch c
   | s_chunk_data_done \<Rightarrow> do_chunk_data_done ch c
   | s_body_identity \<Rightarrow> do_body_identity S len c
   | s_body_identity_eof \<Rightarrow> do_body_identity_eof len c
   | s_message_done \<Rightarrow> do_message_done S c)"

text \<open>
  \<open>reexecute_byte\<close>: the \<open>switch\<close> again with the same \<open>ch\<close>. The first argument bounds the number of
  repetitions; \<^const>\<open>Reexecute\<close> is returned only when it runs out.
\<close>

fun run_byte ::
  "nat \<Rightarrow> 'u http_parser_settings \<Rightarrow> nat \<Rightarrow> char \<Rightarrow> 'u exec_ctx \<Rightarrow> 'u step_result" where
  "run_byte 0 S len ch c = (c, Reexecute)"
| "run_byte (Suc n) S len ch c =
     (case dispatch S len ch c of
        (c', Reexecute) \<Rightarrow> run_byte n S len ch c'
      | r \<Rightarrow> r)"

definition reexecute_bound :: nat where "reexecute_bound = 5"

definition count_byte :: "'u exec_ctx \<Rightarrow> 'u exec_ctx" where
  "count_byte c = (if PARSING_HEADER (hp_state (parser c))
     then upd_parser (\<lambda>q. q\<lparr>hp_nread := hp_nread q + 1\<rparr>) c else c)"

text \<open>
  How a call ends: with a return value, by an assertion, by a read outside a string, by
  re-executing one byte forever, or with \<open>p\<close> beyond the end of the buffer.
\<close>

datatype exec_end = Parsed nat | Aborted | Out_of_bounds | Diverged | Overrun

type_synonym 'u exec_result = "http_parser \<times> 'u \<times> exec_end"

definition at_error :: "'u exec_ctx \<Rightarrow> 'u exec_result" where
  "at_error c =
     (let c1 = (if hp_errno (parser c) = HPE_OK then set_errno HPE_UNKNOWN c else c)
      in (parser c1, udata c1, Parsed (pos c1)))"

definition finish :: "'u step_result \<Rightarrow> 'u exec_result" where
  "finish r = (case r of (c, k) \<Rightarrow> (case k of
     Next \<Rightarrow> (parser c, udata c, Diverged)
   | Reexecute \<Rightarrow> (parser c, udata c, Diverged)
   | Goto_error \<Rightarrow> at_error c
   | Return n \<Rightarrow> (parser c, udata c, Parsed n)
   | Abort \<Rightarrow> (parser c, udata c, Aborted)
   | Bad_read \<Rightarrow> (parser c, udata c, Out_of_bounds)))"

text \<open>After the last byte: at most one mark is set, and its callback is due.\<close>

definition marks :: "'u exec_ctx \<Rightarrow> nat option list" where
  "marks c = [header_field_mark c, header_value_mark c, url_mark c, body_mark c, status_mark c]"

definition after_loop :: "'u http_parser_settings \<Rightarrow> nat \<Rightarrow> 'u exec_ctx \<Rightarrow> 'u exec_result" where
  "after_loop S len c = finish
     (ASSERT (length (filter (\<lambda>m. m \<noteq> None) (marks c)) \<le> 1) c
       (and_then (data_header_field S (pos c) c) (\<lambda>c1.
        and_then (data_header_value S (pos c1) c1) (\<lambda>c2.
        and_then (data_url S (pos c2) c2) (\<lambda>c3.
        and_then (data_body S 0 (pos c3) c3) (\<lambda>c4.
        and_then (data_status S (pos c4) c4) (\<lambda>c5.
        (c5, Return len))))))))"

section \<open>The read position only moves forward\<close>

lemma pos_set [simp]:
  "pos (set_state s c) = pos c" "pos (set_header_state h c) = pos c" "pos (set_index i c) = pos c"
  "pos (add_flag f c) = pos c" "pos (set_errno e c) = pos c"
  by (simp_all add: set_state_def set_header_state_def set_index_def add_flag_def set_errno_def)

lemma pos_fail [simp]: "pos (fst (fail e c)) = pos c"
  by (simp add: fail_def)

lemma pos_CALLBACK_NOTIFY [simp]: "pos (fst (CALLBACK_NOTIFY f er ret c)) = pos c"
  by (simp add: CALLBACK_NOTIFY_def Let_def split: option.split prod.split)

lemma pos_CALLBACK_DATA:
  "(\<And>c. pos (cl c) = pos c) \<Longrightarrow> pos (fst (CALLBACK_DATA f er mark cl ex ret c)) = pos c"
  by (simp add: CALLBACK_DATA_def Let_def split: option.split prod.split)

lemma pos_callbacks [simp]:
  "pos (fst (notify_message_begin S ret c)) = pos c"
  "pos (fst (notify_message_complete S ret c)) = pos c"
  "pos (fst (data_header_field S ret c)) = pos c"
  "pos (fst (data_header_value S ret c)) = pos c"
  "pos (fst (data_url S ret c)) = pos c"
  "pos (fst (data_body S ex ret c)) = pos c"
  "pos (fst (data_status S ret c)) = pos c"
  by (simp_all add: notify_message_begin_def notify_message_complete_def data_header_field_def
        data_header_value_def data_url_def data_body_def data_status_def pos_CALLBACK_DATA)

lemma pos_and_then:
  "(\<And>c. pos (fst (f c)) = pos c) \<Longrightarrow> pos (fst (and_then r f)) = pos (fst r)"
  by (cases "(r, f)" rule: and_then.cases) simp_all

lemma pos_STRICT_CHECK: "pos (fst r) = pos c \<Longrightarrow> pos (fst (STRICT_CHECK b c r)) = pos c"
  by (simp add: STRICT_CHECK_def)

lemma pos_ASSERT: "pos (fst r) = pos c \<Longrightarrow> pos (fst (ASSERT b c r)) = pos c"
  by (simp add: ASSERT_def)

lemma pos_take_body:
  "pos c < len \<Longrightarrow> hp_content_length (parser c) \<noteq> 0 \<Longrightarrow>
     pos c \<le> pos (take_body len c) \<and> pos (take_body len c) < len"
  using unat_gt_0[of "hp_content_length (parser c)"]
  by (auto simp: take_body_def to_read_def Let_def min_def)

lemmas pos_rules = pos_STRICT_CHECK pos_ASSERT pos_and_then

definition body_states :: "state set" where
  "body_states = {s_body_identity, s_body_identity_eof, s_chunk_data}"

lemma pos_dispatch_header:
  "hp_state (parser c) \<notin> body_states \<Longrightarrow> pos (fst (dispatch S len ch c)) = pos c"
  by (cases "hp_state (parser c)")
     (simp_all add: body_states_def dispatch_def handler_defs Let_def pos_rules
        split: option.split prod.split header_states.split)

lemma pos_dispatch_body:
  "pos c < len \<Longrightarrow> hp_state (parser c) \<in> body_states \<Longrightarrow>
     pos c \<le> pos (fst (dispatch S len ch c)) \<and> pos (fst (dispatch S len ch c)) < len"
  using pos_take_body[of c len]
  by (auto simp: body_states_def dispatch_def do_body_identity_def do_body_identity_eof_def
        do_chunk_data_def ASSERT_def Let_def pos_and_then)

lemma pos_dispatch:
  "pos c < len \<Longrightarrow> pos c \<le> pos (fst (dispatch S len ch c)) \<and> pos (fst (dispatch S len ch c)) < len"
  using pos_dispatch_header[of c S len ch] pos_dispatch_body[of c len S ch]
  by (cases "hp_state (parser c) \<in> body_states") simp_all

lemma pos_run_byte:
  "pos c < len \<Longrightarrow> pos c \<le> pos (fst (run_byte n S len ch c)) \<and> pos (fst (run_byte n S len ch c)) < len"
proof (induction n arbitrary: c)
  case (Suc n)
  obtain c' k where d: "dispatch S len ch c = (c', k)" by (cases "dispatch S len ch c")
  with pos_dispatch[OF Suc.prems, of S ch] have b: "pos c \<le> pos c'" "pos c' < len" by simp_all
  show ?case
    using Suc.IH[OF b(2)] b d by (cases k) auto
qed simp

lemma run_byte_pos:
  "run_byte n S len ch c = (c', k) \<Longrightarrow> pos c < len \<Longrightarrow> pos c \<le> pos c' \<and> pos c' < len"
  using pos_run_byte[of c len n S ch] by simp

lemma pos_count_byte [simp]: "pos (count_byte c) = pos c"
  by (simp add: count_byte_def)

section \<open>The byte loop and the function\<close>

text \<open>The \<open>for\<close> loop over the bytes of \<open>data\<close>.\<close>

function exec_loop ::
  "'u http_parser_settings \<Rightarrow> string \<Rightarrow> 'u exec_ctx \<Rightarrow> 'u exec_result" where
  "exec_loop S data c =
     (if pos c = length data then after_loop S (length data) c
      else if pos c > length data then (parser c, udata c, Overrun)
      else
        let ch = data ! pos c; c1 = count_byte c in
        if PARSING_HEADER (hp_state (parser c)) \<and> hp_nread (parser c1) > HTTP_MAX_HEADER_SIZE
        then at_error (set_errno HPE_HEADER_OVERFLOW c1)
        else (case run_byte reexecute_bound S (length data) ch c1 of
                (c2, Next) \<Rightarrow> exec_loop S data (c2\<lparr>pos := pos c2 + 1\<rparr>)
              | r \<Rightarrow> finish r))"
  by pat_completeness auto
termination
  by (relation "measure (\<lambda>(S, data, c). length data - pos c)")
     (auto dest!: sym[THEN run_byte_pos])

declare exec_loop.simps [simp del]

text \<open>The four ways one round of the loop can go.\<close>

definition header_overflow :: "'u exec_ctx \<Rightarrow> bool" where
  "header_overflow c \<longleftrightarrow> PARSING_HEADER (hp_state (parser c)) \<and>
     hp_nread (parser (count_byte c)) > HTTP_MAX_HEADER_SIZE"

lemma exec_loop_end: "pos c = length data \<Longrightarrow> exec_loop S data c = after_loop S (length data) c"
  by (simp add: exec_loop.simps)

lemma exec_loop_overflow:
  "pos c < length data \<Longrightarrow> header_overflow c \<Longrightarrow>
     exec_loop S data c = at_error (set_errno HPE_HEADER_OVERFLOW (count_byte c))"
  by (simp add: exec_loop.simps header_overflow_def Let_def)

lemma exec_loop_next:
  "pos c < length data \<Longrightarrow> \<not> header_overflow c \<Longrightarrow>
     run_byte reexecute_bound S (length data) (data ! pos c) (count_byte c) = (c2, Next) \<Longrightarrow>
     exec_loop S data c = exec_loop S data (c2\<lparr>pos := pos c2 + 1\<rparr>)"
  by (subst exec_loop.simps) (auto simp: header_overflow_def)

lemma exec_loop_stop:
  "pos c < length data \<Longrightarrow> \<not> header_overflow c \<Longrightarrow>
     run_byte reexecute_bound S (length data) (data ! pos c) (count_byte c) = (c2, k) \<Longrightarrow> k \<noteq> Next \<Longrightarrow>
     exec_loop S data c = finish (c2, k)"
  by (subst exec_loop.simps, cases k) (auto simp: header_overflow_def)

text \<open>Entering the loop: a mark for the item that the previous buffer left unfinished.\<close>

definition enter :: "http_parser \<Rightarrow> 'u \<Rightarrow> 'u exec_ctx" where
  "enter ps u =
     \<lparr> parser = ps,
       header_field_mark = (if hp_state ps = s_header_field then Some 0 else None),
       header_value_mark = (if hp_state ps = s_header_value then Some 0 else None),
       url_mark = (if hp_state ps \<in> url_states then Some 0 else None),
       body_mark = None,
       status_mark = (if hp_state ps = s_res_status then Some 0 else None),
       pos = 0, udata = u \<rparr>"

text \<open>A call with no data signals the end of the stream.\<close>

definition execute_eof :: "'u http_parser_settings \<Rightarrow> http_parser \<Rightarrow> 'u \<Rightarrow> 'u exec_result" where
  "execute_eof S ps u =
     (if hp_state ps = s_body_identity_eof
      then finish (and_then (notify_message_complete S 0 (enter ps u)) (\<lambda>c. (c, Return 0)))
      else if hp_state ps \<in> {s_dead, s_start_req_or_res, s_start_res, s_start_req}
      then (ps, u, Parsed 0)
      else (ps\<lparr>hp_errno := HPE_INVALID_EOF_STATE\<rparr>, u, Parsed 1))"

definition http_parser_execute ::
  "'u http_parser_settings \<Rightarrow> http_parser \<Rightarrow> 'u \<Rightarrow> string \<Rightarrow> 'u exec_result" where
  "http_parser_execute S ps u data =
     (if hp_errno ps \<noteq> HPE_OK then (ps, u, Parsed 0)
      else if data = [] then execute_eof S ps u
      else exec_loop S data (enter ps u))"

end
