(* ===== verification/Http_Inv.thy ===== *)
theory Http_Inv
  imports Http_Exec
begin

text \<open>
  The invariant of the HTTP parser. A parser is well formed (\<open>wf_parser\<close>) when the method index,
  the header automaton, the chunk and body counters and the numeric fields fit its state; a context
  inside a call is fine (\<open>ctx_ok\<close>) when in addition every mark belongs to the state that sets it and
  lies before \<open>p\<close>. The locale \<open>http_callbacks\<close> states what the parser relies on from the
  application's callbacks; inside it every handler is shown to keep the invariant, never to fail an
  assertion, never to read outside a string and never to hand out a span outside the buffer.
\<close>


section \<open>Contracts of the callbacks\<close>

definition only_pauses :: "http_parser \<Rightarrow> http_parser \<Rightarrow> bool" where
  "only_pauses q q' \<longleftrightarrow> (\<exists>e \<in> {HPE_OK, HPE_PAUSED}. q' = q\<lparr>hp_errno := e\<rparr>)"

definition cb_ok :: "('u \<Rightarrow> bool) \<Rightarrow> 'u http_cb option \<Rightarrow> bool" where
  "cb_ok Q f \<longleftrightarrow> (\<forall>cb u q rc u' q'. f = Some cb \<longrightarrow> Q u \<longrightarrow> hp_errno q = HPE_OK \<longrightarrow>
     cb u q = (rc, u', q') \<longrightarrow> only_pauses q q' \<and> Q u')"

definition data_cb_ok :: "nat \<Rightarrow> ('u \<Rightarrow> bool) \<Rightarrow> 'u http_data_cb option \<Rightarrow> bool" where
  "data_cb_ok len Q f \<longleftrightarrow> (\<forall>cb u q at n rc u' q'. f = Some cb \<longrightarrow> Q u \<longrightarrow> hp_errno q = HPE_OK \<longrightarrow>
     at + n \<le> len \<longrightarrow> cb u q at n = (rc, u', q') \<longrightarrow> only_pauses q q' \<and> Q u')"

lemma cb_okD:
  "cb_ok Q f \<Longrightarrow> f = Some cb \<Longrightarrow> Q u \<Longrightarrow> hp_errno q = HPE_OK \<Longrightarrow> cb u q = (rc, u', q') \<Longrightarrow>
     only_pauses q q' \<and> Q u'"
  unfolding cb_ok_def by blast

lemma data_cb_okD:
  "data_cb_ok len Q f \<Longrightarrow> f = Some cb \<Longrightarrow> Q u \<Longrightarrow> hp_errno q = HPE_OK \<Longrightarrow> at + n \<le> len \<Longrightarrow>
     cb u q at n = (rc, u', q') \<Longrightarrow> only_pauses q q' \<and> Q u'"
  unfolding data_cb_ok_def by blast

section \<open>Well-formed parsers\<close>

definition header_name_states :: "header_states set" where
  "header_name_states = {h_general, h_C, h_CO, h_CON, h_matching_connection,
     h_matching_proxy_connection, h_matching_content_length, h_matching_transfer_encoding,
     h_matching_upgrade, h_connection, h_content_length, h_transfer_encoding, h_upgrade}"

definition header_value_states :: "header_states set" where
  "header_value_states = {h_general, h_content_length, h_matching_transfer_encoding_chunked,
     h_matching_connection_keep_alive, h_matching_connection_close, h_transfer_encoding_chunked,
     h_connection_keep_alive, h_connection_close}"

definition chunk_states :: "state set" where
  "chunk_states = {s_chunk_size_start, s_chunk_size, s_chunk_parameters, s_chunk_size_almost_done,
     s_chunk_data, s_chunk_data_almost_done, s_chunk_data_done}"

definition method_wf :: "http_parser \<Rightarrow> bool" where
  "method_wf q \<longleftrightarrow> (hp_state q = s_req_method \<longrightarrow>
     unat (hp_index q) \<le> length (method_strings (hp_method q)))"

definition header_wf :: "http_parser \<Rightarrow> bool" where
  "header_wf q \<longleftrightarrow>
     (hp_state q = s_header_field \<longrightarrow> hp_header_state q \<in> header_name_states) \<and>
     (hp_state q = s_header_value \<longrightarrow> hp_header_state q \<in> header_value_states)"

definition body_wf :: "http_parser \<Rightarrow> bool" where
  "body_wf q \<longleftrightarrow>
     (hp_state q \<in> chunk_states \<longrightarrow> flag_set q F_CHUNKED) \<and>
     (hp_state q \<in> {s_body_identity, s_chunk_data} \<longrightarrow> hp_content_length q \<noteq> 0) \<and>
     (hp_state q \<in> {s_body_identity, s_chunk_data, s_chunk_size, s_chunk_parameters,
                    s_chunk_size_almost_done} \<longrightarrow> hp_content_length q \<noteq> ULLONG_MAX) \<and>
     (hp_state q = s_chunk_data_almost_done \<longrightarrow> hp_content_length q = 0)"

definition numbers_wf :: "http_parser \<Rightarrow> bool" where
  "numbers_wf q \<longleftrightarrow> hp_http_major q \<le> 999 \<and> hp_http_minor q \<le> 999 \<and> hp_status_code q \<le> 999
     \<and> hp_nread q \<le> HTTP_MAX_HEADER_SIZE"

definition wf_at :: "32 word \<Rightarrow> http_parser \<Rightarrow> bool" where
  "wf_at n q \<longleftrightarrow> method_wf q \<and> header_wf q \<and> body_wf q \<and> numbers_wf q
     \<and> (hp_state q = s_chunk_size_start \<longrightarrow> hp_nread q = n)"

abbreviation wf_parser :: "http_parser \<Rightarrow> bool" where
  "wf_parser \<equiv> wf_at 0"

lemmas wf_defs = wf_at_def method_wf_def header_wf_def body_wf_def numbers_wf_def flag_set_def

lemma wf_at_errno [simp]: "wf_at n (q\<lparr>hp_errno := e\<rparr>) = wf_at n q"
  by (simp add: wf_defs)

lemma wf_parser_init: "wf_parser (http_parser_init t)"
  by (simp add: wf_defs http_parser_init_def HTTP_MAX_HEADER_SIZE_def chunk_states_def)

section \<open>Marks\<close>

definition mark_at :: "nat \<Rightarrow> bool \<Rightarrow> nat option \<Rightarrow> bool" where
  "mark_at p b m = (case m of None \<Rightarrow> True | Some i \<Rightarrow> b \<and> i \<le> p)"

lemma mark_at_simps [simp]:
  "mark_at p b None" "mark_at p False m \<longleftrightarrow> m = None" "mark_at p b (Some i) \<longleftrightarrow> b \<and> i \<le> p"
  by (auto simp: mark_at_def split: option.splits)

lemma mark_at_MARK [simp]: "mark_at p b (MARK m p) \<longleftrightarrow> b \<and> mark_at p b m"
  by (auto simp: mark_at_def MARK_def split: option.splits)

lemma mark_at_mono: "mark_at p b m \<Longrightarrow> p \<le> p' \<Longrightarrow> mark_at p' b m"
  by (auto simp: mark_at_def split: option.splits)

definition body_mark_states :: "state set" where
  "body_mark_states = {s_body_identity, s_body_identity_eof, s_chunk_data, s_chunk_data_almost_done}"

definition marks_ok :: "'u exec_ctx \<Rightarrow> bool" where
  "marks_ok c \<longleftrightarrow>
     mark_at (pos c) (hp_state (parser c) = s_header_field) (header_field_mark c) \<and>
     mark_at (pos c) (hp_state (parser c) = s_header_value) (header_value_mark c) \<and>
     mark_at (pos c) (hp_state (parser c) \<in> url_states) (url_mark c) \<and>
     mark_at (pos c) (hp_state (parser c) \<in> body_mark_states) (body_mark c) \<and>
     mark_at (pos c) (hp_state (parser c) = s_res_status) (status_mark c)"

section \<open>One dispatch\<close>

definition reexec_rank :: "state \<Rightarrow> nat" where
  "reexec_rank s = (case s of
     s_start_req_or_res \<Rightarrow> 1 | s_header_value \<Rightarrow> 1 | s_body_identity \<Rightarrow> 1
   | s_header_value_lws \<Rightarrow> 3 | s_header_field_start \<Rightarrow> 2 | s_headers_almost_done \<Rightarrow> 1 | _ \<Rightarrow> 0)"

definition ctx_ok :: "32 word \<Rightarrow> ('u \<Rightarrow> bool) \<Rightarrow> 'u exec_ctx \<Rightarrow> bool" where
  "ctx_ok n Q c \<longleftrightarrow> hp_errno (parser c) = HPE_OK \<and> wf_at n (parser c) \<and> marks_ok c \<and> Q (udata c)"

text \<open>The states that neither carry a mark nor restrict the parser's fields.\<close>

definition quiet :: "state \<Rightarrow> bool" where
  "quiet s \<longleftrightarrow> s \<notin> url_states \<union> body_mark_states \<union> chunk_states
     \<union> {s_req_method, s_header_field, s_header_value, s_res_status}"

lemma ctx_ok_set_state:
  "ctx_ok n Q c \<Longrightarrow> quiet (hp_state (parser c)) \<Longrightarrow> quiet s \<Longrightarrow> ctx_ok m Q (set_state s c)"
  by (auto simp: ctx_ok_def quiet_def wf_defs marks_ok_def set_state_def body_mark_states_def
        chunk_states_def)

lemma url_state_facts:
  "s \<in> url_states \<Longrightarrow> s \<notin> body_mark_states \<and> s \<notin> chunk_states \<and> s \<noteq> s_req_method \<and> s \<noteq> s_header_field
     \<and> s \<noteq> s_header_value \<and> s \<noteq> s_res_status \<and> s \<noteq> s_dead"
  by (auto simp: url_states_def body_mark_states_def chunk_states_def)

text \<open>The states that restrict the parser's fields.\<close>

definition restricted_states :: "state set" where
  "restricted_states = chunk_states \<union> {s_req_method, s_header_field, s_header_value, s_body_identity}"

lemma wf_at_set_state:
  "wf_at n q \<Longrightarrow> s \<notin> restricted_states \<Longrightarrow> wf_at m (q\<lparr>hp_state := s\<rparr>)"
  by (auto simp: wf_defs restricted_states_def chunk_states_def)

text \<open>Entering a URL state from a state without other marks.\<close>

lemma ctx_ok_url_state:
  assumes "ctx_ok n Q (c\<lparr>url_mark := None\<rparr>)" "mark_at (pos c) True (url_mark c)"
    "quiet (hp_state (parser c)) \<or> hp_state (parser c) \<in> url_states" "s \<in> url_states"
  shows "ctx_ok m Q (set_state s c)"
proof -
  have "s \<notin> restricted_states"
    using assms(4) by (auto simp: restricted_states_def url_states_def chunk_states_def)
  moreover have "header_field_mark c = None \<and> header_value_mark c = None \<and> body_mark c = None
      \<and> status_mark c = None"
    using assms(1,3) url_state_facts[of "hp_state (parser c)"]
    by (auto simp: ctx_ok_def marks_ok_def quiet_def)
  moreover have "hp_errno (parser c) = HPE_OK" "wf_at n (parser c)" "Q (udata c)"
    using assms(1) by (simp_all add: ctx_ok_def)
  ultimately show ?thesis
    using assms(2,4) wf_at_set_state[of n "parser c" s m]
    by (simp add: ctx_ok_def marks_ok_def set_state_def)
qed

definition step_ok :: "nat \<Rightarrow> ('u \<Rightarrow> bool) \<Rightarrow> nat \<Rightarrow> 'u step_result \<Rightarrow> bool" where
  "step_ok len Q r res = (case res of (c, k) \<Rightarrow> Q (udata c) \<and> (case k of
     Next \<Rightarrow> ctx_ok 0 Q c
   | Reexecute \<Rightarrow> ctx_ok 1 Q c \<and> reexec_rank (hp_state (parser c)) < r
   | Goto_error \<Rightarrow> hp_errno (parser c) \<notin> {HPE_OK, HPE_PAUSED}
   | Return n \<Rightarrow> n \<le> len \<and>
       (hp_errno (parser c) \<in> {HPE_OK, HPE_PAUSED} \<longrightarrow> wf_parser (parser c))
   | Abort \<Rightarrow> False | Bad_read \<Rightarrow> False))"

lemma step_ok_fail [simp]:
  "step_ok len Q r (fail e c) \<longleftrightarrow> Q (udata c) \<and> e \<notin> {HPE_OK, HPE_PAUSED}"
  by (auto simp: step_ok_def fail_def set_errno_def)

lemma step_ok_ctl [simp]:
  "step_ok len Q r (c, Next) \<longleftrightarrow> ctx_ok 0 Q c"
  "step_ok len Q r (c, Reexecute) \<longleftrightarrow> ctx_ok 1 Q c \<and> reexec_rank (hp_state (parser c)) < r"
  "step_ok len Q r (c, Return n) \<longleftrightarrow> Q (udata c) \<and> n \<le> len \<and>
       (hp_errno (parser c) \<in> {HPE_OK, HPE_PAUSED} \<longrightarrow> wf_parser (parser c))"
  "\<not> step_ok len Q r (c, Abort)" "\<not> step_ok len Q r (c, Bad_read)"
  by (auto simp: step_ok_def ctx_ok_def)

lemma step_ok_STRICT_CHECK [simp]:
  "step_ok len Q r (STRICT_CHECK b c res) \<longleftrightarrow> (if b then Q (udata c) else step_ok len Q r res)"
  by (simp add: STRICT_CHECK_def)

lemma step_ok_ASSERT [simp]: "step_ok len Q r (ASSERT b c res) \<longleftrightarrow> b \<and> step_ok len Q r res"
  by (simp add: ASSERT_def step_ok_def)

lemma step_ok_notify:
  assumes "cb_ok Q f" "ctx_ok 0 Q c" "ret \<le> len" "er \<notin> {HPE_OK, HPE_PAUSED}"
  shows "step_ok len Q r (CALLBACK_NOTIFY f er ret c)"
proof (cases f)
  case None
  with assms show ?thesis by (simp add: CALLBACK_NOTIFY_def step_ok_def ctx_ok_def)
next
  case (Some cb)
  obtain rc u q where cb: "cb (udata c) (parser c) = (rc, u, q)" by (cases "cb (udata c) (parser c)")
  with assms(2) have "only_pauses (parser c) q \<and> Q u"
    using cb_okD[OF assms(1) Some _ _ cb] by (simp add: ctx_ok_def)
  with assms Some cb show ?thesis
    by (auto simp: CALLBACK_NOTIFY_def step_ok_def ctx_ok_def only_pauses_def Let_def marks_ok_def)
qed

lemma step_ok_data:
  assumes "data_cb_ok len Q f" "ctx_ok 0 Q (cl c)"
    and cl: "\<And>q u. cl (c\<lparr>parser := q, udata := u\<rparr>) = (cl c)\<lparr>parser := q, udata := u\<rparr>"
      "parser (cl c) = parser c" "udata (cl c) = udata c" "mark c = None \<Longrightarrow> cl c = c"
    and "mark_at (pos c) True (mark c)" "pos c + ex \<le> len"
    and "ret \<le> len" "er \<notin> {HPE_OK, HPE_PAUSED}"
  shows "step_ok len Q r (CALLBACK_DATA f er mark cl ex ret c)"
proof (cases "mark c")
  case None
  with assms show ?thesis by (simp add: CALLBACK_DATA_def step_ok_def ctx_ok_def)
next
  case m: (Some m)
  show ?thesis
  proof (cases f)
    case None
    with m assms show ?thesis by (simp add: CALLBACK_DATA_def step_ok_def ctx_ok_def)
  next
    case (Some cb)
    obtain rc u q where cb: "cb (udata c) (parser c) m (pos c - m + ex) = (rc, u, q)"
      by (cases "cb (udata c) (parser c) m (pos c - m + ex)")
    have "m + (pos c - m + ex) \<le> len" using assms m by simp
    then have "only_pauses (parser c) q \<and> Q u"
      using data_cb_okD[OF assms(1) Some _ _ _ cb] assms(2) cl by (simp add: ctx_ok_def)
    with assms Some cb m show ?thesis
      by (auto simp: CALLBACK_DATA_def step_ok_def ctx_ok_def only_pauses_def Let_def marks_ok_def)
  qed
qed


lemma data_next_parser:
  assumes "data_cb_ok len Q f" "hp_errno (parser c) = HPE_OK" "Q (udata c)"
    and cl: "\<And>c. parser (cl c) = parser c"
    and "mark_at (pos c) True (mark c)" "pos c + ex \<le> len"
    and nxt: "CALLBACK_DATA f er mark cl ex ret c = (c', Next)" and er: "er \<noteq> HPE_OK"
  shows "parser c' = parser c"
proof (cases "mark c = None \<or> f = None")
  case True
  with nxt cl assms(2) show ?thesis
    by (auto simp: CALLBACK_DATA_def split: option.splits)
next
  case False
  then obtain m cb where m: "mark c = Some m" and f: "f = Some cb" by auto
  obtain rc u q where cb: "cb (udata c) (parser c) m (pos c - m + ex) = (rc, u, q)"
    by (cases "cb (udata c) (parser c) m (pos c - m + ex)")
  have "m + (pos c - m + ex) \<le> len" using assms m by simp
  then have "only_pauses (parser c) q"
    using data_cb_okD[OF assms(1) f assms(3,2) _ cb] by blast
  with nxt m f cb er assms(2) cl show ?thesis
    by (auto simp: CALLBACK_DATA_def only_pauses_def Let_def split: if_splits)
qed

lemma step_ok_reexecute:
  assumes "step_ok len Q r res"
    and "\<And>c. res = (c, Next) \<Longrightarrow>
          reexec_rank (hp_state (parser c)) < r \<and> hp_state (parser c) \<noteq> s_chunk_size_start"
  shows "step_ok len Q r (and_then res (\<lambda>c. (c, Reexecute)))"
  using assms by (cases "(res, \<lambda>c :: 'a exec_ctx. (c, Reexecute))" rule: and_then.cases)
    (auto simp: ctx_ok_def wf_at_def)

section \<open>Arithmetic of the numeric fields\<close>

lemma digit_val_le: "IS_NUM ch \<Longrightarrow> digit_val ch \<le> 9"
  by (auto simp: IS_NUM_def digit_val_def byte_val_def less_eq_char_def)

lemma digit_word_le: "IS_NUM ch \<Longrightarrow> (of_nat (digit_val ch) :: 16 word) \<le> 999"
  using digit_val_le[of ch] by (simp add: word_le_nat_alt unat_of_nat)

lemma digit_word_of_range:
  "\<not> ch < CHR ''0'' \<Longrightarrow> \<not> ch > CHR ''9'' \<Longrightarrow> (of_nat (digit_val ch) :: 16 word) \<le> 999"
  "\<not> ch < CHR ''1'' \<Longrightarrow> \<not> ch > CHR ''9'' \<Longrightarrow> (of_nat (digit_val ch) :: 16 word) \<le> 999"
  by (rule digit_word_le, simp add: IS_NUM_def not_less)
     (rule digit_word_le, auto simp add: IS_NUM_def not_less less_eq_char_def)

lemma initial_method_length:
  "initial_method ch = Some m \<Longrightarrow> Suc 0 \<le> length (method_strings m)"
  by (auto simp: initial_method_def split: if_splits)

lemma switch_method_length:
  "switch_method m i ch = Some m' \<Longrightarrow> unat (i + 1) \<le> length (method_strings m')"
  by (auto simp: switch_method_def split: if_splits)

lemma method_strings_short: "length (method_strings m) \<le> 11"
  by (cases m) simp_all

lemma method_step_length:
  "c_str_at (method_strings m) (unat i) = Some e \<Longrightarrow> e \<noteq> NUL \<Longrightarrow>
     unat (i + 1) \<le> length (method_strings m)" for i :: "8 word"
proof -
  assume "c_str_at (method_strings m) (unat i) = Some e" "e \<noteq> NUL"
  then have "unat i < length (method_strings m)" by (auto dest: c_str_at_nonnul)
  then show ?thesis
    using method_strings_short[of m] by (simp add: unat_word_ariths)
qed

lemma header_name_step_closed:
  "h \<in> header_name_states \<Longrightarrow>
     \<exists>h' i'. header_name_step h i t ch = Some (h', i') \<and> h' \<in> header_name_states"
  by (cases h) (simp_all add: header_name_step_def header_name_states_def match_word_def)

lemma uint_ULLONG_MAX: "uint ULLONG_MAX = 2 ^ 64 - 1"
  by (simp add: ULLONG_MAX_def unsigned_minus_1_eq_mask mask_eq_exp_minus_1)

lemma unhex_all: "list_all (\<lambda>t. -1 \<le> t \<and> t \<le> 15) unhex"
  by code_simp

lemma length_unhex: "length unhex = 256"
  by (simp add: unhex_def)

lemma unhex_range: "-1 \<le> unhex_at c \<and> unhex_at c \<le> 15"
  using unhex_all byte_val_less[of c] by (simp add: unhex_at_def list_all_length length_unhex)

lemma uint_unhex:
  "unhex_at c \<noteq> -1 \<Longrightarrow> uint (of_int (unhex_at c) :: 64 word) = unhex_at c"
  using unhex_range[of c] by (simp add: uint_word_of_int)

lemma chunk_size_no_overflow:
  assumes "\<not> (ULLONG_MAX - 16) div 16 < n" "unhex_at c \<noteq> -1"
  shows "uint (n * 16 + of_int (unhex_at c)) = uint n * 16 + unhex_at c"
    and "n * 16 + of_int (unhex_at c) \<noteq> ULLONG_MAX"
proof -
  have "uint n \<le> (2 ^ 64 - 1 - 16) div 16"
    using assms(1) by (simp add: ULLONG_MAX_def word_le_def not_less uint_div uint_word_arith_bintrs)
  then show eq: "uint (n * 16 + of_int (unhex_at c)) = uint n * 16 + unhex_at c"
    using unhex_range[of c] uint_unhex[OF assms(2)] assms(2)
    by (simp add: uint_word_ariths)
  show "n * 16 + of_int (unhex_at c) \<noteq> ULLONG_MAX"
  proof
    assume "n * 16 + of_int (unhex_at c) = ULLONG_MAX"
    then have "uint n * 16 + unhex_at c = 2 ^ 64 - 1" using eq by (simp add: uint_ULLONG_MAX)
    with \<open>uint n \<le> _\<close> unhex_range[of c] show False by simp
  qed
qed

lemma first_chunk_digit:
  "unhex_at c \<noteq> -1 \<Longrightarrow> (of_int (unhex_at c) :: 64 word) \<noteq> ULLONG_MAX"
  using uint_unhex[of c] unhex_range[of c] by (auto simp: uint_ULLONG_MAX)

lemma to_read_le: "to_read len c \<le> unat (hp_content_length (parser c))"
  by (simp add: to_read_def)

lemma unat_minus_of_nat: "n \<le> unat x \<Longrightarrow> unat (x - of_nat n) = unat x - n"
  for x :: "'a::len word"
proof -
  assume n: "n \<le> unat x"
  then have "unat (of_nat n :: 'a word) = n"
    by (simp add: unat_of_nat) (metis le_less_trans mod_less unsigned_less)
  with n show ?thesis by (simp add: unat_sub_if')
qed

lemma content_length_take_body:
  "unat (hp_content_length (parser (take_body len c))) =
     unat (hp_content_length (parser c)) - to_read len c"
  by (simp add: take_body_def Let_def unat_minus_of_nat to_read_le)

lemma take_body_not_max:
  assumes "hp_content_length (parser c) \<noteq> ULLONG_MAX"
  shows "hp_content_length (parser (take_body len c)) \<noteq> ULLONG_MAX"
proof
  assume "hp_content_length (parser (take_body len c)) = ULLONG_MAX"
  then have "unat ULLONG_MAX \<le> unat (hp_content_length (parser c))"
    using content_length_take_body[of len c] by simp
  then have "ULLONG_MAX \<le> hp_content_length (parser c)" by (simp add: word_le_nat_alt)
  then show False using assms by (simp add: ULLONG_MAX_def word_order.extremum_unique)
qed

lemma take_body_fields:
  "hp_state (parser (take_body len c)) = hp_state (parser c)"
  "hp_errno (parser (take_body len c)) = hp_errno (parser c)"
  "udata (take_body len c) = udata c"
  by (simp_all add: take_body_def Let_def)

section \<open>One call, as a whole\<close>

definition exec_ok :: "nat \<Rightarrow> ('u \<Rightarrow> bool) \<Rightarrow> 'u exec_result \<Rightarrow> bool" where
  "exec_ok len Q res = (case res of (q, u, e) \<Rightarrow> Q u \<and> (case e of
     Parsed n \<Rightarrow> n \<le> len \<and> (hp_errno q \<in> {HPE_OK, HPE_PAUSED} \<longrightarrow> wf_parser q)
   | _ \<Rightarrow> False))"

lemma exec_ok_iff:
  "exec_ok len Q (q, u, e) \<longleftrightarrow> (\<exists>n. e = Parsed n \<and> n \<le> len) \<and> Q u
     \<and> (hp_errno q \<in> {HPE_OK, HPE_PAUSED} \<longrightarrow> wf_parser q)"
  by (cases e) (auto simp: exec_ok_def)

lemma finish_ok:
  assumes "step_ok len Q 0 r" "snd r \<noteq> Next" "pos (fst r) \<le> len"
  shows "exec_ok len Q (finish r)"
  using assms by (cases r; cases "snd r")
    (auto simp: exec_ok_def finish_def step_ok_def at_error_def)

lemma step_ok_and_then:
  assumes "step_ok len Q r res"
    "\<And>c. ctx_ok 0 Q c \<Longrightarrow> pos c = pos (fst res) \<Longrightarrow> step_ok len Q r (f c)"
  shows "step_ok len Q r (and_then res f)"
  using assms by (cases "(res, f)" rule: and_then.cases) auto

lemma and_then_not_Next: "(\<And>c. snd (f c) \<noteq> Next) \<Longrightarrow> snd (and_then r f) \<noteq> Next"
  by (cases "(r, f)" rule: and_then.cases) auto

lemma mark_at_weaken: "mark_at p b m \<Longrightarrow> mark_at p True m"
  by (auto simp: mark_at_def split: option.splits)

lemma one_mark:
  assumes "ctx_ok n Q c"
  shows "length (filter (\<lambda>m. m \<noteq> None) (marks c)) \<le> 1"
  using assms url_state_facts[of "hp_state (parser c)"]
  by (auto simp: marks_def ctx_ok_def marks_ok_def mark_at_def body_mark_states_def split: option.splits)

lemma ctx_ok_advance: "ctx_ok n Q c \<Longrightarrow> ctx_ok n Q (c\<lparr>pos := pos c + 1\<rparr>)"
  using mark_at_mono[of "pos c" _ _ "pos c + 1"] by (simp add: ctx_ok_def marks_ok_def)

lemma reexec_rank_bound: "reexec_rank s < reexecute_bound"
  by (cases s) (simp_all add: reexec_rank_def reexecute_bound_def)

lemma enter_ok:
  "wf_parser ps \<Longrightarrow> hp_errno ps = HPE_OK \<Longrightarrow> Q u \<Longrightarrow> ctx_ok 0 Q (enter ps u)"
  by (auto simp: ctx_ok_def enter_def marks_ok_def)

section \<open>The invariant through every handler\<close>

locale http_callbacks =
  fixes S :: "'u http_parser_settings"
    and Q :: "nat \<Rightarrow> 'u \<Rightarrow> bool"
  assumes message_begin_ok: "cb_ok (Q len) (on_message_begin S)"
    and url_ok: "data_cb_ok len (Q len) (on_url S)"
    and status_ok: "data_cb_ok len (Q len) (on_status S)"
    and header_field_ok: "data_cb_ok len (Q len) (on_header_field S)"
    and header_value_ok: "data_cb_ok len (Q len) (on_header_value S)"
    and headers_complete_ok: "cb_ok (Q len) (on_headers_complete S)"
    and body_ok: "data_cb_ok len (Q len) (on_body S)"
    and message_complete_ok: "cb_ok (Q len) (on_message_complete S)"
begin

lemma step_message_begin:
  "ctx_ok 0 (Q len) c \<Longrightarrow> ret \<le> len \<Longrightarrow> step_ok len (Q len) r (notify_message_begin S ret c)"
  unfolding notify_message_begin_def by (rule step_ok_notify[OF message_begin_ok]) auto

lemma step_message_complete:
  "ctx_ok 0 (Q len) c \<Longrightarrow> ret \<le> len \<Longrightarrow> step_ok len (Q len) r (notify_message_complete S ret c)"
  unfolding notify_message_complete_def by (rule step_ok_notify[OF message_complete_ok]) auto

lemma step_header_field:
  "ctx_ok 0 (Q len) (c\<lparr>header_field_mark := None\<rparr>) \<Longrightarrow> mark_at (pos c) True (header_field_mark c) \<Longrightarrow>
     pos c \<le> len \<Longrightarrow> ret \<le> len \<Longrightarrow> step_ok len (Q len) r (data_header_field S ret c)"
  unfolding data_header_field_def by (rule step_ok_data[OF header_field_ok]) auto

lemma step_header_value:
  "ctx_ok 0 (Q len) (c\<lparr>header_value_mark := None\<rparr>) \<Longrightarrow> mark_at (pos c) True (header_value_mark c) \<Longrightarrow>
     pos c \<le> len \<Longrightarrow> ret \<le> len \<Longrightarrow> step_ok len (Q len) r (data_header_value S ret c)"
  unfolding data_header_value_def by (rule step_ok_data[OF header_value_ok]) auto

lemma step_url:
  "ctx_ok 0 (Q len) (c\<lparr>url_mark := None\<rparr>) \<Longrightarrow> mark_at (pos c) True (url_mark c) \<Longrightarrow>
     pos c \<le> len \<Longrightarrow> ret \<le> len \<Longrightarrow> step_ok len (Q len) r (data_url S ret c)"
  unfolding data_url_def by (rule step_ok_data[OF url_ok]) auto

lemma step_status:
  "ctx_ok 0 (Q len) (c\<lparr>status_mark := None\<rparr>) \<Longrightarrow> mark_at (pos c) True (status_mark c) \<Longrightarrow>
     pos c \<le> len \<Longrightarrow> ret \<le> len \<Longrightarrow> step_ok len (Q len) r (data_status S ret c)"
  unfolding data_status_def by (rule step_ok_data[OF status_ok]) auto

lemma step_body:
  "ctx_ok 0 (Q len) (c\<lparr>body_mark := None\<rparr>) \<Longrightarrow> mark_at (pos c) True (body_mark c) \<Longrightarrow>
     pos c + ex \<le> len \<Longrightarrow> ret \<le> len \<Longrightarrow> step_ok len (Q len) r (data_body S ex ret c)"
  unfolding data_body_def by (rule step_ok_data[OF body_ok]) auto

lemmas step_callbacks = step_message_begin step_message_complete step_header_field
  step_header_value step_url step_status step_body

lemmas ctx_defs = ctx_ok_def wf_defs marks_ok_def set_state_def set_header_state_def
  set_index_def add_flag_def chunk_states_def header_name_states_def header_value_states_def
  url_states_def body_mark_states_def reexec_rank_def

lemma start_ok:
  assumes "ctx_ok 1 (Q len) c" "pos c < len"
  shows "hp_state (parser c) = s_dead \<Longrightarrow> step_ok len (Q len) r (do_dead ch c)"
    and "hp_state (parser c) = s_start_req_or_res \<Longrightarrow> step_ok len (Q len) 1 (do_start_req_or_res S ch c)"
    and "hp_state (parser c) = s_res_or_resp_H \<Longrightarrow> step_ok len (Q len) r (do_res_or_resp_H ch c)"
    and "hp_state (parser c) = s_start_res \<Longrightarrow> step_ok len (Q len) r (do_start_res S ch c)"
  using assms
  by (auto simp: ctx_defs handler_defs Let_def intro!: step_message_begin)

lemma literal_ok:
  assumes "ctx_ok 1 (Q len) c" "quiet (hp_state (parser c))" "quiet s"
  shows "step_ok len (Q len) r (do_literal e s ch c)"
  using assms ctx_ok_set_state[OF assms] by (simp add: do_literal_def ctx_ok_def)

lemma version_ok:
  assumes "ctx_ok 1 (Q len) c"
  shows "hp_state (parser c) = s_res_first_http_major \<Longrightarrow> step_ok len (Q len) r (do_res_first_http_major ch c)"
    and "hp_state (parser c) = s_req_first_http_major \<Longrightarrow> step_ok len (Q len) r (do_req_first_http_major ch c)"
    and "hp_state (parser c) = s_res_http_major \<Longrightarrow> step_ok len (Q len) r (do_major s_res_first_http_minor ch c)"
    and "hp_state (parser c) = s_req_http_major \<Longrightarrow> step_ok len (Q len) r (do_major s_req_first_http_minor ch c)"
    and "hp_state (parser c) = s_res_first_http_minor \<Longrightarrow> step_ok len (Q len) r (do_first_minor s_res_http_minor ch c)"
    and "hp_state (parser c) = s_req_first_http_minor \<Longrightarrow> step_ok len (Q len) r (do_first_minor s_req_http_minor ch c)"
    and "hp_state (parser c) = s_res_http_minor \<Longrightarrow> step_ok len (Q len) r (do_res_http_minor ch c)"
    and "hp_state (parser c) = s_req_http_minor \<Longrightarrow> step_ok len (Q len) r (do_req_http_minor ch c)"
  using assms digit_word_le[of ch] digit_word_of_range[of ch]
  by (auto simp: ctx_defs handler_defs Let_def not_less)

lemma status_code_ok:
  assumes "ctx_ok 1 (Q len) c" "pos c < len"
  shows "hp_state (parser c) = s_res_first_status_code \<Longrightarrow> step_ok len (Q len) r (do_res_first_status_code ch c)"
    and "hp_state (parser c) = s_res_status_code \<Longrightarrow> step_ok len (Q len) r (do_res_status_code ch c)"
    and "hp_state (parser c) = s_res_status_start \<Longrightarrow> step_ok len (Q len) r (do_res_status_start ch c)"
    and "hp_state (parser c) = s_res_status \<Longrightarrow> step_ok len (Q len) r (do_res_status S ch c)"
  using assms digit_word_le[of ch]
  by (auto simp: ctx_defs handler_defs Let_def not_less intro!: step_status)

lemma request_line_ok:
  assumes "ctx_ok 1 (Q len) c" "pos c < len"
  shows "hp_state (parser c) = s_req_http_start \<Longrightarrow> step_ok len (Q len) r (do_req_http_start ch c)"
    and "hp_state (parser c) = s_req_line_almost_done \<Longrightarrow> step_ok len (Q len) r (do_req_line_almost_done ch c)"
  using assms by (auto simp: ctx_defs handler_defs)

lemma start_req_ok:
  assumes "ctx_ok 1 (Q len) c" "pos c < len" "hp_state (parser c) = s_start_req"
  shows "step_ok len (Q len) r (do_start_req S ch c)"
  using assms
  by (auto simp: ctx_defs handler_defs Let_def intro!: step_message_begin split: option.split dest!: initial_method_length)

lemma req_method_ok:
  assumes "ctx_ok 1 (Q len) c" "hp_state (parser c) = s_req_method"
  shows "step_ok len (Q len) r (do_req_method ch c)"
  using assms
  by (auto simp: ctx_defs handler_defs Let_def split: option.split dest: method_step_length switch_method_length)



lemma url_step_ok:
  assumes "ctx_ok n (Q len) (c\<lparr>url_mark := None\<rparr>)" "mark_at (pos c) True (url_mark c)"
    "quiet (hp_state (parser c)) \<or> hp_state (parser c) \<in> url_states"
  shows "step_ok len (Q len) r (url_step ch c)"
proof -
  let ?s = "parse_url_char (hp_state (parser c)) ch"
  have "ctx_ok 0 (Q len) (set_state ?s c)" if "?s \<noteq> s_dead"
    using ctx_ok_url_state[OF assms] parse_url_char_range[of "hp_state (parser c)" ch] that by auto
  with assms show ?thesis by (simp add: url_step_def Let_def ctx_ok_def set_state_def)
qed

lemma spaces_before_url_ok:
  assumes "ctx_ok 1 (Q len) c" "hp_state (parser c) = s_req_spaces_before_url"
  shows "step_ok len (Q len) r (do_req_spaces_before_url ch c)"
  using assms
  by (auto simp: do_req_spaces_before_url_def Let_def quiet_def ctx_defs intro!: url_step_ok[where n = 0])

lemma url_ok_ctx:
  "ctx_ok n Q' c \<Longrightarrow> ctx_ok n Q' (c\<lparr>url_mark := None\<rparr>)"
  by (simp add: ctx_ok_def marks_ok_def)

lemma schema_ok:
  assumes "ctx_ok 1 (Q len) c" "hp_state (parser c) \<in> url_states"
  shows "step_ok len (Q len) r (do_req_schema ch c)"
proof -
  have "mark_at (pos c) True (url_mark c)" "Q len (udata c)"
    using assms by (auto simp: ctx_ok_def marks_ok_def)
  with url_step_ok[OF url_ok_ctx[OF assms(1)]] assms(2) show ?thesis
    by (simp add: do_req_schema_def)
qed

lemma leave_url:
  assumes "ctx_ok 1 (Q len) c" "hp_state (parser c) \<in> url_states" "quiet s" "pos c < len"
    "q = (parser c)\<lparr>hp_http_major := ma, hp_http_minor := mi, hp_state := s\<rparr>" "ma \<le> 999" "mi \<le> 999"
  shows "step_ok len (Q len) r (data_url S (pos c + 1) (c\<lparr>parser := q\<rparr>))"
proof (rule step_url)
  show "ctx_ok 0 (Q len) (c\<lparr>parser := q\<rparr>\<lparr>url_mark := None\<rparr>)"
    using assms url_state_facts[OF assms(2)]
    by (auto simp: ctx_ok_def quiet_def wf_defs marks_ok_def body_mark_states_def chunk_states_def)
  show "mark_at (pos (c\<lparr>parser := q\<rparr>)) True (url_mark (c\<lparr>parser := q\<rparr>))"
    using assms by (simp add: ctx_ok_def marks_ok_def)
qed (use assms in simp_all)

lemma req_url_ok:
  assumes "ctx_ok 1 (Q len) c" "hp_state (parser c) \<in> url_states" "pos c < len"
  shows "step_ok len (Q len) r (do_req_url S ch c)"
proof -
  have m: "mark_at (pos c) True (url_mark c)" "hp_http_major (parser c) \<le> 999"
      "hp_http_minor (parser c) \<le> 999"
    using assms by (auto simp: ctx_ok_def marks_ok_def wf_defs)
  have q: "quiet s_req_http_start" "quiet s_req_line_almost_done" "quiet s_header_field_start"
    by (simp_all add: quiet_def url_states_def body_mark_states_def chunk_states_def)
  show ?thesis
    using leave_url[OF assms(1,2) q(1) assms(3) refl m(2,3)]
      leave_url[OF assms(1,2) q(2) assms(3) refl, of 0 9]
      leave_url[OF assms(1,2) q(3) assms(3) refl, of 0 9]
      url_step_ok[OF url_ok_ctx[OF assms(1)] m(1)] assms(2)
    by (auto simp: do_req_url_def set_state_def)
qed

lemma header_field_start_ok:
  assumes "ctx_ok 1 (Q len) c" "hp_state (parser c) = s_header_field_start"
  shows "step_ok len (Q len) 2 (do_header_field_start ch c)"
  using assms by (auto simp: ctx_defs handler_defs Let_def)

lemma name_state:
  assumes "ctx_ok 1 (Q len) c" "hp_state (parser c) = s_header_field" "h \<in> header_name_states"
  shows "ctx_ok 0 (Q len) (set_header_state h (set_index i c))"
  using assms by (auto simp: ctx_ok_def wf_defs marks_ok_def set_header_state_def set_index_def
      chunk_states_def)

lemma leave_header_field:
  assumes "ctx_ok 1 (Q len) c" "hp_state (parser c) = s_header_field" "pos c < len" "quiet s"
  shows "step_ok len (Q len) r (data_header_field S (pos c + 1) (set_state s c))"
  using assms
  by (intro step_header_field)
     (auto simp: ctx_ok_def wf_defs marks_ok_def set_state_def quiet_def chunk_states_def
        body_mark_states_def url_states_def)

lemma header_field_state_ok:
  assumes "ctx_ok 1 (Q len) c" "hp_state (parser c) = s_header_field" "pos c < len"
  shows "step_ok len (Q len) r (do_header_field S ch c)"
proof (cases "TOKEN ch = NUL")
  case True
  have "quiet s_header_value_start" "quiet s_header_almost_done" "quiet s_header_field_start"
    by (simp_all add: quiet_def url_states_def body_mark_states_def chunk_states_def)
  with True assms(1) show ?thesis
    by (simp add: do_header_field_def leave_header_field[OF assms, simplified] ctx_ok_def)
next
  case False
  have "hp_header_state (parser c) \<in> header_name_states"
    using assms by (simp add: ctx_ok_def wf_defs)
  then obtain h i where n: "header_name_step (hp_header_state (parser c)) (hp_index (parser c)) (TOKEN ch) ch
      = Some (h, i)" "h \<in> header_name_states"
    using header_name_step_closed by blast
  with False have "do_header_field S ch c = (set_header_state h (set_index i c), Next)"
    by (simp add: do_header_field_def)
  with name_state[OF assms(1,2) n(2)] show ?thesis by simp
qed

text \<open>The first byte of a header value: the value is marked and its automaton started.\<close>

lemma start_value:
  assumes "ctx_ok 1 (Q len) c" "hp_state (parser c) = s_header_value_start" "h \<in> header_value_states"
    "c1 = set_index 0 (set_state s_header_value (c\<lparr>header_value_mark := MARK (header_value_mark c) (pos c)\<rparr>))"
  shows "ctx_ok 0 (Q len) (set_header_state h c1)"
    and "ctx_ok 0 (Q len) (set_header_state h (add_flag f c1))"
    and "hp_header_state (parser c) = h \<Longrightarrow>
          ctx_ok 0 (Q len) (upd_parser (\<lambda>q. q\<lparr>hp_content_length := n\<rparr>) c1)"
  using assms(1-3) unfolding assms(4)
  by (simp_all add: ctx_ok_def wf_defs marks_ok_def set_state_def set_header_state_def set_index_def
      add_flag_def chunk_states_def url_states_def body_mark_states_def)

lemma empty_value:
  assumes "ctx_ok 1 (Q len) c" "hp_state (parser c) = s_header_value_start" "pos c < len" "quiet s"
    "c1 = set_index 0 (set_state s_header_value (c\<lparr>header_value_mark := MARK (header_value_mark c) (pos c)\<rparr>))"
  shows "step_ok len (Q len) r (data_header_value S (pos c + 1) (set_state s c1))"
    and "step_ok len (Q len) r (data_header_value S (pos c + 1) (set_state s (set_header_state h c1)))"
  using assms(1-4) unfolding assms(5)
  by (auto simp: ctx_ok_def wf_defs marks_ok_def set_state_def quiet_def chunk_states_def set_index_def
        set_header_state_def url_states_def body_mark_states_def intro!: step_header_value)

lemma header_value_start_ok:
  assumes "ctx_ok 1 (Q len) c" "hp_state (parser c) = s_header_value_start" "pos c < len"
  shows "step_ok len (Q len) r (do_header_value_start S ch c)"
proof -
  define c1 where "c1 = set_index 0 (set_state s_header_value
      (c\<lparr>header_value_mark := MARK (header_value_mark c) (pos c)\<rparr>))"
  note v = start_value[OF assms(1,2) _ c1_def]
  have q: "quiet s_header_almost_done" "quiet s_header_field_start"
    by (simp_all add: quiet_def url_states_def body_mark_states_def chunk_states_def)
  have "ctx_ok 0 (Q len) c" "Q len (udata c1)"
    using assms(1,2) by (simp_all add: ctx_ok_def wf_at_def c1_def set_index_def set_state_def)
  then show ?thesis
    unfolding do_header_value_start_def c1_def[symmetric]
    using v empty_value[OF assms(1-3) q(1) c1_def] empty_value[OF assms(1-3) q(2) c1_def]
    by (cases "hp_header_state (parser c)") (simp_all add: header_value_states_def Let_def)
qed

lemma value_state:
  assumes "ctx_ok 1 (Q len) c" "hp_state (parser c) = s_header_value" "h \<in> header_value_states"
  shows "ctx_ok 0 (Q len) (set_header_state h c)" "ctx_ok 0 (Q len) (set_header_state h (set_index i c))"
    "ctx_ok 0 (Q len) c" "ctx_ok 0 (Q len) (upd_parser (\<lambda>q. q\<lparr>hp_content_length := n\<rparr>) c)"
    "ctx_ok 0 (Q len) (set_header_state h (set_state s_header_value c))"
  using assms by (auto simp: ctx_ok_def wf_defs marks_ok_def set_header_state_def set_index_def
    set_state_def chunk_states_def)

lemma leave_header_value:
  assumes "ctx_ok 1 (Q len) c" "hp_state (parser c) = s_header_value" "pos c < len" "ret \<le> len"
  shows "step_ok len (Q len) r (data_header_value S ret (set_state s_header_almost_done c))"
  using assms by (auto simp: ctx_defs intro!: step_header_value)

lemma header_value_lf_ok:
  assumes "ctx_ok 1 (Q len) c" "hp_state (parser c) = s_header_value" "pos c < len"
  shows "step_ok len (Q len) 1 (and_then (data_header_value S (pos c) (set_state s_header_almost_done c))
    (\<lambda>c. (c, Reexecute)))"
proof (rule step_ok_reexecute)
  show "step_ok len (Q len) 1 (data_header_value S (pos c) (set_state s_header_almost_done c))"
    using assms by (intro leave_header_value) simp_all
next
  fix c' assume "data_header_value S (pos c) (set_state s_header_almost_done c) = (c', Next)"
  then have "parser c' = parser (set_state s_header_almost_done c)"
    unfolding data_header_value_def
    by (rule data_next_parser[OF header_value_ok, rotated 5])
       (use assms in \<open>auto simp: ctx_ok_def marks_ok_def set_state_def\<close>)
  then show "reexec_rank (hp_state (parser c')) < 1 \<and> hp_state (parser c') \<noteq> s_chunk_size_start"
    by (simp add: set_state_def reexec_rank_def)
qed

lemma header_value_state_ok:
  assumes "ctx_ok 1 (Q len) c" "hp_state (parser c) = s_header_value" "pos c < len"
  shows "step_ok len (Q len) 1 (do_header_value S ch c)"
proof -
  have Qc: "Q len (udata c)" and h: "hp_header_state (parser c) \<in> header_value_states"
    using assms by (auto simp: ctx_ok_def wf_defs)
  have hv: "match_word w x y i t \<in> header_value_states"
    if "{x, y} \<subseteq> header_value_states" for w x y i t
    using that by (auto simp: match_word_def header_value_states_def)
  have stay: "ctx_ok 0 (Q len) c" "ctx_ok 0 (Q len) (upd_parser (\<lambda>q. q\<lparr>hp_content_length := n\<rparr>) c)" for n
    using value_state(3,4)[OF assms(1,2) h] by blast+
  have gen: "h_general \<in> header_value_states" by (simp add: header_value_states_def)
  have mw: "ctx_ok 0 (Q len) (set_header_state (match_word w x y j t) (set_index i c))"
    if "{x, y} \<subseteq> header_value_states" for w x y i j t
    by (rule value_state(2)[OF assms(1,2) hv[OF that]])
  show ?thesis
    using h leave_header_value[OF assms] header_value_lf_ok[OF assms] assms(3) Qc
      value_state(1,5)[OF assms(1,2) gen]
    by (cases "hp_header_state (parser c)")
       (simp_all add: do_header_value_def value_word_step_def do_content_length_digit_def Let_def
          header_value_states_def stay mw)
qed

lemma header_end_ok:
  assumes "ctx_ok 1 (Q len) c"
  shows "hp_state (parser c) = s_header_almost_done \<Longrightarrow> step_ok len (Q len) r (do_header_almost_done ch c)"
    and "hp_state (parser c) = s_header_value_lws \<Longrightarrow> step_ok len (Q len) 3 (do_header_value_lws ch c)"
  using assms
  by (auto simp: ctx_defs handler_defs Let_def split: header_states.split)

lemma new_message_quiet: "quiet (NEW_MESSAGE q)"
  by (simp add: NEW_MESSAGE_def start_state_def quiet_def url_states_def body_mark_states_def
        chunk_states_def)

lemma complete_ok:
  assumes "ctx_ok n (Q len) c" "quiet (hp_state (parser c))" "ret \<le> len"
  shows "step_ok len (Q len) r (notify_message_complete S ret (set_state (NEW_MESSAGE q) c))"
  by (intro step_message_complete ctx_ok_set_state[OF assms(1,2) new_message_quiet] assms(3))

lemma message_done_ok:
  assumes "ctx_ok 1 (Q len) c" "hp_state (parser c) = s_message_done" "pos c < len"
  shows "step_ok len (Q len) r (do_message_done S c)"
  using complete_ok[OF assms(1), of "pos c + 1"] assms
  by (simp add: do_message_done_def quiet_def url_states_def body_mark_states_def chunk_states_def)

text \<open>After \<open>on_headers_complete\<close> the parser is in \<open>s_headers_done\<close>.\<close>

lemma call_headers_complete_ok:
  assumes "ctx_ok 0 (Q len) c" "hp_state (parser c) = s_headers_done" "pos c \<le> len"
  shows "step_ok len (Q len) 1 (and_then (call_headers_complete S c)
     (\<lambda>c1. if hp_errno (parser c1) \<noteq> HPE_OK then (c1, Return (pos c1)) else (c1, Reexecute)))"
proof (cases "on_headers_complete S")
  case None
  with assms show ?thesis by (simp add: call_headers_complete_def ctx_defs)
next
  case (Some cb)
  obtain rc u q where cb: "cb (udata c) (parser c) = (rc, u, q)" by (cases "cb (udata c) (parser c)")
  have "only_pauses (parser c) q \<and> Q len u"
    using cb_okD[OF headers_complete_ok[of len] Some _ _ cb] assms(1) by (simp add: ctx_ok_def)
  with Some cb assms show ?thesis
    by (auto simp: call_headers_complete_def ctx_defs only_pauses_def set_errno_def Let_def)
qed

lemma headers_almost_done_ok:
  assumes "ctx_ok 1 (Q len) c" "hp_state (parser c) = s_headers_almost_done" "pos c < len"
  shows "step_ok len (Q len) 1 (do_headers_almost_done S ch c)"
proof -
  have q: "quiet (hp_state (parser c))"
    using assms(2) by (simp add: quiet_def url_states_def body_mark_states_def chunk_states_def)
  have Qc: "Q len (udata c)" using assms(1) by (simp add: ctx_ok_def)
  let ?c = "upd_parser (\<lambda>q. q\<lparr>hp_upgrade := flag_set q F_UPGRADE \<or> hp_method q = HTTP_CONNECT\<rparr>)
      (set_state s_headers_done c)"
  have "ctx_ok 0 (Q len) ?c" "hp_state (parser ?c) = s_headers_done" "pos ?c \<le> len"
    using assms by (simp_all add: ctx_defs)
  note h = call_headers_complete_ok[OF this]
  have "step_ok len (Q len) 1 (notify_message_complete S (pos c + 1) (set_state (NEW_MESSAGE (parser c)) c))"
    using complete_ok[OF assms(1) q] assms(3) by simp
  with h Qc show ?thesis
    unfolding do_headers_almost_done_def step_ok_STRICT_CHECK by (simp only: if_splits) simp
qed

lemma headers_done_ok:
  assumes "ctx_ok 1 (Q len) c" "hp_state (parser c) = s_headers_done" "pos c < len"
  shows "step_ok len (Q len) r (do_headers_done S ch c)"
proof -
  let ?c = "upd_parser (\<lambda>q. q\<lparr>hp_nread := 0\<rparr>) c"
  have c1: "ctx_ok 0 (Q len) ?c" using assms by (simp add: ctx_defs)
  have q: "quiet (hp_state (parser ?c))"
    using assms(2) by (simp add: quiet_def url_states_def body_mark_states_def chunk_states_def)
  have complete: "step_ok len (Q len) r (notify_message_complete S (pos c + 1)
      (set_state (NEW_MESSAGE (parser ?c)) ?c))"
    by (rule complete_ok[OF c1 q]) (use assms in simp)
  then have "step_ok len (Q len) r (and_then (notify_message_complete S (pos c + 1)
      (set_state (NEW_MESSAGE (parser ?c)) ?c)) (\<lambda>c2. (c2, Return (pos c + 1))))"
    using assms(3)
    by (cases "(notify_message_complete S (pos c + 1)
          (set_state (NEW_MESSAGE (parser ?c)) ?c), \<lambda>c2 :: 'u exec_ctx. (c2, Return (pos c + 1)))"
          rule: and_then.cases) (auto simp: ctx_ok_def)
  with complete c1 assms show ?thesis
    by (auto simp: do_headers_done_def Let_def ctx_defs)
qed

text \<open>The two states that hand body bytes to the application.\<close>

lemma take_body_marks:
  assumes "ctx_ok 1 (Q len) c" "hp_state (parser c) \<in> {s_body_identity, s_chunk_data}" "pos c < len"
  shows "mark_at (pos (take_body len c)) True (body_mark (take_body len c))"
    and "header_field_mark (take_body len c) = None" "header_value_mark (take_body len c) = None"
    and "url_mark (take_body len c) = None" "status_mark (take_body len c) = None"
proof -
  have cl: "hp_content_length (parser c) \<noteq> 0" using assms by (auto simp: ctx_ok_def wf_defs)
  have "mark_at (pos c) True (body_mark c)"
    using assms by (auto simp: ctx_ok_def marks_ok_def body_mark_states_def)
  then have "mark_at (pos c) True (MARK (body_mark c) (pos c))" by simp
  then show "mark_at (pos (take_body len c)) True (body_mark (take_body len c))"
    using mark_at_mono conjunct1[OF pos_take_body[OF assms(3) cl]]
    by (fastforce simp: take_body_def Let_def)
qed (use assms in \<open>auto simp: ctx_ok_def marks_ok_def take_body_def Let_def url_states_def\<close>)

lemma parser_take_body:
  "parser (take_body len c) =
     (parser c)\<lparr>hp_content_length := hp_content_length (parser c) - of_nat (to_read len c)\<rparr>"
  by (simp add: take_body_def Let_def)


lemma content_length_wf:
  assumes "wf_at n q" "hp_state q \<in> {s_body_identity, s_chunk_data}" "m \<noteq> ULLONG_MAX"
  shows "m \<noteq> 0 \<Longrightarrow> wf_at 0 (q\<lparr>hp_content_length := m\<rparr>)"
    and "hp_state q = s_chunk_data \<Longrightarrow>
          wf_at 0 (q\<lparr>hp_content_length := 0, hp_state := s_chunk_data_almost_done\<rparr>)"
    and "wf_at 0 (q\<lparr>hp_content_length := m, hp_state := s_message_done\<rparr>)"
  using assms by (simp_all add: wf_defs chunk_states_def) (elim disjE; simp)

lemma take_body_wf:
  assumes "wf_at n (parser c)" "hp_state (parser c) \<in> {s_body_identity, s_chunk_data}"
  shows "hp_content_length (parser (take_body len c)) \<noteq> 0 \<Longrightarrow> wf_at 0 (parser (take_body len c))"
    and "hp_content_length (parser (take_body len c)) = 0 \<Longrightarrow> hp_state (parser c) = s_chunk_data \<Longrightarrow>
          wf_at 0 ((parser (take_body len c))\<lparr>hp_state := s_chunk_data_almost_done\<rparr>)"
    and "wf_at 0 ((parser (take_body len c))\<lparr>hp_state := s_message_done\<rparr>)"
proof -
  have "hp_content_length (parser c) \<noteq> ULLONG_MAX" using assms by (auto simp: wf_defs)
  then have mx: "hp_content_length (parser (take_body len c)) \<noteq> ULLONG_MAX"
    by (rule take_body_not_max)
  have p: "parser (take_body len c) =
      (parser c)\<lparr>hp_content_length := hp_content_length (parser (take_body len c))\<rparr>"
    by (simp add: take_body_def Let_def)
  note w = content_length_wf[OF assms mx, folded p]
  show "wf_at 0 (parser (take_body len c))" if "hp_content_length (parser (take_body len c)) \<noteq> 0"
    using w(1) that .
  show "wf_at 0 ((parser (take_body len c))\<lparr>hp_state := s_chunk_data_almost_done\<rparr>)"
    if "hp_content_length (parser (take_body len c)) = 0" "hp_state (parser c) = s_chunk_data"
    using w(2)[OF that(2)] p[unfolded that(1)] by simp
  show "wf_at 0 ((parser (take_body len c))\<lparr>hp_state := s_message_done\<rparr>)"
    using w(3) .
qed

lemma body_identity_ok:
  assumes "ctx_ok 1 (Q len) c" "hp_state (parser c) = s_body_identity" "pos c < len"
  shows "step_ok len (Q len) 1 (do_body_identity S len c)"
proof -
  let ?c = "take_body len c"
  let ?d = "set_state s_message_done ?c"
  have s: "hp_state (parser c) \<in> {s_body_identity, s_chunk_data}" using assms(2) by simp
  have wf: "wf_at 1 (parser c)" and Qc: "Q len (udata c)" and ok: "hp_errno (parser c) = HPE_OK"
    using assms(1) by (auto simp: ctx_ok_def)
  have cl: "hp_content_length (parser c) \<noteq> 0" "hp_content_length (parser c) \<noteq> ULLONG_MAX"
    using wf assms(2) by (auto simp: wf_defs)
  note m = take_body_marks[OF assms(1) s assms(3)] and f = take_body_fields[of len c]
  have pos: "pos ?c < len" using pos_take_body[OF assms(3) cl(1)] by simp
  have d: "ctx_ok 0 (Q len) (?d\<lparr>body_mark := None\<rparr>)"
    using take_body_wf(3)[OF wf s, of len] m f Qc ok by (simp add: ctx_ok_def set_state_def marks_ok_def)
  have "step_ok len (Q len) 1 (and_then (data_body S 1 (pos ?c) ?d) (\<lambda>c2. (c2, Reexecute)))"
  proof (rule step_ok_reexecute)
    show "step_ok len (Q len) 1 (data_body S 1 (pos ?c) ?d)"
      using d m(1) pos by (intro step_body) (simp_all add: set_state_def)
  next
    fix c' assume "data_body S 1 (pos ?c) ?d = (c', Next)"
    then have "parser c' = parser ?d"
      unfolding data_body_def
      by (rule data_next_parser[OF body_ok, rotated 5])
         (use m(1) pos f Qc ok in \<open>auto simp: set_state_def\<close>)
    then show "reexec_rank (hp_state (parser c')) < 1 \<and> hp_state (parser c') \<noteq> s_chunk_size_start"
      by (simp add: set_state_def reexec_rank_def)
  qed
  moreover have "ctx_ok 0 (Q len) ?c" if "hp_content_length (parser ?c) \<noteq> 0"
    using take_body_wf(1)[OF wf s that] m f Qc ok assms(2)
    by (simp add: ctx_ok_def marks_ok_def body_mark_states_def)
  ultimately show ?thesis using cl by (simp add: do_body_identity_def Let_def)
qed

lemma chunk_data_ok:
  assumes "ctx_ok 1 (Q len) c" "hp_state (parser c) = s_chunk_data" "pos c < len"
  shows "step_ok len (Q len) r (do_chunk_data len c)"
proof -
  let ?c = "take_body len c"
  have s: "hp_state (parser c) \<in> {s_body_identity, s_chunk_data}" using assms(2) by simp
  have wf: "wf_at 1 (parser c)" and Qc: "Q len (udata c)" and ok: "hp_errno (parser c) = HPE_OK"
    using assms(1) by (auto simp: ctx_ok_def)
  have cl: "hp_content_length (parser c) \<noteq> 0" "hp_content_length (parser c) \<noteq> ULLONG_MAX"
      "flag_set (parser c) F_CHUNKED"
    using wf assms(2) by (auto simp: wf_defs chunk_states_def)
  note m = take_body_marks[OF assms(1) s assms(3)] and f = take_body_fields[of len c]
  have "ctx_ok 0 (Q len) ?c" if "hp_content_length (parser ?c) \<noteq> 0"
    using take_body_wf(1)[OF wf s that] m f Qc ok assms(2)
    by (simp add: ctx_ok_def marks_ok_def body_mark_states_def)
  moreover have "ctx_ok 0 (Q len) (set_state s_chunk_data_almost_done ?c)"
    if "hp_content_length (parser ?c) = 0"
    using take_body_wf(2)[OF wf s that assms(2)] m f Qc ok
    by (simp add: ctx_ok_def marks_ok_def body_mark_states_def set_state_def)
  ultimately show ?thesis using cl by (simp add: do_chunk_data_def Let_def)
qed

lemma body_identity_eof_ok:
  assumes "ctx_ok 1 (Q len) c" "hp_state (parser c) = s_body_identity_eof" "pos c < len"
  shows "step_ok len (Q len) r (do_body_identity_eof len c)"
  using assms mark_at_mono[of "pos c" True "body_mark c" "len - 1"]
  by (auto simp: do_body_identity_eof_def ctx_defs MARK_def mark_at_def split: option.splits)

lemma chunk_size_ok:
  assumes "ctx_ok 1 (Q len) c"
  shows "hp_state (parser c) = s_chunk_size_start \<Longrightarrow> step_ok len (Q len) r (do_chunk_size_start ch c)"
    and "hp_state (parser c) = s_chunk_size \<Longrightarrow> step_ok len (Q len) r (do_chunk_size ch c)"
    and "hp_state (parser c) = s_chunk_parameters \<Longrightarrow> step_ok len (Q len) r (do_chunk_parameters ch c)"
    and "hp_state (parser c) = s_chunk_size_almost_done \<Longrightarrow>
           step_ok len (Q len) r (do_chunk_size_almost_done ch c)"
    and "hp_state (parser c) = s_chunk_data_done \<Longrightarrow> step_ok len (Q len) r (do_chunk_data_done ch c)"
  using assms first_chunk_digit[of ch] chunk_size_no_overflow(2)[of "hp_content_length (parser c)" ch]
  by (auto simp: handler_defs ctx_defs Let_def)

lemma chunk_data_almost_done_ok:
  assumes "ctx_ok 1 (Q len) c" "hp_state (parser c) = s_chunk_data_almost_done" "pos c < len"
  shows "step_ok len (Q len) r (do_chunk_data_almost_done S ch c)"
  using assms by (auto simp: do_chunk_data_almost_done_def ctx_defs intro!: step_body)


section \<open>One byte\<close>

lemma quiet_simps:
  "quiet s_res_H" "quiet s_res_HT" "quiet s_res_HTT" "quiet s_res_HTTP" "quiet s_res_first_http_major"
  "quiet s_res_line_almost_done" "quiet s_header_field_start"
  "quiet s_req_http_H" "quiet s_req_http_HT" "quiet s_req_http_HTT" "quiet s_req_http_HTTP"
  "quiet s_req_first_http_major"
  by (simp_all add: quiet_def url_states_def body_mark_states_def chunk_states_def)

lemmas handler_ok = start_ok version_ok status_code_ok request_line_ok start_req_ok req_method_ok
  spaces_before_url_ok schema_ok req_url_ok header_field_start_ok header_field_state_ok
  header_value_start_ok header_value_state_ok header_end_ok message_done_ok headers_almost_done_ok
  headers_done_ok body_identity_ok chunk_data_ok body_identity_eof_ok chunk_size_ok
  chunk_data_almost_done_ok

lemma dispatch_ok:
  assumes "ctx_ok 1 (Q len) c" "pos c < len"
  shows "step_ok len (Q len) (reexec_rank (hp_state (parser c))) (dispatch S len ch c)"
  using assms by (cases "hp_state (parser c)")
     (simp_all add: dispatch_def reexec_rank_def literal_ok[OF assms(1)] quiet_simps handler_ok url_states_def
        del: One_nat_def)

lemma run_byte_ok:
  "ctx_ok 1 (Q len) c \<Longrightarrow> pos c < len \<Longrightarrow> reexec_rank (hp_state (parser c)) < n \<Longrightarrow>
     step_ok len (Q len) 0 (run_byte n S len ch c)"
proof (induction n arbitrary: c)
  case (Suc n)
  obtain c' k where d: "dispatch S len ch c = (c', k)" by (cases "dispatch S len ch c")
  have s: "step_ok len (Q len) (reexec_rank (hp_state (parser c))) (c', k)"
    using dispatch_ok[OF Suc.prems(1,2), of ch] d by simp
  have p: "pos c' < len" using pos_dispatch[OF Suc.prems(2), of S ch] d by simp
  show ?case
  proof (cases "k = Reexecute")
    case True
    with s have "ctx_ok 1 (Q len) c'" "reexec_rank (hp_state (parser c')) < n"
      using Suc.prems(3) by auto
    with Suc.IH p d True show ?thesis by simp
  next
    case False
    with s have "step_ok len (Q len) 0 (c', k)" by (cases k) (simp_all add: step_ok_def)
    with d False show ?thesis by (cases k) simp_all
  qed
qed simp

section \<open>One call\<close>

lemma count_byte_ok:
  assumes "ctx_ok 0 (Q len) c" "\<not> header_overflow c"
  shows "ctx_ok 1 (Q len) (count_byte c)"
proof (cases "PARSING_HEADER (hp_state (parser c))")
  case True
  with assms show ?thesis
    by (simp add: header_overflow_def count_byte_def ctx_ok_def wf_defs marks_ok_def not_less)
next
  case False
  then have "hp_state (parser c) \<noteq> s_chunk_size_start"
    by (auto simp: PARSING_HEADER_def less_eq_state_def)
  with False assms show ?thesis
    by (simp add: count_byte_def ctx_ok_def wf_at_def)
qed

lemma flush_ok:
  assumes "ctx_ok 0 (Q len) c" "pos c \<le> len"
  shows "step_ok len (Q len) 0 (data_header_field S (pos c) c)"
    "step_ok len (Q len) 0 (data_header_value S (pos c) c)"
    "step_ok len (Q len) 0 (data_url S (pos c) c)"
    "step_ok len (Q len) 0 (data_body S 0 (pos c) c)"
    "step_ok len (Q len) 0 (data_status S (pos c) c)"
proof -
  have m: "mark_at (pos c) True (header_field_mark c)" "mark_at (pos c) True (header_value_mark c)"
      "mark_at (pos c) True (url_mark c)" "mark_at (pos c) True (body_mark c)"
      "mark_at (pos c) True (status_mark c)"
    using assms(1) mark_at_weaken unfolding ctx_ok_def marks_ok_def by blast+
  have c: "ctx_ok 0 (Q len) (c\<lparr>header_field_mark := None\<rparr>)" "ctx_ok 0 (Q len) (c\<lparr>header_value_mark := None\<rparr>)"
      "ctx_ok 0 (Q len) (c\<lparr>url_mark := None\<rparr>)" "ctx_ok 0 (Q len) (c\<lparr>body_mark := None\<rparr>)"
      "ctx_ok 0 (Q len) (c\<lparr>status_mark := None\<rparr>)"
    using assms(1) by (simp_all add: ctx_ok_def marks_ok_def)
  show "step_ok len (Q len) 0 (data_header_field S (pos c) c)"
    "step_ok len (Q len) 0 (data_header_value S (pos c) c)"
    "step_ok len (Q len) 0 (data_url S (pos c) c)"
    "step_ok len (Q len) 0 (data_body S 0 (pos c) c)"
    "step_ok len (Q len) 0 (data_status S (pos c) c)"
    using c m assms(2)
    by (simp_all add: step_header_field step_header_value step_url step_body step_status)
qed

lemma after_loop_ok:
  assumes "ctx_ok 0 (Q len) c" "pos c = len"
  shows "exec_ok len (Q len) (after_loop S len c)"
proof -
  let ?flush = "and_then (data_header_field S (pos c) c) (\<lambda>c1.
        and_then (data_header_value S (pos c1) c1) (\<lambda>c2.
        and_then (data_url S (pos c2) c2) (\<lambda>c3.
        and_then (data_body S 0 (pos c3) c3) (\<lambda>c4.
        and_then (data_status S (pos c4) c4) (\<lambda>c5. (c5, Return len))))))"
  have "step_ok len (Q len) 0 ?flush"
    using assms by (intro step_ok_and_then flush_ok) (auto simp: ctx_ok_def)
  moreover have "snd ?flush \<noteq> Next"
    by (intro and_then_not_Next) simp
  moreover have "pos (fst ?flush) = pos c"
    by (simp add: pos_and_then)
  ultimately show ?thesis
    using one_mark[OF assms(1)] assms(2) by (simp add: after_loop_def ASSERT_def finish_ok)
qed

lemma exec_loop_ok:
  "ctx_ok 0 (Q (length data)) c \<Longrightarrow> pos c \<le> length data \<Longrightarrow>
     exec_ok (length data) (Q (length data)) (exec_loop S data c)"
proof (induction "length data - pos c" arbitrary: c rule: less_induct)
  case less
  let ?n = "length data"
  consider "pos c = ?n" | "pos c < ?n" "header_overflow c" | "pos c < ?n" "\<not> header_overflow c"
    using less.prems by linarith
  then show ?case
  proof cases
    case 1
    with less.prems show ?thesis by (simp add: exec_loop_end after_loop_ok)
  next
    case 2
    with less.prems show ?thesis
      by (simp add: exec_loop_overflow exec_ok_def at_error_def set_errno_def count_byte_def ctx_ok_def)
  next
    case 3
    obtain c2 k where r: "run_byte reexecute_bound S ?n (data ! pos c) (count_byte c) = (c2, k)"
      by fastforce
    have p2: "pos c \<le> pos c2" "pos c2 < ?n" using run_byte_pos[OF r] 3 by simp_all
    have s: "step_ok ?n (Q ?n) 0 (c2, k)"
      using run_byte_ok[OF count_byte_ok[OF less.prems(1) 3(2)] _ reexec_rank_bound] r 3
      by (metis pos_count_byte)
    show ?thesis
    proof (cases "k = Next")
      case True
      with s have "ctx_ok 0 (Q ?n) (c2\<lparr>pos := pos c2 + 1\<rparr>)" 
        using ctx_ok_advance[of 0 _ c2] by simp
      with less.hyps[of "c2\<lparr>pos := pos c2 + 1\<rparr>"] p2 exec_loop_next[OF 3 r[unfolded True]]
      show ?thesis by simp
    next
      case False
      with finish_ok[OF s] exec_loop_stop[OF 3 r] p2 show ?thesis by simp
    qed
  qed
qed

theorem execute_ok:
  assumes "wf_parser ps" "Q (length data) u" "data \<noteq> []"
  shows "exec_ok (length data) (Q (length data)) (http_parser_execute S ps u data)"
proof (cases "hp_errno ps = HPE_OK")
  case True
  then show ?thesis
    using exec_loop_ok[OF enter_ok[where Q = "Q (length data)", OF assms(1) True assms(2)]] assms(3)
    by (simp add: http_parser_execute_def enter_def)
next
  case False
  with assms show ?thesis by (simp add: http_parser_execute_def exec_ok_def)
qed

lemma execute_eof_ok:
  assumes "wf_parser ps" "Q 0 u"
  shows "exec_ok 1 (Q 0) (http_parser_execute S ps u [])"
proof (cases "hp_errno ps = HPE_OK \<and> hp_state ps = s_body_identity_eof")
  case True
  then have "step_ok 0 (Q 0) 0 (notify_message_complete S 0 (enter ps u))"
    using assms by (intro step_message_complete enter_ok) auto
  then have "step_ok 0 (Q 0) 0 (and_then (notify_message_complete S 0 (enter ps u)) (\<lambda>c. (c, Return 0)))"
    by (rule step_ok_and_then) (auto simp: ctx_ok_def)
  then have "exec_ok 0 (Q 0)
      (finish (and_then (notify_message_complete S 0 (enter ps u)) (\<lambda>c. (c, Return 0))))"
    by (rule finish_ok) (auto simp: and_then_not_Next pos_and_then enter_def)
  then show ?thesis
    using True by (auto simp: http_parser_execute_def execute_eof_def exec_ok_def split: exec_end.splits)
next
  case False
  with assms show ?thesis by (auto simp: http_parser_execute_def execute_eof_def exec_ok_def)
qed

end

section \<open>Properties\<close>

text \<open>
  C1 Safety of \<open>http_parser_execute\<close>: for callbacks that keep their contract, a well-formed parser and a
  non-empty buffer, the call returns; it fails no assertion, reads nothing outside the strings, does
  not loop on a byte and does not run past the buffer. It reports at most the number of bytes it
  was given, hands out spans inside the buffer only (\<open>Q\<close> survives), and leaves a well-formed parser
  unless it reports an error.
\<close>

theorem http_execute_safe:
  assumes "http_callbacks S Q" "wf_parser ps" "Q (length data) u" "data \<noteq> []"
  shows "case http_parser_execute S ps u data of (q, u', e) \<Rightarrow>
     (\<exists>n. e = Parsed n \<and> n \<le> length data) \<and> Q (length data) u'
     \<and> (hp_errno q \<in> {HPE_OK, HPE_PAUSED} \<longrightarrow> wf_parser q)"
  using http_callbacks.execute_ok[OF assms] by (auto simp: exec_ok_iff split: prod.splits)

definition no_callbacks :: "'u http_parser_settings" where
  "no_callbacks = \<lparr> on_message_begin = None, on_url = None, on_status = None, on_header_field = None,
     on_header_value = None, on_headers_complete = None, on_body = None, on_message_complete = None \<rparr>"

theorem http_execute_safe_witness:
  "case http_parser_execute no_callbacks (http_parser_init HTTP_REQUEST) () ''GET'' of (q, u', e) \<Rightarrow>
     (\<exists>n. e = Parsed n \<and> n \<le> length ''GET'') \<and> True
     \<and> (hp_errno q \<in> {HPE_OK, HPE_PAUSED} \<longrightarrow> wf_parser q)"
proof (rule http_execute_safe[where Q = "\<lambda>_ _. True"])
  show "http_callbacks no_callbacks (\<lambda>_ (_ :: unit). True)"
    by unfold_locales (simp_all add: no_callbacks_def cb_ok_def data_cb_ok_def)
qed (simp_all add: wf_parser_init)

text \<open>
  The end of the stream: a call without data returns 0 or 1 and keeps the parser well formed; it
  never fails an assertion.
\<close>

theorem http_execute_eof_safe:
  assumes "http_callbacks S Q" "wf_parser ps" "Q 0 u"
  shows "case http_parser_execute S ps u [] of (q, u', e) \<Rightarrow>
     (\<exists>n. e = Parsed n \<and> n \<le> 1) \<and> Q 0 u' \<and> (hp_errno q \<in> {HPE_OK, HPE_PAUSED} \<longrightarrow> wf_parser q)"
  using http_callbacks.execute_eof_ok[OF assms] by (auto simp: exec_ok_iff split: prod.splits)

theorem http_execute_eof_safe_witness:
  "case http_parser_execute no_callbacks (http_parser_init HTTP_RESPONSE) () [] of (q, u', e) \<Rightarrow>
     (\<exists>n. e = Parsed n \<and> n \<le> 1) \<and> True \<and> (hp_errno q \<in> {HPE_OK, HPE_PAUSED} \<longrightarrow> wf_parser q)"
proof (rule http_execute_eof_safe[where Q = "\<lambda>_ _. True"])
  show "http_callbacks no_callbacks (\<lambda>_ (_ :: unit). True)"
    by unfold_locales (simp_all add: no_callbacks_def cb_ok_def data_cb_ok_def)
qed (simp_all add: wf_parser_init)

lemma run_byte_more:
  "snd (run_byte n S len ch c) \<noteq> Reexecute \<Longrightarrow> run_byte (n + k) S len ch c = run_byte n S len ch c"
proof (induction n arbitrary: c)
  case (Suc n)
  obtain c' k where d: "dispatch S len ch c = (c', k)" by (cases "dispatch S len ch c")
  with Suc show ?case by (cases k) simp_all
qed simp

text \<open>
  C31 Termination of \<open>goto reexecute_byte\<close>: for callbacks that keep their contract, one byte is dispatched
  only finitely often. More rounds than the bound of the model change nothing, so that the unbounded jump
  of the C code ends, and with the result of the model.
\<close>

theorem reexecution_terminates:
  assumes "http_callbacks S Q" "ctx_ok 1 (Q len) c" "pos c < len" "reexecute_bound \<le> n"
  shows "run_byte n S len ch c = run_byte reexecute_bound S len ch c
     \<and> snd (run_byte n S len ch c) \<noteq> Reexecute"
proof -
  let ?r = "run_byte reexecute_bound S len ch c"
  have "step_ok len (Q len) 0 ?r"
    by (rule http_callbacks.run_byte_ok[OF assms(1-3) reexec_rank_bound])
  then have "snd ?r \<noteq> Reexecute" by (cases ?r) (auto simp: step_ok_def)
  with run_byte_more[of reexecute_bound S len ch c "n - reexecute_bound"] assms(4) show ?thesis by simp
qed
theorem reexecution_terminates_witness:
  "run_byte 100 no_callbacks 3 (CHR ''G'') (enter (http_parser_init HTTP_REQUEST) ()) =
     run_byte reexecute_bound no_callbacks 3 (CHR ''G'') (enter (http_parser_init HTTP_REQUEST) ())
   \<and> snd (run_byte 100 no_callbacks 3 (CHR ''G'') (enter (http_parser_init HTTP_REQUEST) ())) \<noteq> Reexecute"
proof (rule reexecution_terminates[where Q = "\<lambda>_ _. True"])
  show "http_callbacks no_callbacks (\<lambda>_ (_ :: unit). True)"
    by unfold_locales (simp_all add: no_callbacks_def cb_ok_def data_cb_ok_def)
  show "ctx_ok 1 (\<lambda>_. True) (enter (http_parser_init HTTP_REQUEST) ())"
    by (simp add: ctx_ok_def enter_def marks_ok_def http_parser_init_def wf_defs chunk_states_def HTTP_MAX_HEADER_SIZE_def url_states_def)
qed (simp_all add: enter_def reexecute_bound_def)

end
