(* ===== verification/Http_Url_Inv.thy ===== *)
theory Http_Url_Inv
  imports Http_Url
begin

text \<open>
  Bounds of \<open>http_parser_parse_url\<close>: for a URL of at most 65535 bytes the 16-bit offsets and lengths
  do not wrap, every field found lies inside the URL, the \<open>assert\<close> on unknown states cannot fail and
  the host automaton reads only bytes of the URL.
\<close>

section \<open>The fields of a parsed URL lie inside it\<close>

definition field_end :: "http_parser_url \<Rightarrow> url_field \<Rightarrow> nat" where
  "field_end u f = unat (field_off u f) + unat (field_len u f)"

lemma uf_num_inject: "uf_num f = uf_num g \<Longrightarrow> f = g"
  by (cases f; cases g) simp_all

lemma uf_num_less: "uf_num f < 16"
  by (cases f) simp_all

lemma has_field_set_field [simp]: "has_field (set_field f off len u) g \<longleftrightarrow> g = f \<or> has_field u g"
  using uf_num_less[of f] uf_num_less[of g]
  by (auto simp: has_field_def set_field_def bit_or_iff bit_exp_iff dest: uf_num_inject)

lemma has_field_updates [simp]:
  "has_field (incr_len f u) g = has_field u g"
  "has_field (u\<lparr>field_off := x\<rparr>) g = has_field u g"
  "has_field (u\<lparr>field_len := y\<rparr>) g = has_field u g"
  "has_field (u\<lparr>url_port := z\<rparr>) g = has_field u g"
  "\<not> has_field (u\<lparr>field_set := 0\<rparr>) g"
  by (simp_all add: has_field_def incr_len_def)

lemma field_len_updates [simp]:
  "field_len (incr_len f u) g = (if g = f then field_len u f + 1 else field_len u g)"
  "field_len (set_field f off len u) g = (if g = f then of_nat len else field_len u g)"
  by (simp_all add: incr_len_def set_field_def)

lemma field_off_updates [simp]:
  "field_off (incr_len f u) g = field_off u g"
  "field_off (set_field f off len u) g = (if g = f then of_nat off else field_off u g)"
  by (simp_all add: incr_len_def set_field_def)

lemma field_end_incr:
  assumes "field_end u f < 65535"
  shows "field_end (incr_len f u) g = (if g = f then field_end u f + 1 else field_end u g)"
proof -
  have "unat (field_len u f + 1) = unat (field_len u f) + 1"
    using assms by (simp add: field_end_def unat_word_ariths)
  then show ?thesis by (simp add: field_end_def incr_len_def)
qed

lemma field_end_set_field:
  "off \<le> 65535 \<Longrightarrow> len \<le> 65535 \<Longrightarrow>
     field_end (set_field f off len u) g = (if g = f then off + len else field_end u g)"
  by (simp add: field_end_def set_field_def unat_of_nat)

definition ends_by :: "http_parser_url \<Rightarrow> nat \<Rightarrow> bool" where
  "ends_by u p \<longleftrightarrow> (\<forall>f. has_field u f \<longrightarrow> field_end u f \<le> p)"

lemma ends_by_mono: "ends_by u p \<Longrightarrow> p \<le> p' \<Longrightarrow> ends_by u p'"
  unfolding ends_by_def by (meson order_trans)

lemma url_states_field:
  "s \<in> url_states \<Longrightarrow> s \<notin> {s_req_schema_slash, s_req_schema_slash_slash, s_req_server_start,
     s_req_query_string_start, s_req_fragment_start} \<Longrightarrow>
   \<exists>uf. url_state_field s = Some uf \<and> uf \<notin> {UF_PORT, UF_USERINFO, UF_MAX}"
  by (cases s) (simp_all add: url_states_def url_state_field_def)

lemma url_state_field_total:
  "s' = parse_url_char s ch \<Longrightarrow> s' \<noteq> s_dead \<Longrightarrow>
   s' \<notin> {s_req_schema_slash, s_req_schema_slash_slash, s_req_server_start,
     s_req_query_string_start, s_req_fragment_start} \<Longrightarrow>
   \<exists>uf. url_state_field s' = Some uf \<and> uf \<notin> {UF_PORT, UF_USERINFO, UF_MAX}"
  using parse_url_char_range[of s ch] url_states_field[of s'] by blast

definition scan_ok :: "nat \<Rightarrow> 16 word \<Rightarrow> url_scan \<Rightarrow> bool" where
  "scan_ok n hl r = (case r of
      Scan_done u fa \<Rightarrow> ends_by u n \<and> \<not> has_field u UF_PORT \<and> \<not> has_field u UF_USERINFO
        \<and> (\<not> has_field u UF_HOST \<longrightarrow> field_len u UF_HOST = hl)
    | Scan_bad \<Rightarrow> True | Scan_abort \<Rightarrow> False)"

definition loop_inv :: "http_parser_url \<Rightarrow> nat \<Rightarrow> url_field \<Rightarrow> bool" where
  "loop_inv u p old \<longleftrightarrow> ends_by u p \<and> (old = UF_MAX \<or> has_field u old) \<and>
     \<not> has_field u UF_PORT \<and> \<not> has_field u UF_USERINFO \<and> \<not> has_field u UF_MAX"

lemma loop_inv_step:
  assumes "loop_inv u p old" "p < 65535" "uf \<notin> {UF_PORT, UF_USERINFO, UF_MAX}"
  shows "loop_inv (if uf = old then incr_len uf u else set_field uf p 1 u) (Suc p) uf"
proof (cases "uf = old")
  case True
  then have h: "has_field u uf" using assms by (auto simp: loop_inv_def)
  then have "field_end u uf \<le> p" using assms(1) by (simp add: loop_inv_def ends_by_def)
  then have "field_end u uf < 65535" using assms(2) by simp
  from field_end_incr[OF this] assms h True show ?thesis
    by (auto simp: loop_inv_def ends_by_def le_Suc_eq)
next
  case False
  with assms show ?thesis
    by (auto simp: loop_inv_def ends_by_def field_end_set_field le_Suc_eq)
qed

lemma parse_url_loop_inv:
  assumes "loop_inv u p old" "p + length cs \<le> 65535" "\<not> has_field u UF_HOST \<Longrightarrow> field_len u UF_HOST = hl"
  shows "scan_ok (p + length cs) hl (parse_url_loop cs p s old fa u)"
  using assms
proof (induction cs arbitrary: p s old fa u)
  case Nil
  then show ?case by (simp add: scan_ok_def loop_inv_def)
next
  case (Cons ch cs)
  let ?s = "parse_url_char s ch"
  let ?skip = "{s_req_schema_slash, s_req_schema_slash_slash, s_req_server_start,
      s_req_query_string_start, s_req_fragment_start}"
  consider "?s = s_dead" | "?s \<noteq> s_dead" "?s \<in> ?skip" | "?s \<noteq> s_dead" "?s \<notin> ?skip" by blast
  then show ?case
  proof cases
    case 1
    then show ?thesis by (simp add: scan_ok_def)
  next
    case 2
    then have e: "parse_url_loop (ch # cs) p s old fa u = parse_url_loop cs (Suc p) ?s old fa u" by simp
    have "loop_inv u (Suc p) old" using Cons.prems(1) ends_by_mono[of u p "Suc p"] by (simp add: loop_inv_def)
    from Cons.IH[OF this _ Cons.prems(3)] Cons.prems(2) show ?thesis unfolding e by simp
  next
    case 3
    obtain uf where uf: "url_state_field ?s = Some uf" "uf \<notin> {UF_PORT, UF_USERINFO, UF_MAX}"
      using url_state_field_total[OF refl 3] by blast
    define u' where "u' = (if uf = old then incr_len uf u else set_field uf p 1 u)"
    have e: "parse_url_loop (ch # cs) p s old fa u =
        parse_url_loop cs (Suc p) ?s uf (fa \<or> ?s = s_req_server_with_at) u'"
      using 3 uf(1) by (simp add: u'_def Let_def)
    have inv: "loop_inv u' (Suc p) uf"
      unfolding u'_def using Cons.prems uf(2) by (intro loop_inv_step) simp_all
    have "field_len u' UF_HOST = hl" if "\<not> has_field u' UF_HOST"
      using that Cons.prems(1,3) uf(2) by (auto simp: u'_def loop_inv_def split: if_splits)
    from Cons.IH[OF inv _ this] Cons.prems(2) show ?thesis unfolding e by simp
  qed
qed

section \<open>The host part\<close>

definition host_fields :: "url_field set" where
  "host_fields = {UF_HOST, UF_PORT, UF_USERINFO}"

text \<open>The three host fields end before \<open>p\<close>, the others before the end \<open>n\<close> of the buffer.\<close>

definition host_inv :: "nat \<Rightarrow> http_host_state \<Rightarrow> nat \<Rightarrow> http_parser_url \<Rightarrow> bool" where
  "host_inv n s p u \<longleftrightarrow>
     (\<forall>f. has_field u f \<longrightarrow> field_end u f \<le> (if f \<in> host_fields then p else n))
     \<and> field_end u UF_HOST \<le> p
     \<and> (s \<in> {s_http_userinfo_start, s_http_userinfo, s_http_host_start, s_http_host_v6_start} \<longrightarrow>
          field_len u UF_HOST = 0)
     \<and> (s = s_http_userinfo \<longrightarrow> has_field u UF_USERINFO)
     \<and> (s = s_http_host_port \<longrightarrow> has_field u UF_PORT)"

lemma field_end_offset:
  "p \<le> 65535 \<Longrightarrow> field_len u UF_HOST = 0 \<Longrightarrow>
   field_end (u\<lparr>field_off := (field_off u)(UF_HOST := of_nat p)\<rparr>) g = (if g = UF_HOST then p else field_end u g)"
  by (simp add: field_end_def unat_of_nat)

lemma host_inv_step:
  assumes "host_inv n s p u" "new_s = http_parse_host_char s ch" "new_s \<noteq> s_http_host_dead" "p < 65535"
  shows "host_inv n new_s (Suc p) (host_account s new_s p u)"
proof -
  have i: "field_end u UF_HOST < 65535"
    "s = s_http_userinfo \<Longrightarrow> field_end u UF_USERINFO < 65535"
    "s = s_http_host_port \<Longrightarrow> field_end u UF_PORT < 65535"
    using assms(1,4) by (auto simp: host_inv_def host_fields_def)
  show ?thesis
    using assms i
    by (cases s; cases new_s)
       (auto simp: host_inv_def host_account_def http_parse_host_char_def field_end_incr host_fields_def
          field_end_set_field field_end_offset le_Suc_eq split: if_splits)
qed

definition host_ok :: "nat \<Rightarrow> url_result \<Rightarrow> bool" where
  "host_ok n r = (case r of Url_ok u \<Rightarrow> ends_by u n | Url_bad \<Rightarrow> True | _ \<Rightarrow> False)"

lemma host_ok_simps [simp]:
  "host_ok n (Url_ok u) = ends_by u n" "host_ok n Url_bad" "\<not> host_ok n Url_abort" "\<not> host_ok n Url_oob"
  by (simp_all add: host_ok_def)

lemma parse_host_loop_inv:
  "host_inv (length buf) s p u \<Longrightarrow> p + n \<le> length buf \<Longrightarrow> length buf \<le> 65535 \<Longrightarrow>
     host_ok (length buf) (parse_host_loop buf n p s u)"
proof (induction n arbitrary: p s u)
  case 0
  then show ?case by (auto simp: host_ok_def host_inv_def ends_by_def split: if_splits)
next
  case (Suc n)
  then have ch: "c_str_at buf p = Some (buf ! p)" by (simp add: c_str_at_def)
  show ?case
  proof (cases "http_parse_host_char s (buf ! p) = s_http_host_dead")
    case False
    with Suc.IH[OF host_inv_step[OF Suc.prems(1) refl False]] Suc.prems(2,3) ch
    show ?thesis by (simp add: Let_def)
  qed (simp add: ch host_ok_def)
qed

lemma url_connect_check_ok:
  assumes "ends_by u n"
  shows "host_ok n (url_connect_check b buf u)"
  using assms by (auto simp: url_connect_check_def url_port_check_def Let_def ends_by_def field_end_def)

section \<open>URLs with a schema and no host\<close>

text \<open>
  A schema and nothing else, or a schema, \<open>://\<close> (or a part of that) and then the end, a path or a query.
\<close>

definition hostless :: "string \<Rightarrow> bool" where
  "hostless url \<longleftrightarrow> (case url of [] \<Rightarrow> False | ch # _ \<Rightarrow> IS_ALPHA ch) \<and>
     (case dropWhile IS_ALPHA url of
        [] \<Rightarrow> True
      | [a] \<Rightarrow> a = CHR '':''
      | [a, b] \<Rightarrow> a = CHR '':'' \<and> b = CHR ''/''
      | [a, b, c] \<Rightarrow> a = CHR '':'' \<and> b = CHR ''/'' \<and> c = CHR ''/''
      | a # b # c # d # _ \<Rightarrow> a = CHR '':'' \<and> b = CHR ''/'' \<and> c = CHR ''/'' \<and> (d = CHR ''/'' \<or> d = CHR ''?''))"

lemma alpha_facts:
  assumes "IS_ALPHA ch"
  shows "ch \<notin> set [CHR '' '', CR, LF, HT, FF, CHR '':'', CHR ''/'', CHR ''*'', CHR ''?'']" "IS_HOST_CHAR ch"
proof -
  have "\<not> IS_ALPHA c" if "c \<in> set [CHR '' '', CR, LF, HT, FF, CHR '':'', CHR ''/'', CHR ''*'', CHR ''?'']" for c
    using that by (auto simp: IS_ALPHA_def LOWER_def CR_def LF_def HT_def FF_def less_eq_char_def)
  then show "ch \<notin> set [CHR '' '', CR, LF, HT, FF, CHR '':'', CHR ''/'', CHR ''*'', CHR ''?'']" using assms by blast
  show "IS_HOST_CHAR ch" using assms by (simp add: IS_HOST_CHAR_def IS_ALPHANUM_def)
qed

lemma parse_url_char_start:
  "parse_url_char s_req_spaces_before_url ch = (if ch = CHR ''/'' \<or> ch = CHR ''*'' then s_req_path
     else if IS_ALPHA ch then s_req_schema else s_dead)"
  "parse_url_char s_req_schema ch = (if IS_ALPHA ch then s_req_schema
     else if ch = CHR '':'' then s_req_schema_slash else s_dead)"
  "parse_url_char s_req_schema_slash ch = (if ch = CHR ''/'' then s_req_schema_slash_slash else s_dead)"
  "parse_url_char s_req_schema_slash_slash ch = (if ch = CHR ''/'' then s_req_server_start else s_dead)"
  using alpha_facts(1)[of ch] by (auto simp: parse_url_char_def CR_def LF_def HT_def FF_def)

text \<open>A field that is found stays, and the schema is found at the start only.\<close>

lemma parse_url_loop_keeps:
  "parse_url_loop cs p s old fa u = Scan_done u' fa' \<Longrightarrow> has_field u f \<Longrightarrow> has_field u' f"
  by (induction cs p s old fa u rule: parse_url_loop.induct)
    (auto simp: Let_def split: if_splits option.splits)

lemma no_way_back:
  "s \<notin> {s_req_spaces_before_url, s_req_schema} \<Longrightarrow>
    parse_url_char s ch \<notin> {s_req_spaces_before_url, s_req_schema}"
  by (cases s) (simp_all add: parse_url_char_def url_server_char_def)

lemma url_state_schema: "url_state_field s = Some UF_SCHEMA \<longleftrightarrow> s = s_req_schema"
  by (cases s) (simp_all add: url_state_field_def)

lemma parse_url_loop_no_schema:
  "parse_url_loop cs p s old fa u = Scan_done u' fa' \<Longrightarrow> s \<notin> {s_req_spaces_before_url, s_req_schema} \<Longrightarrow>
    \<not> has_field u UF_SCHEMA \<Longrightarrow> \<not> has_field u' UF_SCHEMA"
proof (induction cs arbitrary: p s old fa u)
  case (Cons ch cs)
  note n = no_way_back[OF Cons.prems(2), of ch]
  have "url_state_field (parse_url_char s ch) \<noteq> Some UF_SCHEMA" using n url_state_schema by blast
  then show ?case
    using Cons.prems(1,3) Cons.IH[OF _ n] by (auto simp: Let_def split: if_splits option.splits)
qed simp

lemma server_start_host:
  assumes "parse_url_loop (ch # cs) p s_req_server_start UF_SCHEMA fa u = Scan_done u' fa'"
    "ch \<noteq> CHR ''/''" "ch \<noteq> CHR ''?''"
  shows "has_field u' UF_HOST"
proof -
  let ?s = "parse_url_char s_req_server_start ch"
  have d: "?s \<noteq> s_dead" using assms(1) by (auto simp: Let_def)
  then have s: "?s = s_req_server \<or> ?s = s_req_server_with_at"
    using assms(2,3) by (auto simp: parse_url_char_def url_server_char_def split: if_splits)
  then have "url_state_field ?s = Some UF_HOST" by (auto simp: url_state_field_def)
  then have "parse_url_loop cs (Suc p) ?s UF_HOST (fa \<or> ?s = s_req_server_with_at) (set_field UF_HOST p 1 u) =
      Scan_done u' fa'"
    using assms(1) s d by (auto simp: Let_def)
  from parse_url_loop_keeps[OF this, of UF_HOST] show ?thesis by simp
qed

lemma schema_loop:
  assumes "parse_url_loop cs p s_req_schema UF_SCHEMA fa u = Scan_done u' fa'" "\<not> has_field u' UF_HOST"
  shows "case dropWhile IS_ALPHA cs of
      [] \<Rightarrow> True
    | [a] \<Rightarrow> a = CHR '':''
    | [a, b] \<Rightarrow> a = CHR '':'' \<and> b = CHR ''/''
    | [a, b, c] \<Rightarrow> a = CHR '':'' \<and> b = CHR ''/'' \<and> c = CHR ''/''
    | a # b # c # d # _ \<Rightarrow> a = CHR '':'' \<and> b = CHR ''/'' \<and> c = CHR ''/'' \<and> (d = CHR ''/'' \<or> d = CHR ''?'')"
  using assms
proof (induction cs arbitrary: p fa u)
  case (Cons ch cs)
  show ?case
  proof (cases "IS_ALPHA ch")
    case True
    then show ?thesis using Cons.prems Cons.IH by (auto simp: Let_def parse_url_char_start url_state_field_def)
  next
    case False
    then have ch: "ch = CHR '':''" and
      l: "parse_url_loop cs (Suc p) s_req_schema_slash UF_SCHEMA fa u = Scan_done u' fa'"
      using Cons.prems(1) by (auto simp: Let_def parse_url_char_start split: if_splits)
    show ?thesis
    proof (cases cs)
      case Nil
      then show ?thesis using False ch by simp
    next
      case (Cons b cs2)
      have b: "b = CHR ''/''" and l2: "parse_url_loop cs2 (Suc (Suc p)) s_req_schema_slash_slash UF_SCHEMA fa u = Scan_done u' fa'"
        using l Cons by (auto simp: Let_def parse_url_char_start split: if_splits)
      show ?thesis
      proof (cases cs2)
        case Nil
        then show ?thesis using False ch b Cons by simp
      next
        case (Cons c cs3)
        have c: "c = CHR ''/''" and
          l3: "parse_url_loop cs3 (Suc (Suc (Suc p))) s_req_server_start UF_SCHEMA fa u = Scan_done u' fa'"
          using l2 Cons by (auto simp: Let_def parse_url_char_start split: if_splits)
        show ?thesis
        proof (cases cs3)
          case Nil
          then show ?thesis using False ch b c Cons \<open>cs = b # cs2\<close> by simp
        next
          case (Cons d cs4)
          have "d = CHR ''/'' \<or> d = CHR ''?''"
            using server_start_host[of d cs4 "Suc (Suc (Suc p))" fa u u' fa'] l3 Cons \<open>\<not> has_field u' UF_HOST\<close> by blast
          then show ?thesis using False ch b c Cons \<open>cs = b # cs2\<close> \<open>cs2 = c # cs3\<close> by simp
        qed
      qed
    qed
  qed
qed simp

lemma schema_without_host:
  assumes "parse_url_loop buf 0 (if is_connect then s_req_server_start else s_req_spaces_before_url) UF_MAX False u =
      Scan_done u' fa" "\<not> has_field u UF_SCHEMA" "has_field u' UF_SCHEMA" "\<not> has_field u' UF_HOST"
  shows "\<not> is_connect \<and> hostless buf"
proof -
  have c: "\<not> is_connect" using parse_url_loop_no_schema[OF assms(1)] assms(2,3) by auto
  show ?thesis
  proof (cases buf)
    case Nil
    then show ?thesis using assms by simp
  next
    case (Cons ch cs)
    have "IS_ALPHA ch \<and> parse_url_loop cs 1 s_req_schema UF_SCHEMA False (set_field UF_SCHEMA 0 1 u) = Scan_done u' fa"
    proof (cases "ch = CHR ''/'' \<or> ch = CHR ''*''")
      case True
      then have "parse_url_loop cs 1 s_req_path UF_PATH False (set_field UF_PATH 0 1 u) = Scan_done u' fa"
        using assms(1) c Cons by (auto simp: Let_def parse_url_char_start url_state_field_def)
      from parse_url_loop_no_schema[OF this] assms(2,3) show ?thesis by simp
    next
      case False
      then show ?thesis
        using assms(1) c Cons by (auto simp: Let_def parse_url_char_start url_state_field_def split: if_splits)
    qed
    then show ?thesis using schema_loop[OF _ assms(4)] Cons c unfolding hostless_def by auto
  qed
qed

lemma parse_url_in_bounds:
  assumes "length buf \<le> 65535" "field_len u0 UF_HOST = 0 \<or> is_connect \<or> \<not> hostless buf"
  shows "host_ok (length buf) (http_parser_parse_url buf is_connect u0)"
proof -
  let ?u = "u0\<lparr>url_port := 0, field_set := 0\<rparr>"
  let ?s = "if is_connect then s_req_server_start else s_req_spaces_before_url"
  let ?l = "field_len u0 UF_HOST"
  have l: "scan_ok (0 + length buf) ?l (parse_url_loop buf 0 ?s UF_MAX False ?u)"
    using assms by (intro parse_url_loop_inv) (simp_all add: loop_inv_def ends_by_def)
  show ?thesis
  proof (cases "parse_url_loop buf 0 ?s UF_MAX False ?u")
    case (Scan_done u fa)
    with l have u: "ends_by u (length buf)" "\<not> has_field u UF_PORT" "\<not> has_field u UF_USERINFO"
        "\<not> has_field u UF_HOST \<Longrightarrow> field_len u UF_HOST = ?l"
      by (simp_all add: scan_ok_def)
    have "host_ok (length buf) (http_parse_host buf u fa)" if "has_field u UF_SCHEMA \<or> has_field u UF_HOST"
    proof (cases "has_field u UF_HOST")
      case True
      then have e: "unat (field_off u UF_HOST) + unat (field_len u UF_HOST) \<le> length buf"
        using u(1) by (simp add: ends_by_def field_end_def)
      show ?thesis unfolding http_parse_host_def
        by (rule parse_host_loop_inv[OF _ e assms(1)])
           (use u(1-3) in \<open>auto simp: host_inv_def host_fields_def field_end_def ends_by_def\<close>)
    next
      case False
      with schema_without_host[OF Scan_done] that have "\<not> is_connect \<and> hostless buf" by simp
      with assms(2) u(4) False show ?thesis by (simp add: http_parse_host_def host_ok_def)
    qed
    then show ?thesis
      using Scan_done u(1) url_connect_check_ok[of _ "length buf" is_connect buf]
      by (cases "http_parse_host buf u fa") (auto simp: http_parser_parse_url_def)
  qed (use l in \<open>auto simp: scan_ok_def http_parser_parse_url_def host_ok_def\<close>)
qed

section \<open>The result for a URL with a schema and no host\<close>

lemma parse_url_loop_stay:
  assumes "\<forall>c \<in> set cs. parse_url_char s c = s" "url_state_field s = Some f"
    "s \<in> {s_req_schema, s_req_path}"
  shows "parse_url_loop (cs @ rest) p s f fa u =
    parse_url_loop rest (p + length cs) s f fa (u\<lparr>field_len := (field_len u)(f := field_len u f + of_nat (length cs))\<rparr>)"
  using assms
proof (induction cs arbitrary: p u)
  case (Cons c cs)
  have "parse_url_loop ((c # cs) @ rest) p s f fa u = parse_url_loop (cs @ rest) (Suc p) s f fa (incr_len f u)"
    using Cons.prems by (auto simp: Let_def)
  also have "\<dots> = parse_url_loop rest (Suc p + length cs) s f fa
      ((incr_len f u)\<lparr>field_len := (field_len (incr_len f u))(f := field_len (incr_len f u) f + of_nat (length cs))\<rparr>)"
    by (rule Cons.IH) (use Cons.prems in simp_all)
  also have "Suc p + length cs = p + length (c # cs)" by simp
  also have "(incr_len f u)\<lparr>field_len := (field_len (incr_len f u))(f := field_len (incr_len f u) f + of_nat (length cs))\<rparr> =
      u\<lparr>field_len := (field_len u)(f := field_len u f + of_nat (length (c # cs)))\<rparr>"
    by (intro http_parser_url.equality) (auto simp: incr_len_def)
  finally show ?case .
qed simp

lemma url_char_path: "IS_URL_CHAR c \<Longrightarrow> parse_url_char s_req_path c = s_req_path"
proof -
  have "\<not> IS_URL_CHAR c" if "c \<in> {CHR '' '', CR, LF, HT, FF}" for c
  proof -
    have "\<not> IS_URL_CHAR (CHR '' '')" "\<not> IS_URL_CHAR CR" "\<not> IS_URL_CHAR LF" "\<not> IS_URL_CHAR HT" "\<not> IS_URL_CHAR FF"
      by code_simp+
    with that show ?thesis by auto
  qed
  then show "IS_URL_CHAR c \<Longrightarrow> parse_url_char s_req_path c = s_req_path" by (auto simp: parse_url_char_def)
qed

lemma schema_char: "IS_ALPHA c \<Longrightarrow> parse_url_char s_req_schema c = s_req_schema"
  by (simp add: parse_url_char_start)

text \<open>What the scan leaves: the storage's host field is as it was.\<close>

lemma scan_hostless:
  assumes "sch \<noteq> []" "\<forall>c \<in> set sch. IS_ALPHA c" "path = [] \<or> hd path = CHR ''/''" "\<forall>c \<in> set path. IS_URL_CHAR c"
    "\<forall>f. \<not> has_field u f"
  obtains u' where
    "parse_url_loop (sch @ ''://'' @ path) 0 s_req_spaces_before_url UF_MAX False u = Scan_done u' False"
    "\<forall>f. has_field u' f \<longleftrightarrow> f = UF_SCHEMA \<or> f = UF_PATH \<and> path \<noteq> []"
    "field_off u' UF_SCHEMA = 0" "field_len u' UF_SCHEMA = of_nat (length sch)"
    "path \<noteq> [] \<longrightarrow> field_off u' UF_PATH = of_nat (length sch + 3) \<and> field_len u' UF_PATH = of_nat (length path)"
    "field_off u' UF_HOST = field_off u UF_HOST" "field_len u' UF_HOST = field_len u UF_HOST"
proof -
  obtain a cs where sch: "sch = a # cs" using assms(1) by (cases sch) auto
  let ?f = UF_SCHEMA
  define u1 where "u1 = (set_field ?f 0 1 u)\<lparr>field_len := (field_len (set_field ?f 0 1 u))(?f :=
      field_len (set_field ?f 0 1 u) ?f + of_nat (length cs))\<rparr>"
  have "parse_url_loop (sch @ ''://'' @ path) 0 s_req_spaces_before_url UF_MAX False u =
      parse_url_loop (cs @ ''://'' @ path) (Suc 0) s_req_schema UF_SCHEMA False (set_field ?f 0 1 u)"
    using assms(2) alpha_facts(1)[of a] by (auto simp: sch Let_def parse_url_char_start url_state_field_def)
  also have "\<dots> = parse_url_loop (''://'' @ path) (Suc 0 + length cs) s_req_schema UF_SCHEMA False u1"
    unfolding u1_def by (rule parse_url_loop_stay) (use assms(2) in \<open>simp_all add: sch schema_char url_state_field_def\<close>)
  also have "\<dots> = parse_url_loop path (length sch + 3) s_req_server_start UF_SCHEMA False u1"
  proof -
    have "\<not> IS_ALPHA (CHR '':'')" using alpha_facts(1)[of "CHR '':''"] by auto
    then show ?thesis by (simp add: sch Let_def parse_url_char_start numeral_3_eq_3)
  qed
  finally have s: "parse_url_loop (sch @ ''://'' @ path) 0 s_req_spaces_before_url UF_MAX False u =
      parse_url_loop path (length sch + 3) s_req_server_start UF_SCHEMA False u1" .
  have u1: "has_field u1 f \<longleftrightarrow> f = UF_SCHEMA" "field_off u1 UF_SCHEMA = 0" "field_len u1 UF_SCHEMA = of_nat (length sch)"
    "field_off u1 UF_HOST = field_off u UF_HOST" "field_len u1 UF_HOST = field_len u UF_HOST" for f
    using assms(5) by (simp_all add: u1_def sch)
  show thesis
  proof (cases path)
    case Nil
    then show thesis using that[of u1] s u1 by simp
  next
    case (Cons b ps)
    then have b: "b = CHR ''/''" using assms(3) by simp
    let ?u = "set_field UF_PATH (length sch + 3) 1 u1"
    define u2 where "u2 = ?u\<lparr>field_len := (field_len ?u)(UF_PATH := field_len ?u UF_PATH + of_nat (length ps))\<rparr>"
    have "parse_url_char s_req_server_start b = s_req_path"
      by (simp add: b parse_url_char_def url_server_char_def CR_def LF_def HT_def FF_def)
    then have "parse_url_loop path (length sch + 3) s_req_server_start UF_SCHEMA False u1 =
        parse_url_loop (ps @ []) (Suc (length sch + 3)) s_req_path UF_PATH False ?u"
      by (simp add: Cons Let_def url_state_field_def)
    also have "\<dots> = parse_url_loop [] (Suc (length sch + 3) + length ps) s_req_path UF_PATH False u2"
      unfolding u2_def
      by (rule parse_url_loop_stay) (use assms(4) Cons in \<open>simp_all add: url_char_path url_state_field_def\<close>)
    finally have "parse_url_loop (sch @ ''://'' @ path) 0 s_req_spaces_before_url UF_MAX False u = Scan_done u2 False"
      using s by simp
    moreover have "has_field u2 f \<longleftrightarrow> f = UF_SCHEMA \<or> f = UF_PATH" for f
      using u1(1)[of f] by (auto simp: u2_def)
    moreover have "field_off u2 UF_SCHEMA = 0"
      "field_len u2 UF_SCHEMA = of_nat (length sch)" "field_off u2 UF_PATH = of_nat (length sch + 3)"
      "field_len u2 UF_PATH = of_nat (length path)" "field_off u2 UF_HOST = field_off u UF_HOST"
      "field_len u2 UF_HOST = field_len u UF_HOST"
      using u1(2-5) by (simp_all add: u2_def Cons)
    ultimately show thesis using that[of u2] Cons by blast
  qed
qed

text \<open>The host automaton over letters.\<close>

lemma host_of_letters:
  assumes "\<forall>i < n. p + i < length buf \<and> IS_HOST_CHAR (buf ! (p + i))" "s = s_http_host \<or> s = s_http_host_start \<and> 0 < n"
  shows "\<exists>u'. parse_host_loop buf n p s u = Url_ok u' \<and> field_set u' = field_set u \<and>
    (\<forall>f. f \<noteq> UF_HOST \<longrightarrow> field_off u' f = field_off u f \<and> field_len u' f = field_len u f)"
  using assms
proof (induction n arbitrary: p s u)
  case (Suc n)
  have c: "c_str_at buf p = Some (buf ! p)" "IS_HOST_CHAR (buf ! p)"
    using Suc.prems(1)[rule_format, of 0] by (simp_all add: c_str_at_def)
  have "\<not> IS_HOST_CHAR (CHR ''['')" by code_simp
  then have "http_parse_host_char s (buf ! p) = s_http_host"
    using Suc.prems(2) c(2) by (auto simp: http_parse_host_char_def)
  then have "parse_host_loop buf (Suc n) p s u = parse_host_loop buf n (Suc p) s_http_host (host_account s s_http_host p u)"
    using c by simp
  moreover have "\<forall>i < n. Suc p + i < length buf \<and> IS_HOST_CHAR (buf ! (Suc p + i))"
    using Suc.prems(1) by (auto dest: spec[of _ "Suc _"])
  then obtain u' where "parse_host_loop buf n (Suc p) s_http_host (host_account s s_http_host p u) = Url_ok u'"
    "field_set u' = field_set (host_account s s_http_host p u)"
    "\<forall>f. f \<noteq> UF_HOST \<longrightarrow> field_off u' f = field_off (host_account s s_http_host p u) f \<and>
       field_len u' f = field_len (host_account s s_http_host p u) f"
    using Suc.IH[of "Suc p" s_http_host] by blast
  ultimately show ?case by (auto simp: host_account_def incr_len_def split: if_splits)
qed auto

end
