(* ===== verification/Luaw_Http.thy ===== *)
theory Luaw_Http
  imports Http_Inv Http_Url_Inv
begin

text \<open>
  The HTTP library of \<^verbatim>\<open>src/src/luaw_http_parser.c\<close>: the parser object, its callbacks, \<open>parse_http\<close> and
  \<open>luaw_parse_url\<close>. Every callback stores what it was told and pauses the parser, so that a call of
  \<open>parse_http\<close> returns to Lua after at most one event. The callbacks are an instance of the locale
  \<open>http_callbacks\<close>, which gives the safety of \<open>parse_http\<close>; a measure of the work left gives its
  progress.
\<close>

section \<open>The parser object of the Lua library\<close>

datatype (plugins only: code size) http_parser_cb_type =
    http_cb_none | http_cb_on_message_begin | http_cb_on_status | http_cb_on_url
  | http_cb_on_header_field | http_cb_on_header_value | http_cb_on_headers_complete
  | http_cb_on_body | http_cb_on_mesg_complete

text \<open>
  The fields of \<open>luaw_http_parser_t\<close> beside the embedded \<open>http_parser\<close>: the last callback and what it
  reported. \<open>cb_start\<close> is \<open>start\<close> as an offset into the bytes given to \<open>http_parser_execute\<close>, with
  \<^const>\<open>None\<close> for \<open>NULL\<close>. \<open>cb_abort\<close> records a failed assertion inside the callback.
\<close>

record callback_info =
  cb_type :: http_parser_cb_type
  cb_start :: "nat option"
  cb_len :: nat
  cb_abort :: bool

record luaw_http_parser =
  lh_parser :: http_parser
  lh_info :: callback_info

definition new_lhttp_parser :: "http_parser_type \<Rightarrow> callback_info \<Rightarrow> luaw_http_parser" where
  "new_lhttp_parser t uninit = \<lparr> lh_parser = http_parser_init t, lh_info = uninit \<rparr>"

definition luaw_new_http_request_parser :: "callback_info \<Rightarrow> luaw_http_parser" where
  "luaw_new_http_request_parser uninit = new_lhttp_parser HTTP_REQUEST uninit"

definition luaw_new_http_response_parser :: "callback_info \<Rightarrow> luaw_http_parser" where
  "luaw_new_http_response_parser uninit = new_lhttp_parser HTTP_RESPONSE uninit"

definition luaw_init_http_parser :: "luaw_http_parser \<Rightarrow> luaw_http_parser" where
  "luaw_init_http_parser lp = lp\<lparr>lh_parser := http_parser_init (hp_type (lh_parser lp))\<rparr>"

section \<open>The callbacks\<close>

definition handle_http_callback ::
  "http_parser_cb_type \<Rightarrow> nat option \<Rightarrow> nat \<Rightarrow> callback_info \<Rightarrow> http_parser \<Rightarrow>
     int \<times> callback_info \<times> http_parser" where
  "handle_http_callback cb start len info q =
     (let info' = info\<lparr>cb_type := cb, cb_start := start, cb_len := len\<rparr> in
      case http_parser_pause q True of
        Some q' \<Rightarrow> (0, info', q')
      | None \<Rightarrow> (0, info'\<lparr>cb_abort := True\<rparr>, q))"

definition http_parser_on_message_begin :: "callback_info http_cb" where
  "http_parser_on_message_begin info q = handle_http_callback http_cb_on_message_begin None 0 info q"

definition http_parser_on_url :: "callback_info http_data_cb" where
  "http_parser_on_url info q at n = handle_http_callback http_cb_on_url (Some at) n info q"

definition http_parser_on_status :: "callback_info http_data_cb" where
  "http_parser_on_status info q at n = handle_http_callback http_cb_on_status (Some at) n info q"

definition http_parser_on_header_name :: "callback_info http_data_cb" where
  "http_parser_on_header_name info q at n = handle_http_callback http_cb_on_header_field (Some at) n info q"

definition http_parser_on_header_value :: "callback_info http_data_cb" where
  "http_parser_on_header_value info q at n = handle_http_callback http_cb_on_header_value (Some at) n info q"

definition http_parser_on_headers_complete :: "callback_info http_cb" where
  "http_parser_on_headers_complete info q =
     handle_http_callback http_cb_on_headers_complete None 0 info q"

definition http_parser_on_body :: "callback_info http_data_cb" where
  "http_parser_on_body info q at n = handle_http_callback http_cb_on_body (Some at) n info q"

definition http_parser_on_message_complete :: "callback_info http_cb" where
  "http_parser_on_message_complete info q =
     handle_http_callback http_cb_on_mesg_complete None 0 info q"

lemmas callback_defs = http_parser_on_message_begin_def http_parser_on_url_def
  http_parser_on_status_def http_parser_on_header_name_def http_parser_on_header_value_def
  http_parser_on_headers_complete_def http_parser_on_body_def http_parser_on_message_complete_def

definition parser_settings :: "callback_info http_parser_settings" where
  "parser_settings =
     \<lparr> on_message_begin = Some http_parser_on_message_begin,
       on_url = Some http_parser_on_url,
       on_status = Some http_parser_on_status,
       on_header_field = Some http_parser_on_header_name,
       on_header_value = Some http_parser_on_header_value,
       on_headers_complete = Some http_parser_on_headers_complete,
       on_body = Some http_parser_on_body,
       on_message_complete = Some http_parser_on_message_complete \<rparr>"

section \<open>parse\_http\<close>

text \<open>
  The values that \<open>parse_http\<close> leaves on the Lua stack: an error with its message, or the number of
  the callback, the new offset and what the callback reported. \<open>Parse_abort\<close> is a failed
  assertion (in the parser, in a callback or in the final \<open>http_parser_pause\<close>); \<open>Parse_crash\<close> stands for a
  wild read, a parser that does not return, or a pushed string outside the buffer.
\<close>

datatype parse_result =
    Wrong_offset
  | Parse_error http_errno nat
  | Headers_complete int bool "16 word" "16 word" "string option" "16 word option"
  | No_callback int bool
  | Message_complete int bool
  | Part http_parser_cb_type int string
  | Parse_abort
  | Parse_crash

definition push_results :: "luaw_http_parser \<Rightarrow> string \<Rightarrow> int \<Rightarrow> parse_result option" where
  "push_results lp data offset =
     (let q = lh_parser lp; info = lh_info lp in
      case cb_type info of
        http_cb_on_headers_complete \<Rightarrow>
          Some (Headers_complete offset (http_should_keep_alive q) (hp_http_major q) (hp_http_minor q)
            (if hp_type q = HTTP_REQUEST then Some (method_strings (hp_method q)) else None)
            (if hp_type q = HTTP_RESPONSE then Some (hp_status_code q) else None))
      | http_cb_none \<Rightarrow> Some (No_callback offset (http_should_keep_alive q))
      | http_cb_on_mesg_complete \<Rightarrow> Some (Message_complete offset (http_should_keep_alive q))
      | cb \<Rightarrow> (case cb_start info of
          None \<Rightarrow> if cb_len info = 0 then Some (Part cb offset []) else None
        | Some at \<Rightarrow> if at + cb_len info \<le> length data
                     then Some (Part cb offset (span at (cb_len info) data)) else None))"

text \<open>
  \<open>parse_http\<close> on the string \<open>buff\<close> from \<open>offset\<close>. The test \<open>offset > len\<close> compares as \<open>size_t\<close>, so a
  negative offset is too large. Lengths and offsets are below \<open>2 ^ 31\<close>, where the casts to \<open>int\<close> keep
  them; \<open>remaining\<close> is \<open>-1\<close> when the parser reports one byte more than it was given.
\<close>

definition parse_http ::
  "luaw_http_parser \<Rightarrow> string \<Rightarrow> int \<Rightarrow> luaw_http_parser \<times> parse_result" where
  "parse_http lp buff offset =
     (if offset < 0 \<or> offset > int (length buff) then (lp, Wrong_offset)
      else
        let data = drop (nat offset) buff;
            info = (lh_info lp)\<lparr>cb_type := http_cb_none\<rparr>
        in case http_parser_execute parser_settings (lh_parser lp) info data of
             (q, info', Parsed nparsed) \<Rightarrow>
               let offset' = offset + int nparsed;
                   remaining = int (length buff) - offset';
                   lp' = \<lparr> lh_parser = q, lh_info = info' \<rparr>
               in if cb_abort info' then (lp', Parse_abort)
                  else if remaining > 0 \<and> hp_errno q \<noteq> HPE_PAUSED
                  then (lp', Parse_error (hp_errno q) nparsed)
                  else (case push_results lp' data offset' of
                          None \<Rightarrow> (lp', Parse_crash)
                        | Some r \<Rightarrow>
                            (case http_parser_pause q False of
                               None \<Rightarrow> (lp', Parse_abort)
                             | Some q' \<Rightarrow> (lp'\<lparr>lh_parser := q'\<rparr>, r)))
           | (q, info', Aborted) \<Rightarrow> (\<lparr> lh_parser = q, lh_info = info' \<rparr>, Parse_abort)
           | (q, info', _) \<Rightarrow> (\<lparr> lh_parser = q, lh_info = info' \<rparr>, Parse_crash))"

section \<open>The callbacks meet the parser's contract\<close>

text \<open>What is reported is in bounds; before the first callback of a call nothing is reported.\<close>

definition report_ok :: "nat \<Rightarrow> callback_info \<Rightarrow> bool" where
  "report_ok len info \<longleftrightarrow> \<not> cb_abort info \<and> (cb_type info \<noteq> http_cb_none \<longrightarrow>
     (case cb_start info of None \<Rightarrow> cb_len info = 0 | Some at \<Rightarrow> at + cb_len info \<le> len))"

interpretation luaw: http_callbacks parser_settings report_ok
  by unfold_locales
     (auto simp: cb_ok_def data_cb_ok_def parser_settings_def callback_defs handle_http_callback_def
        http_parser_pause_def only_pauses_def report_ok_def Let_def)

lemma execute_no_crash:
  assumes "wf_parser ps" "\<not> cb_abort info" "cb_type info = http_cb_none" "data \<noteq> []"
    "http_parser_execute parser_settings ps info data = (q, info', e)"
  shows "\<exists>n. e = Parsed n \<and> n \<le> length data \<and> report_ok (length data) info'
    \<and> (hp_errno q \<in> {HPE_OK, HPE_PAUSED} \<longrightarrow> wf_parser q)"
  using luaw.execute_ok[OF assms(1) _ assms(4), of info] assms
  by (auto simp: report_ok_def exec_ok_def split: exec_end.splits)


section \<open>Every callback suspends the parser\<close>

definition suspend ::
  "http_parser_cb_type \<Rightarrow> nat option \<Rightarrow> nat \<Rightarrow> callback_info exec_ctx \<Rightarrow> callback_info exec_ctx" where
  "suspend cb start len c = c\<lparr>parser := (parser c)\<lparr>hp_errno := HPE_PAUSED\<rparr>,
     udata := (udata c)\<lparr>cb_type := cb, cb_start := start, cb_len := len\<rparr>\<rparr>"

lemma suspend_simps [simp]:
  "hp_errno (parser (suspend cb st n c)) = HPE_PAUSED"
  "hp_state (parser (suspend cb st n c)) = hp_state (parser c)"
  "pos (suspend cb st n c) = pos c"
  by (simp_all add: suspend_def)

lemma luaw_notify:
  assumes "hp_errno (parser c) = HPE_OK"
  shows "notify_message_begin parser_settings ret c = (suspend http_cb_on_message_begin None 0 c, Return ret)"
    and "notify_message_complete parser_settings ret c = (suspend http_cb_on_mesg_complete None 0 c, Return ret)"
    and "call_headers_complete parser_settings c = (suspend http_cb_on_headers_complete None 0 c, Next)"
  using assms
  by (simp_all add: notify_message_begin_def notify_message_complete_def CALLBACK_NOTIFY_def
      call_headers_complete_def parser_settings_def callback_defs handle_http_callback_def
      http_parser_pause_def suspend_def)

definition report ::
  "http_parser_cb_type \<Rightarrow> nat option \<Rightarrow> nat \<Rightarrow> nat \<Rightarrow> callback_info exec_ctx \<Rightarrow> callback_info step_result" where
  "report cb mark extra ret c = (case mark of
     None \<Rightarrow> (c, Next)
   | Some m \<Rightarrow> (suspend cb (Some m) (pos c - m + extra) c, Return ret))"

lemma luaw_data:
  assumes "hp_errno (parser c) = HPE_OK"
  shows "data_header_field parser_settings ret c = report http_cb_on_header_field (header_field_mark c) 0 ret c"
    and "data_header_value parser_settings ret c = report http_cb_on_header_value (header_value_mark c) 0 ret c"
    and "data_url parser_settings ret c = report http_cb_on_url (url_mark c) 0 ret c"
    and "data_status parser_settings ret c = report http_cb_on_status (status_mark c) 0 ret c"
    and "data_body parser_settings ex ret c = report http_cb_on_body (body_mark c) ex ret c"
  using assms
  by (simp_all add: data_header_field_def data_header_value_def data_url_def data_status_def data_body_def
      CALLBACK_DATA_def parser_settings_def callback_defs handle_http_callback_def report_def
      http_parser_pause_def suspend_def split: option.split)

section \<open>Progress\<close>

text \<open>
  A call may stop without consuming a byte, but only by moving to one of three states, and from
  these states a call always consumes.
\<close>

definition settled :: "state \<Rightarrow> bool" where
  "settled s \<longleftrightarrow> s \<in> {s_header_almost_done, s_headers_done, s_message_done}"

definition progress :: "nat \<Rightarrow> state \<Rightarrow> callback_info step_result \<Rightarrow> bool" where
  "progress p s res = (case res of (c, k) \<Rightarrow> (case k of
     Return n \<Rightarrow> hp_errno (parser c) = HPE_PAUSED \<and> p \<le> n \<and>
       (n = p \<longrightarrow> settled (hp_state (parser c)) \<and> \<not> settled s)
   | Reexecute \<Rightarrow> hp_errno (parser c) = HPE_OK \<and> \<not> settled s
   | Next \<Rightarrow> hp_errno (parser c) = HPE_OK
   | Goto_error \<Rightarrow> hp_errno (parser c) \<notin> {HPE_OK, HPE_PAUSED}
   | _ \<Rightarrow> True))"

lemma progress_simps [simp]:
  "progress p s (c, Next) \<longleftrightarrow> hp_errno (parser c) = HPE_OK"
  "progress p s (c, Reexecute) \<longleftrightarrow> hp_errno (parser c) = HPE_OK \<and> \<not> settled s"
  "progress p s (c, Return n) \<longleftrightarrow> hp_errno (parser c) = HPE_PAUSED \<and> p \<le> n \<and>
     (n = p \<longrightarrow> settled (hp_state (parser c)) \<and> \<not> settled s)"
  "progress p s (fail e c) \<longleftrightarrow> e \<notin> {HPE_OK, HPE_PAUSED}"
  "progress p s (c, Abort)" "progress p s (c, Bad_read)"
  by (auto simp: progress_def fail_def set_errno_def)

lemma progress_checks [simp]:
  "progress p s (STRICT_CHECK b c r) \<longleftrightarrow> b \<or> progress p s r"
  "progress p s (ASSERT b c r) \<longleftrightarrow> \<not> b \<or> progress p s r"
  by (auto simp: STRICT_CHECK_def ASSERT_def)

lemma progress_report [simp]:
  "progress p s (report cb m ex ret c) \<longleftrightarrow> (if m = None then hp_errno (parser c) = HPE_OK
     else p \<le> ret \<and> (ret = p \<longrightarrow> settled (hp_state (parser c)) \<and> \<not> settled s))"
  by (auto simp: report_def split: option.splits)

lemma progress_report_again [simp]:
  "progress p s (and_then (report cb m ex ret c) (\<lambda>c1. (c1, Reexecute))) \<longleftrightarrow>
     (if m = None then hp_errno (parser c) = HPE_OK \<and> \<not> settled s
      else p \<le> ret \<and> (ret = p \<longrightarrow> settled (hp_state (parser c)) \<and> \<not> settled s))"
  by (auto simp: report_def split: option.splits)

lemma state_set [simp]: "hp_state (parser (set_state s c)) = s"
  by (simp add: set_state_def)

lemma errno_set [simp]:
  "hp_errno (parser (set_state s c)) = hp_errno (parser c)"
  "hp_errno (parser (set_header_state h c)) = hp_errno (parser c)"
  "hp_errno (parser (set_index i c)) = hp_errno (parser c)"
  "hp_errno (parser (add_flag f c)) = hp_errno (parser c)"
  by (simp_all add: set_state_def set_header_state_def set_index_def add_flag_def)

lemma dispatch_progress:
  assumes "hp_errno (parser c) = HPE_OK" "pos c < len"
  shows "progress (pos c) (hp_state (parser c)) (dispatch parser_settings len ch c)"
  using assms pos_take_body[OF assms(2)]
  by (cases "hp_state (parser c)")
     (simp_all add: dispatch_def handler_defs Let_def luaw_notify luaw_data settled_def take_body_fields
        del: call_headers_complete_def split: option.split header_states.split)


lemma progress_later:
  "progress p' s' r \<Longrightarrow> p \<le> p' \<Longrightarrow> \<not> settled s \<Longrightarrow> progress p s r"
  by (cases r; cases "snd r") (auto simp: progress_def)

lemma run_byte_progress:
  "hp_errno (parser c) = HPE_OK \<Longrightarrow> pos c < len \<Longrightarrow>
     progress (pos c) (hp_state (parser c)) (run_byte (Suc n) parser_settings len ch c)"
proof (induction n arbitrary: c)
  case 0
  then show ?case using dispatch_progress[OF 0, of ch]
    by (auto split: prod.split ctl.split)
next
  case (Suc n)
  obtain c' k where d: "dispatch parser_settings len ch c = (c', k)" by fastforce
  have p: "progress (pos c) (hp_state (parser c)) (c', k)"
    using dispatch_progress[OF Suc.prems, of ch] d by simp
  have b: "pos c \<le> pos c'" "pos c' < len" using pos_dispatch[OF Suc.prems(2), of parser_settings ch] d by simp_all
  show ?case
  proof (cases "k = Reexecute")
    case True
    with p have "hp_errno (parser c') = HPE_OK" "\<not> settled (hp_state (parser c))" by simp_all
    with progress_later[OF Suc.IH[OF this(1) b(2)] b(1)] d True show ?thesis by simp
  next
    case False
    with p d show ?thesis by (cases k) simp_all
  qed
qed

definition exec_progress :: "nat \<Rightarrow> nat \<Rightarrow> state \<Rightarrow> callback_info exec_result \<Rightarrow> bool" where
  "exec_progress len p s res = (case res of (q, u, e) \<Rightarrow> (case e of
     Parsed n \<Rightarrow> (if hp_errno q = HPE_PAUSED
                  then p \<le> n \<and> (n = p \<and> p < len \<longrightarrow> settled (hp_state q) \<and> \<not> settled s)
                  else if hp_errno q = HPE_OK then n = len else n < len)
   | _ \<Rightarrow> True))"

lemma finish_progress:
  "progress p s (c, k) \<Longrightarrow> k \<noteq> Next \<Longrightarrow> pos c < len \<Longrightarrow> exec_progress len p s (finish (c, k))"
  by (cases k) (auto simp: exec_progress_def finish_def progress_def at_error_def Let_def)

lemma after_loop_progress:
  assumes "hp_errno (parser c) = HPE_OK" "pos c = len"
  shows "exec_progress len len s (after_loop parser_settings len c)"
  using assms
  by (auto simp: after_loop_def ASSERT_def luaw_data report_def finish_def exec_progress_def
      split: option.split)

lemma exec_loop_progress:
  "hp_errno (parser c) = HPE_OK \<Longrightarrow> pos c \<le> length data \<Longrightarrow>
     exec_progress (length data) (pos c) (hp_state (parser c)) (exec_loop parser_settings data c)"
proof (induction "length data - pos c" arbitrary: c rule: less_induct)
  case less
  let ?n = "length data"
  consider "pos c = ?n" | "pos c < ?n" "header_overflow c" | "pos c < ?n" "\<not> header_overflow c"
    using less.prems by linarith
  then show ?case
  proof cases
    case 1
    with less.prems show ?thesis using after_loop_progress[of c ?n] by (simp add: exec_loop_end)
  next
    case 2
    then show ?thesis
      by (simp add: exec_loop_overflow exec_progress_def at_error_def set_errno_def count_byte_def)
  next
    case 3
    obtain c2 k where r: "run_byte reexecute_bound parser_settings ?n (data ! pos c) (count_byte c) = (c2, k)"
      by fastforce
    have c: "hp_errno (parser (count_byte c)) = HPE_OK"
        "hp_state (parser (count_byte c)) = hp_state (parser c)"
      using less.prems(1) by (simp_all add: count_byte_def)
    have p: "progress (pos c) (hp_state (parser c)) (c2, k)"
      using run_byte_progress[OF c(1), of ?n 4 "data ! pos c"] 3 r c(2)
      by (simp add: reexecute_bound_def del: run_byte.simps)
    have p2: "pos c \<le> pos c2" "pos c2 < ?n" using run_byte_pos[OF r] 3 by simp_all
    show ?thesis
    proof (cases "k = Next")
      case True
      let ?c = "c2\<lparr>pos := pos c2 + 1\<rparr>"
      have "exec_progress ?n (pos ?c) (hp_state (parser ?c)) (exec_loop parser_settings data ?c)"
        using p True p2 by (intro less.hyps) simp_all
      then have "exec_progress ?n (pos c) (hp_state (parser c)) (exec_loop parser_settings data ?c)"
        using p2 by (auto simp: exec_progress_def split: prod.splits exec_end.splits if_splits)
      then show ?thesis using exec_loop_next[OF 3 r[unfolded True]] by simp
    next
      case False
      with finish_progress[OF p] exec_loop_stop[OF 3 r] p2 show ?thesis by simp
    qed
  qed
qed

lemma execute_progress:
  assumes "hp_errno ps = HPE_OK" "data \<noteq> []"
  shows "exec_progress (length data) 0 (hp_state ps) (http_parser_execute parser_settings ps info data)"
  using exec_loop_progress[of "enter ps info" data] assms
  by (simp add: http_parser_execute_def enter_def)


section \<open>parse\_http as a whole\<close>

definition lp_ok :: "luaw_http_parser \<Rightarrow> bool" where
  "lp_ok lp \<longleftrightarrow> wf_parser (lh_parser lp) \<and> hp_errno (lh_parser lp) = HPE_OK \<and> \<not> cb_abort (lh_info lp)"

text \<open>The offset that a successful call hands back.\<close>

fun result_offset :: "parse_result \<Rightarrow> int option" where
  "result_offset (Headers_complete off ka ma mi m st) = Some off"
| "result_offset (No_callback off ka) = Some off"
| "result_offset (Message_complete off ka) = Some off"
| "result_offset (Part cb off s) = Some off"
| "result_offset _ = None"

text \<open>
  Work left: two units per byte, and one more unless the parser is in one of the states that
  always consume.
\<close>

definition work :: "luaw_http_parser \<Rightarrow> string \<Rightarrow> int \<Rightarrow> nat" where
  "work lp buff offset = 2 * nat (int (length buff) - offset)
     + (if settled (hp_state (lh_parser lp)) then 0 else 1)"

lemma push_results_ok:
  assumes "report_ok (length data) info"
  shows "\<exists>r. push_results \<lparr>lh_parser = q, lh_info = info\<rparr> data off = Some r \<and> result_offset r = Some off"
  using assms
  by (cases "cb_type info") (auto simp: push_results_def report_ok_def split: option.splits)

lemma parse_http_cases:
  assumes "lp_ok lp" "0 \<le> offset" "offset < int (length buff)"
  obtains q info n where
      "http_parser_execute parser_settings (lh_parser lp) ((lh_info lp)\<lparr>cb_type := http_cb_none\<rparr>)
         (drop (nat offset) buff) = (q, info, Parsed n)"
      "report_ok (length buff - nat offset) info" "n \<le> length buff - nat offset"
      "hp_errno q \<in> {HPE_OK, HPE_PAUSED} \<longrightarrow> wf_parser q"
      "exec_progress (length buff - nat offset) 0 (hp_state (lh_parser lp)) (q, info, Parsed n)"
proof -
  let ?data = "drop (nat offset) buff" and ?info = "(lh_info lp)\<lparr>cb_type := http_cb_none\<rparr>"
  have ne: "?data \<noteq> []" using assms by auto
  obtain q info e where r: "http_parser_execute parser_settings (lh_parser lp) ?info ?data = (q, info, e)"
    by (metis prod_cases3)
  have "\<exists>n. e = Parsed n \<and> n \<le> length ?data \<and> report_ok (length ?data) info
    \<and> (hp_errno q \<in> {HPE_OK, HPE_PAUSED} \<longrightarrow> wf_parser q)"
    by (rule execute_no_crash[OF _ _ _ ne r]) (use assms(1) in \<open>simp_all add: lp_ok_def\<close>)
  moreover have "exec_progress (length ?data) 0 (hp_state (lh_parser lp)) (q, info, e)"
    using execute_progress[OF _ ne, of "lh_parser lp" ?info] assms(1) r by (simp add: lp_ok_def)
  ultimately show ?thesis using that r by auto
qed

lemma parse_http_ok:
  assumes "lp_ok lp" "0 \<le> offset" "offset < int (length buff)" "parse_http lp buff offset = (lp', r)"
  shows "(\<exists>e n. r = Parse_error e n \<and> e \<notin> {HPE_OK, HPE_PAUSED} \<and> n < length buff - nat offset) \<or>
     (\<exists>off. result_offset r = Some off \<and> offset \<le> off \<and> off \<le> int (length buff) \<and> lp_ok lp'
        \<and> work lp' buff off < work lp buff offset)"
proof -
  obtain q info n where x:
      "http_parser_execute parser_settings (lh_parser lp) ((lh_info lp)\<lparr>cb_type := http_cb_none\<rparr>)
         (drop (nat offset) buff) = (q, info, Parsed n)"
      "report_ok (length buff - nat offset) info" "n \<le> length buff - nat offset"
      "hp_errno q \<in> {HPE_OK, HPE_PAUSED} \<longrightarrow> wf_parser q"
      "exec_progress (length buff - nat offset) 0 (hp_state (lh_parser lp)) (q, info, Parsed n)"
    using parse_http_cases[OF assms(1-3)] .
  let ?len = "length buff - nat offset"
  have ab: "\<not> cb_abort info" using x(2) by (simp add: report_ok_def)
  show ?thesis
  proof (cases "hp_errno q \<in> {HPE_OK, HPE_PAUSED}")
    case False
    then have "n < ?len" using x(5) by (auto simp: exec_progress_def split: if_splits)
    then have "int (length buff) - (offset + int n) > 0" using assms(2) by linarith
    with False x(1) ab assms show ?thesis
      by (auto simp: parse_http_def Let_def \<open>n < ?len\<close>)
  next
    case True
    obtain r' where r': "push_results \<lparr>lh_parser = q, lh_info = info\<rparr> (drop (nat offset) buff) (offset + int n) = Some r'"
        "result_offset r' = Some (offset + int n)"
      using push_results_ok[of "drop (nat offset) buff" info q] x(2) by auto
    have rem: "\<not> (int (length buff) - (offset + int n) > 0 \<and> hp_errno q \<noteq> HPE_PAUSED)"
      using x(5) True assms(2,3) by (auto simp: exec_progress_def split: if_splits)
    have "r = r' \<and> lp' = \<lparr>lh_parser = q\<lparr>hp_errno := HPE_OK\<rparr>, lh_info = info\<rparr>"
      using assms(2-4) x(1) ab True rem r'(1)
      by (auto simp: parse_http_def Let_def http_parser_pause_def)
    moreover have "lp_ok \<lparr>lh_parser = q\<lparr>hp_errno := HPE_OK\<rparr>, lh_info = info\<rparr>"
      using x(4) True ab by (auto simp: lp_ok_def)
    moreover have "0 < n \<or> n = 0 \<and> settled (hp_state q) \<and> \<not> settled (hp_state (lh_parser lp))"
      using x(5) True assms(2,3) by (auto simp: exec_progress_def split: if_splits)
    then have "work \<lparr>lh_parser = q\<lparr>hp_errno := HPE_OK\<rparr>, lh_info = info\<rparr> buff (offset + int n) < work lp buff offset"
      using x(3) assms(2,3) by (auto simp: work_def)
    ultimately show ?thesis
      using r'(2) x(3) assms(2,3) by auto
  qed
qed

text \<open>A driver that calls \<open>parse_http\<close> until the buffer is used up, as the Lua library does.\<close>

fun drain :: "nat \<Rightarrow> luaw_http_parser \<Rightarrow> string \<Rightarrow> int \<Rightarrow> (luaw_http_parser \<times> parse_result list) option" where
  "drain 0 lp buff offset = None"
| "drain (Suc k) lp buff offset =
     (if offset \<ge> int (length buff) then Some (lp, [])
      else case parse_http lp buff offset of (lp', r) \<Rightarrow>
        (case result_offset r of
           None \<Rightarrow> Some (lp', [r])
         | Some off \<Rightarrow> map_option (apsnd ((#) r)) (drain k lp' buff off)))"

lemma drain_returns:
  "lp_ok lp \<Longrightarrow> 0 \<le> offset \<Longrightarrow> work lp buff offset < k \<Longrightarrow>
     \<exists>lp' rs. drain k lp buff offset = Some (lp', rs) \<and> {Parse_abort, Parse_crash} \<inter> set rs = {} \<and> Wrong_offset \<notin> set rs"
proof (induction k arbitrary: lp offset)
  case (Suc k)
  show ?case
  proof (cases "offset < int (length buff)")
    case True
    obtain lp' r where p: "parse_http lp buff offset = (lp', r)" by fastforce
    from parse_http_ok[OF Suc.prems(1,2) True p] show ?thesis
    proof (elim disjE exE conjE)
      fix e n assume "r = Parse_error e n"
      with True p show ?thesis by simp
    next
      fix off assume o: "result_offset r = Some off" "offset \<le> off" "lp_ok lp'"
          "work lp' buff off < work lp buff offset"
      then have "0 \<le> off" "work lp' buff off < k" using Suc.prems by simp_all
      with Suc.IH[OF o(3)] o(1) True p show ?thesis by fastforce
    qed
  qed simp
qed simp

section \<open>luaw\_parse\_url\<close>

fun url_field_names :: "url_field \<Rightarrow> string" where
  "url_field_names UF_SCHEMA = ''schema''"
| "url_field_names UF_HOST = ''host''"
| "url_field_names UF_PORT = ''port''"
| "url_field_names UF_PATH = ''path''"
| "url_field_names UF_QUERY = ''queryString''"
| "url_field_names UF_FRAGMENT = ''fragment''"
| "url_field_names UF_USERINFO = ''userInfo''"
| "url_field_names UF_MAX = []"

text \<open>
  The table of URL parts as an association list. \<^const>\<open>None\<close> in \<open>push_url_part\<close> is a string pushed from
  outside the buffer.
\<close>

definition push_url_part ::
  "string \<Rightarrow> http_parser_url \<Rightarrow> url_field \<Rightarrow> (string \<times> string) list \<Rightarrow> (string \<times> string) list option" where
  "push_url_part buff u f table =
     (if has_field u f then
        (let off = unat (field_off u f); len = unat (field_len u f) in
         if off + len \<le> length buff then Some (table @ [(url_field_names f, span off len buff)]) else None)
      else Some table)"

datatype parse_url_end = Url_nil | Url_table "(string \<times> string) list" | Url_crash

fun push_url_parts ::
  "string \<Rightarrow> http_parser_url \<Rightarrow> url_field list \<Rightarrow> (string \<times> string) list \<Rightarrow> (string \<times> string) list option" where
  "push_url_parts buff u [] table = Some table"
| "push_url_parts buff u (f # fs) table =
     (case push_url_part buff u f table of None \<Rightarrow> None | Some t \<Rightarrow> push_url_parts buff u fs t)"

definition luaw_parse_url :: "http_parser_url \<Rightarrow> string \<Rightarrow> bool \<Rightarrow> parse_url_end" where
  "luaw_parse_url uninit buff is_connect = (case http_parser_parse_url buff is_connect uninit of
     Url_ok u \<Rightarrow>
       (case push_url_parts buff u
               [UF_SCHEMA, UF_HOST, UF_PORT, UF_PATH, UF_QUERY, UF_FRAGMENT, UF_USERINFO] [] of
          Some t \<Rightarrow> Url_table t
        | None \<Rightarrow> Url_crash)
   | Url_bad \<Rightarrow> Url_nil
   | _ \<Rightarrow> Url_crash)"

lemma push_url_parts_ok: "ends_by u (length buff) \<Longrightarrow> push_url_parts buff u fs t \<noteq> None"
  by (induction fs arbitrary: t) (auto simp: push_url_part_def ends_by_def field_end_def Let_def)

section \<open>Properties\<close>

text \<open>
  C2 A call of \<open>parse_http\<close> on a usable parser with bytes left never crashes or fails an assertion: it either reports a
  parse error with the number of bytes that were accepted, or hands back an offset inside the buffer
  and a parser that is usable again, having come strictly closer to the end of its work.
\<close>

theorem parse_http_safe:
  assumes "lp_ok lp" "0 \<le> offset" "offset < int (length buff)"
  shows "case parse_http lp buff offset of (lp', r) \<Rightarrow>
     (\<exists>e n. r = Parse_error e n \<and> e \<notin> {HPE_OK, HPE_PAUSED} \<and> n < length buff - nat offset) \<or>
     (\<exists>off. result_offset r = Some off \<and> offset \<le> off \<and> off \<le> int (length buff) \<and> lp_ok lp'
        \<and> work lp' buff off < work lp buff offset)"
  using parse_http_ok[OF assms] by (simp split: prod.split)

definition fresh_info :: callback_info where
  "fresh_info = \<lparr> cb_type = http_cb_none, cb_start = None, cb_len = 0, cb_abort = False \<rparr>"

lemma fresh_parser_ok: "\<not> cb_abort info \<Longrightarrow> lp_ok (new_lhttp_parser t info)"
  using wf_parser_init[of t] by (simp add: lp_ok_def new_lhttp_parser_def http_parser_init_def)

theorem parse_http_safe_witness:
  "case parse_http (luaw_new_http_request_parser fresh_info) ''GET'' 0 of (lp', r) \<Rightarrow>
     (\<exists>e n. r = Parse_error e n \<and> e \<notin> {HPE_OK, HPE_PAUSED} \<and> n < length ''GET'' - nat 0) \<or>
     (\<exists>off. result_offset r = Some off \<and> 0 \<le> off \<and> off \<le> int (length ''GET'') \<and> lp_ok lp'
        \<and> work lp' ''GET'' off < work (luaw_new_http_request_parser fresh_info) ''GET'' 0)"
  by (rule parse_http_safe)
     (simp_all add: luaw_new_http_request_parser_def fresh_parser_ok fresh_info_def)

text \<open>
  C3 Calling \<open>parse_http\<close> again and again until the buffer is used up ends: after at most
  \<open>2 * length buff + 2\<close> calls the whole buffer is consumed or an error is reported, and no call crashes.
\<close>

theorem parse_http_drains:
  assumes "lp_ok lp"
  shows "\<exists>lp' rs. drain (2 * length buff + 2) lp buff 0 = Some (lp', rs)
    \<and> {Parse_abort, Parse_crash} \<inter> set rs = {} \<and> Wrong_offset \<notin> set rs"
  using assms by (rule drain_returns) (simp_all add: work_def)

theorem parse_http_drains_witness:
  "\<exists>lp' rs. drain (2 * length ''GET / HTTP/1.1'' + 2) (luaw_new_http_request_parser fresh_info)
      ''GET / HTTP/1.1'' 0 = Some (lp', rs) \<and> {Parse_abort, Parse_crash} \<inter> set rs = {} \<and> Wrong_offset \<notin> set rs"
  by (rule parse_http_drains) (simp add: luaw_new_http_request_parser_def fresh_parser_ok fresh_info_def)

text \<open>
  C33 A call with no bytes left in the middle of a message brings the process down: the parser reports
  the unexpected end, \<open>parse_http\<close> overlooks it because nothing remains, and un-pausing a parser in
  error fails an assertion.
\<close>

theorem parse_http_eof_crash:
  assumes "hp_errno (lh_parser lp) = HPE_OK" "\<not> cb_abort (lh_info lp)"
    "hp_state (lh_parser lp) \<notin> {s_dead, s_start_req_or_res, s_start_res, s_start_req, s_body_identity_eof}"
  shows "snd (parse_http lp buff (int (length buff))) = Parse_abort"
  using assms
  by (simp add: parse_http_def http_parser_execute_def execute_eof_def Let_def http_parser_pause_def
      push_results_def)

theorem parse_http_eof_crash_witness:
  "snd (parse_http ((luaw_new_http_request_parser fresh_info)\<lparr>lh_parser :=
      (http_parser_init HTTP_REQUEST)\<lparr>hp_state := s_req_method\<rparr>\<rparr>) ''GET'' (int (length ''GET''))) = Parse_abort"
  by (rule parse_http_eof_crash)
     (simp_all add: luaw_new_http_request_parser_def new_lhttp_parser_def fresh_info_def http_parser_init_def)

text \<open>
  C13 For URLs of at most 65535 bytes \<open>luaw_parse_url\<close> fails no assertion and takes every part of the URL from
  inside the string, with one exception: the malloc'ed storage holds a host length other than zero, the call
  is not for \<open>CONNECT\<close>, and the URL has a schema and no host.
\<close>

theorem luaw_parse_url_safe:
  assumes "length buff \<le> 65535" "luaw_parse_url uninit buff is_connect = Url_crash"
  shows "field_len uninit UF_HOST \<noteq> 0 \<and> \<not> is_connect \<and> hostless buff"
proof (rule ccontr)
  assume "\<not> ?thesis"
  then have ok: "host_ok (length buff) (http_parser_parse_url buff is_connect uninit)"
    by (intro parse_url_in_bounds[OF assms(1)]) auto
  show False
  proof (cases "http_parser_parse_url buff is_connect uninit")
    case (Url_ok u)
    with ok have "ends_by u (length buff)" by simp
    then obtain t where "push_url_parts buff u
        [UF_SCHEMA, UF_HOST, UF_PORT, UF_PATH, UF_QUERY, UF_FRAGMENT, UF_USERINFO] [] = Some t"
      using push_url_parts_ok by blast
    then show False using Url_ok assms(2) by (simp add: luaw_parse_url_def del: push_url_parts.simps)
  qed (use ok assms(2) in \<open>simp_all add: luaw_parse_url_def\<close>)
qed

definition garbage :: "16 word \<Rightarrow> 16 word \<Rightarrow> http_parser_url" where
  "garbage off len = \<lparr> field_set = 0, url_port = 0, field_off = (\<lambda>_. off), field_len = (\<lambda>_. len) \<rparr>"

theorem luaw_parse_url_safe_witness:
  "luaw_parse_url (garbage 9 1) ''a://'' False = Url_crash \<and> field_len (garbage 9 1) UF_HOST \<noteq> 0 \<and> hostless ''a://''"
proof -
  have c: "luaw_parse_url (garbage 9 1) ''a://'' False = Url_crash" by code_simp
  with luaw_parse_url_safe[OF _ c] show ?thesis by simp
qed



end
