(* ===== verification/Http_Bytewise.thy ===== *)
theory Http_Bytewise
  imports Http_Inv "HOL-Library.Sublist"
begin

text \<open>
  How the parser treats a stream that arrives in pieces. An application that records everything it is
  told is run on \<open>http_parser_execute\<close>. One call on a buffer turns out to do what one call per byte
  does: the jumps of the parser over a body and the marks that it keeps inside a buffer are
  optimisations that cannot be observed. The proof is a functional refinement: \<open>proj\<close> takes a context
  inside a buffer to the context inside the one-byte buffer, and every handler commutes with it.
\<close>

section \<open>An application that records what it is told\<close>

datatype part = Url | Status | Name | Value | Body

datatype event = Message_begin | Headers_complete | Message_complete | Byte part char

definition record_data :: "string \<Rightarrow> part \<Rightarrow> event list http_data_cb" where
  "record_data data k u q at n = (0, u @ List.map (Byte k) (span at n data), q)"

text \<open>\<open>hc\<close> is the application's answer to \<open>on_headers_complete\<close>; 1 means that no body follows.\<close>

definition recorder :: "(http_parser \<Rightarrow> int) \<Rightarrow> string \<Rightarrow> event list http_parser_settings" where
  "recorder hc data =
     \<lparr> on_message_begin = Some (\<lambda>u q. (0, u @ [Message_begin], q)),
       on_url = Some (record_data data Url), on_status = Some (record_data data Status),
       on_header_field = Some (record_data data Name), on_header_value = Some (record_data data Value),
       on_headers_complete = Some (\<lambda>u q. (hc q, u @ [Headers_complete], q)),
       on_body = Some (record_data data Body),
       on_message_complete = Some (\<lambda>u q. (0, u @ [Message_complete], q)) \<rparr>"

interpretation recorder: http_callbacks "recorder hc data" "\<lambda>_ _. True" for hc data
  by unfold_locales
     (auto simp: cb_ok_def data_cb_ok_def recorder_def record_data_def only_pauses_def)

text \<open>The bytes of an unfinished item, which the parser has seen but not yet reported.\<close>

definition pending :: "string \<Rightarrow> part \<Rightarrow> nat option \<Rightarrow> nat \<Rightarrow> event list" where
  "pending data k m p =
     (case m of None \<Rightarrow> [] | Some i \<Rightarrow> List.map (Byte k) (span i (p - i) data))"

definition flushed :: "string \<Rightarrow> event list exec_ctx \<Rightarrow> event list" where
  "flushed data c = udata c @ pending data Name (header_field_mark c) (pos c)
     @ pending data Value (header_value_mark c) (pos c) @ pending data Url (url_mark c) (pos c)
     @ pending data Body (body_mark c) (pos c) @ pending data Status (status_mark c) (pos c)"

lemma pending_simps [simp]:
  "pending data k None p = []" "pending data k (Some p) p = []"
  by (simp_all add: pending_def)

lemma pending_MARK [simp]: "pending data k (MARK m p) p = pending data k m p"
  by (simp add: MARK_def split: option.split)

lemma pending_Suc:
  "i \<le> p \<Longrightarrow> p < length data \<Longrightarrow>
     pending data k (Some i) (Suc p) = pending data k (Some i) p @ [Byte k (data ! p)]"
  by (simp add: pending_def span_def Suc_diff_le take_Suc_conv_app_nth)

section \<open>From a buffer to a single byte\<close>

definition proj :: "string \<Rightarrow> event list exec_ctx \<Rightarrow> event list exec_ctx" where
  "proj data c =
     \<lparr> parser = parser c,
       header_field_mark = map_option (\<lambda>_. 0) (header_field_mark c),
       header_value_mark = map_option (\<lambda>_. 0) (header_value_mark c),
       url_mark = map_option (\<lambda>_. 0) (url_mark c),
       body_mark = map_option (\<lambda>_. 0) (body_mark c),
       status_mark = map_option (\<lambda>_. 0) (status_mark c),
       pos = 0, udata = flushed data c \<rparr>"

fun proj_ctl :: "nat \<Rightarrow> ctl \<Rightarrow> ctl" where
  "proj_ctl p (Return n) = Return (n - p)"
| "proj_ctl p k = k"

definition proj_result :: "string \<Rightarrow> event list step_result \<Rightarrow> event list step_result" where
  "proj_result data r = (case r of (c, k) \<Rightarrow> (proj data c, proj_ctl (pos c) k))"

lemma proj_result_simps [simp]:
  "proj_result data (c, k) = (proj data c, proj_ctl (pos c) k)"
  by (simp add: proj_result_def)

lemma proj_fields [simp]:
  "parser (proj data c) = parser c" "pos (proj data c) = 0" "udata (proj data c) = flushed data c"
  by (simp_all add: proj_def)

lemma proj_updates [simp]:
  "proj data (set_state s c) = set_state s (proj data c)"
  "proj data (set_header_state h c) = set_header_state h (proj data c)"
  "proj data (set_index i c) = set_index i (proj data c)"
  "proj data (add_flag f c) = add_flag f (proj data c)"
  "proj data (set_errno e c) = set_errno e (proj data c)"
  "proj data (c\<lparr>parser := q\<rparr>) = (proj data c)\<lparr>parser := q\<rparr>"
  by (simp_all add: proj_def flushed_def set_state_def set_header_state_def set_index_def
        add_flag_def set_errno_def)

lemma proj_fail [simp]: "proj_result data (fail e c) = fail e (proj data c)"
  by (simp add: fail_def)

lemma proj_STRICT_CHECK:
  "proj_result data r = r' \<Longrightarrow>
     proj_result data (STRICT_CHECK b c r) = STRICT_CHECK b (proj data c) r'"
  by (simp add: STRICT_CHECK_def)

lemma proj_ASSERT:
  "proj_result data r = r' \<Longrightarrow> proj_result data (ASSERT b c r) = ASSERT b (proj data c) r'"
  by (simp add: ASSERT_def)

lemma proj_and_then:
  assumes "proj_result data r = r'"
    and "\<And>c'. r = (c', Next) \<Longrightarrow> proj_result data (f c') = f' (proj data c')"
  shows "proj_result data (and_then r f) = and_then r' f'"
  using assms by (cases "(r, f)" rule: and_then.cases) auto

lemma proj_marks:
  "proj data (c\<lparr>header_field_mark := MARK (header_field_mark c) (pos c)\<rparr>) =
     (proj data c)\<lparr>header_field_mark := MARK (header_field_mark (proj data c)) 0\<rparr>"
  "proj data (c\<lparr>header_value_mark := MARK (header_value_mark c) (pos c)\<rparr>) =
     (proj data c)\<lparr>header_value_mark := MARK (header_value_mark (proj data c)) 0\<rparr>"
  "proj data (c\<lparr>url_mark := MARK (url_mark c) (pos c)\<rparr>) =
     (proj data c)\<lparr>url_mark := MARK (url_mark (proj data c)) 0\<rparr>"
  "proj data (c\<lparr>body_mark := MARK (body_mark c) (pos c)\<rparr>) =
     (proj data c)\<lparr>body_mark := MARK (body_mark (proj data c)) 0\<rparr>"
  "proj data (c\<lparr>status_mark := MARK (status_mark c) (pos c)\<rparr>) =
     (proj data c)\<lparr>status_mark := MARK (status_mark (proj data c)) 0\<rparr>"
  by (auto simp: proj_def flushed_def MARK_def split: option.split)

subsection \<open>Callbacks\<close>

definition no_marks :: "'u exec_ctx \<Rightarrow> bool" where
  "no_marks c \<longleftrightarrow> header_field_mark c = None \<and> header_value_mark c = None \<and> url_mark c = None
     \<and> body_mark c = None \<and> status_mark c = None"

lemma no_marks_set [simp]:
  "no_marks (set_state s c) = no_marks c" "no_marks (set_header_state h c) = no_marks c"
  "no_marks (c\<lparr>parser := q\<rparr>) = no_marks c"
  by (simp_all add: no_marks_def set_state_def set_header_state_def)

lemma proj_notify:
  assumes "no_marks c"
  shows "proj_result data (CALLBACK_NOTIFY (Some (\<lambda>u q. (0, u @ [e], q))) er ret c) =
     CALLBACK_NOTIFY (Some (\<lambda>u q. (0, u @ [e], q))) er (ret - pos c) (proj data c)"
  using assms by (auto simp: CALLBACK_NOTIFY_def proj_def flushed_def no_marks_def)

lemma proj_message_begin:
  "no_marks c \<Longrightarrow> proj_result data (notify_message_begin (recorder hc data) ret c) =
     notify_message_begin (recorder hc [data ! pos c]) (ret - pos c) (proj data c)"
  by (simp add: notify_message_begin_def recorder_def proj_notify)

lemma proj_message_complete:
  "no_marks c \<Longrightarrow> proj_result data (notify_message_complete (recorder hc data) ret c) =
     notify_message_complete (recorder hc [data ! pos c]) (ret - pos c) (proj data c)"
  by (simp add: notify_message_complete_def recorder_def proj_notify)

lemma proj_data_field:
  "no_marks (c\<lparr>header_field_mark := None\<rparr>) \<Longrightarrow>
     proj_result data (data_header_field (recorder hc data) ret c) =
     data_header_field (recorder hc [data ! pos c]) (ret - pos c) (proj data c)"
  by (cases "header_field_mark c")
     (auto simp: data_header_field_def CALLBACK_DATA_def recorder_def record_data_def proj_def
        flushed_def no_marks_def pending_def)

lemma proj_data_value:
  "no_marks (c\<lparr>header_value_mark := None\<rparr>) \<Longrightarrow>
     proj_result data (data_header_value (recorder hc data) ret c) =
     data_header_value (recorder hc [data ! pos c]) (ret - pos c) (proj data c)"
  by (cases "header_value_mark c")
     (auto simp: data_header_value_def CALLBACK_DATA_def recorder_def record_data_def proj_def
        flushed_def no_marks_def pending_def)

lemma proj_data_url:
  "no_marks (c\<lparr>url_mark := None\<rparr>) \<Longrightarrow>
     proj_result data (data_url (recorder hc data) ret c) =
     data_url (recorder hc [data ! pos c]) (ret - pos c) (proj data c)"
  by (cases "url_mark c")
     (auto simp: data_url_def CALLBACK_DATA_def recorder_def record_data_def proj_def
        flushed_def no_marks_def pending_def)

lemma proj_data_status:
  "no_marks (c\<lparr>status_mark := None\<rparr>) \<Longrightarrow>
     proj_result data (data_status (recorder hc data) ret c) =
     data_status (recorder hc [data ! pos c]) (ret - pos c) (proj data c)"
  by (cases "status_mark c")
     (auto simp: data_status_def CALLBACK_DATA_def recorder_def record_data_def proj_def
        flushed_def no_marks_def pending_def)

lemma proj_data_body:
  "no_marks (c\<lparr>body_mark := None\<rparr>) \<Longrightarrow>
     proj_result data (data_body (recorder hc data) 0 ret c) =
     data_body (recorder hc [data ! pos c]) 0 (ret - pos c) (proj data c)"
  by (cases "body_mark c")
     (auto simp: data_body_def CALLBACK_DATA_def recorder_def record_data_def proj_def
        flushed_def no_marks_def pending_def)

lemma proj_data_body_1:
  assumes "no_marks (c\<lparr>body_mark := None\<rparr>)" "body_mark c = Some i" "i \<le> pos c" "pos c < length data"
  shows "proj_result data (data_body (recorder hc data) 1 ret c) =
     data_body (recorder hc [data ! pos c]) 1 (ret - pos c) (proj data c)"
  using assms pending_Suc[of i "pos c" data Body]
  by (auto simp: data_body_def CALLBACK_DATA_def recorder_def record_data_def proj_def
        flushed_def no_marks_def pending_def span_def Suc_diff_le)

lemmas proj_callbacks = proj_message_begin proj_message_complete proj_data_field proj_data_value
  proj_data_url proj_data_status proj_data_body

lemma proj_headers_complete:
  "no_marks c \<Longrightarrow> proj_result data (call_headers_complete (recorder hc data) c) =
     call_headers_complete (recorder hc [data ! pos c]) (proj data c)"
  by (auto simp: call_headers_complete_def recorder_def proj_def flushed_def no_marks_def Let_def
        add_flag_def set_errno_def)

subsection \<open>One dispatch\<close>

text \<open>Which marks can be set in which state.\<close>

lemma marks_by_state:
  assumes "marks_ok c"
  shows "hp_state (parser c) \<notin> url_states \<union> body_mark_states
      \<union> {s_header_field, s_header_value, s_res_status} \<Longrightarrow> no_marks c"
    and "hp_state (parser c) = s_header_field \<Longrightarrow> no_marks (c\<lparr>header_field_mark := None\<rparr>)"
    and "hp_state (parser c) = s_header_value \<Longrightarrow> no_marks (c\<lparr>header_value_mark := None\<rparr>)"
    and "hp_state (parser c) \<in> url_states \<Longrightarrow> no_marks (c\<lparr>url_mark := None\<rparr>)"
    and "hp_state (parser c) \<in> body_mark_states \<Longrightarrow> no_marks (c\<lparr>body_mark := None\<rparr>)"
    and "hp_state (parser c) = s_res_status \<Longrightarrow> no_marks (c\<lparr>status_mark := None\<rparr>)"
  using assms url_state_facts[of "hp_state (parser c)"]
  by (auto simp: marks_ok_def no_marks_def body_mark_states_def url_states_def)


definition one_byte :: "nat \<Rightarrow> 'u exec_ctx \<Rightarrow> bool" where
  "one_byte len c \<longleftrightarrow>
     (hp_state (parser c) \<in> {s_body_identity, s_chunk_data} \<longrightarrow> to_read len c = 1) \<and>
     (hp_state (parser c) = s_body_identity_eof \<longrightarrow> pos c + 1 = len)"

lemma proj_if:
  "proj_result data (if b then r else r') = (if b then proj_result data r else proj_result data r')"
  "proj data (if b then c else c') = (if b then proj data c else proj data c')"
  by simp_all

lemmas proj_distrib = proj_if option.case_distrib[of "proj_result data" for data]
  header_states.case_distrib[of "proj_result data" for data]
  header_states.case_distrib[of "proj data" for data]

lemma proj_quiet_handlers:
  "proj_result data (do_dead ch c) = do_dead ch (proj data c)"
  "proj_result data (do_res_or_resp_H ch c) = do_res_or_resp_H ch (proj data c)"
  "proj_result data (do_literal e s ch c) = do_literal e s ch (proj data c)"
  "proj_result data (do_res_first_http_major ch c) = do_res_first_http_major ch (proj data c)"
  "proj_result data (do_major s ch c) = do_major s ch (proj data c)"
  "proj_result data (do_first_minor s ch c) = do_first_minor s ch (proj data c)"
  "proj_result data (do_res_http_minor ch c) = do_res_http_minor ch (proj data c)"
  "proj_result data (do_res_first_status_code ch c) = do_res_first_status_code ch (proj data c)"
  "proj_result data (do_res_status_code ch c) = do_res_status_code ch (proj data c)"
  "proj_result data (do_res_status_start ch c) = do_res_status_start ch (proj data c)"
  "proj_result data (url_step ch c) = url_step ch (proj data c)"
  "proj_result data (do_req_schema ch c) = do_req_schema ch (proj data c)"
  "proj_result data (do_req_http_start ch c) = do_req_http_start ch (proj data c)"
  "proj_result data (do_req_first_http_major ch c) = do_req_first_http_major ch (proj data c)"
  "proj_result data (do_req_http_minor ch c) = do_req_http_minor ch (proj data c)"
  "proj_result data (do_req_line_almost_done ch c) = do_req_line_almost_done ch (proj data c)"
  "proj_result data (do_header_field_start ch c) = do_header_field_start ch (proj data c)"
  "proj_result data (do_header_value_lws ch c) = do_header_value_lws ch (proj data c)"
  "proj_result data (do_content_length_digit ch c) = do_content_length_digit ch (proj data c)"
  "proj_result data (value_word_step w h1 h2 t c) = value_word_step w h1 h2 t (proj data c)"
  "proj_result data (do_chunk_size_start ch c) = do_chunk_size_start ch (proj data c)"
  "proj_result data (do_chunk_size ch c) = do_chunk_size ch (proj data c)"
  "proj_result data (do_chunk_parameters ch c) = do_chunk_parameters ch (proj data c)"
  "proj_result data (do_chunk_size_almost_done ch c) = do_chunk_size_almost_done ch (proj data c)"
  "proj_result data (do_chunk_data_done ch c) = do_chunk_data_done ch (proj data c)"
  by (simp_all add: handler_defs Let_def proj_distrib proj_STRICT_CHECK proj_ASSERT proj_marks)


lemma proj_req_method: "proj_result data (do_req_method ch c) = do_req_method ch (proj data c)"
  by (cases "c_str_at (method_strings (hp_method (parser c))) (unat (hp_index (parser c)))";
      cases "switch_method (hp_method (parser c)) (hp_index (parser c)) ch")
     (simp_all add: do_req_method_def Let_def del: c_str_at_None)

lemma proj_header_almost_done:
  "proj_result data (do_header_almost_done ch c) = do_header_almost_done ch (proj data c)"
  by (cases "hp_header_state (parser c)") (simp_all add: do_header_almost_done_def proj_STRICT_CHECK)

lemma proj_spaces_before_url:
  "proj_result data (do_req_spaces_before_url ch c) = do_req_spaces_before_url ch (proj data c)"
  by (simp add: do_req_spaces_before_url_def Let_def proj_quiet_handlers proj_marks)


text \<open>Handlers that may report something, in a context with the marks of their state.\<close>

lemma proj_reporting_handlers:
  assumes "no_marks c"
  shows "proj_result data (do_start_req_or_res (recorder hc data) ch c) =
      do_start_req_or_res (recorder hc [data ! pos c]) ch (proj data c)"
    "proj_result data (do_start_res (recorder hc data) ch c) =
      do_start_res (recorder hc [data ! pos c]) ch (proj data c)"
    "proj_result data (do_message_done (recorder hc data) c) = do_message_done (recorder hc [data ! pos c]) (proj data c)"
  using assms
  by (simp_all add: do_start_req_or_res_def do_start_res_def do_message_done_def Let_def
      proj_if proj_callbacks)

lemma parser_set:
  "parser (set_index i c) = (parser c)\<lparr>hp_index := i\<rparr>"
  "parser (set_state s c) = (parser c)\<lparr>hp_state := s\<rparr>"
  by (simp_all add: set_index_def set_state_def)

lemma no_marks_value_mark:
  "no_marks ((set_state s c)\<lparr>header_value_mark := m\<rparr>) = no_marks (c\<lparr>header_value_mark := m\<rparr>)"
  "no_marks ((set_header_state h c)\<lparr>header_value_mark := m\<rparr>) = no_marks (c\<lparr>header_value_mark := m\<rparr>)"
  "no_marks ((set_index i c)\<lparr>header_value_mark := m\<rparr>) = no_marks (c\<lparr>header_value_mark := m\<rparr>)"
  "no_marks c \<Longrightarrow> no_marks (c\<lparr>header_value_mark := None\<rparr>)"
  by (simp_all add: no_marks_def set_state_def set_header_state_def set_index_def)

lemma proj_header_value_start:
  assumes "no_marks c"
  shows "proj_result data (do_header_value_start (recorder hc data) ch c) =
      do_header_value_start (recorder hc [data ! pos c]) ch (proj data c)"
  using assms
  by (cases "hp_header_state (parser c)")
     (simp_all add: do_header_value_start_def Let_def proj_if proj_callbacks proj_marks
        no_marks_value_mark parser_set)

lemma proj_start_req:
  assumes "no_marks c"
  shows "proj_result data (do_start_req (recorder hc data) ch c) =
      do_start_req (recorder hc [data ! pos c]) ch (proj data c)"
  using assms by (cases "initial_method ch") (simp_all add: do_start_req_def Let_def proj_callbacks)

lemma proj_headers_almost_done:
  assumes "no_marks c"
  shows "proj_result data (do_headers_almost_done (recorder hc data) ch c) =
      do_headers_almost_done (recorder hc [data ! pos c]) ch (proj data c)"
  using assms unfolding do_headers_almost_done_def
  by (intro proj_STRICT_CHECK)
     (auto simp: proj_callbacks proj_headers_complete set_state_def intro!: proj_and_then)

lemma message_complete_pos:
  "notify_message_complete S ret c = (c', k) \<Longrightarrow> pos c' = pos c"
  using pos_callbacks(2)[of S ret c] by simp

lemma proj_headers_done:
  assumes "no_marks c"
  shows "proj_result data (do_headers_done (recorder hc data) ch c) =
      do_headers_done (recorder hc [data ! pos c]) ch (proj data c)"
  using assms unfolding do_headers_done_def
  by (intro proj_STRICT_CHECK)
     (auto simp: proj_callbacks Let_def proj_if dest: message_complete_pos intro!: proj_and_then)

lemma proj_res_status:
  assumes "no_marks (c\<lparr>status_mark := None\<rparr>)"
  shows "proj_result data (do_res_status (recorder hc data) ch c) =
      do_res_status (recorder hc [data ! pos c]) ch (proj data c)"
  using assms by (simp add: do_res_status_def proj_distrib proj_callbacks set_state_def no_marks_def)

lemma proj_req_url:
  assumes "no_marks (c\<lparr>url_mark := None\<rparr>)"
  shows "proj_result data (do_req_url (recorder hc data) ch c) =
      do_req_url (recorder hc [data ! pos c]) ch (proj data c)"
  using assms by (simp add: do_req_url_def proj_distrib proj_callbacks proj_quiet_handlers set_state_def no_marks_def)

lemma proj_header_field:
  assumes "no_marks (c\<lparr>header_field_mark := None\<rparr>)"
  shows "proj_result data (do_header_field (recorder hc data) ch c) =
      do_header_field (recorder hc [data ! pos c]) ch (proj data c)"
  using assms
  by (cases "header_name_step (hp_header_state (parser c)) (hp_index (parser c)) (TOKEN ch) ch")
     (auto simp: do_header_field_def Let_def proj_callbacks set_state_def no_marks_def)

lemma proj_header_value:
  assumes "no_marks (c\<lparr>header_value_mark := None\<rparr>)"
  shows "proj_result data (do_header_value (recorder hc data) ch c) =
      do_header_value (recorder hc [data ! pos c]) ch (proj data c)"
  using assms
  by (cases "hp_header_state (parser c)")
     (simp_all add: do_header_value_def Let_def proj_if proj_callbacks set_state_def no_marks_def
       proj_quiet_handlers proj_and_then)


subsection \<open>Bodies\<close>

lemma proj_take_body:
  assumes "to_read len c = 1" "hp_content_length (parser c) \<noteq> 0"
  shows "proj data (take_body len c) = take_body 1 (proj data c)"
proof -
  have "to_read 1 (proj data c) = 1"
    using assms(2) unat_gt_0[of "hp_content_length (parser c)"] by (simp add: to_read_def)
  with assms(1) show ?thesis
    by (auto simp: take_body_def Let_def proj_def flushed_def MARK_def split: option.split)
qed

lemma proj_body_handlers:
  assumes "no_marks (c\<lparr>body_mark := None\<rparr>)" "mark_at (pos c) True (body_mark c)" "pos c < length data"
  shows "to_read (length data) c = 1 \<Longrightarrow>
      proj_result data (do_body_identity (recorder hc data) (length data) c) =
      do_body_identity (recorder hc [data ! pos c]) 1 (proj data c)" (is "_ \<Longrightarrow> ?identity")
    and "to_read (length data) c = 1 \<Longrightarrow>
      proj_result data (do_chunk_data (length data) c) = do_chunk_data 1 (proj data c)"
    and "pos c + 1 = length data \<Longrightarrow>
      proj_result data (do_body_identity_eof (length data) c) = do_body_identity_eof 1 (proj data c)"
    and "proj_result data (do_chunk_data_almost_done (recorder hc data) ch c) =
      do_chunk_data_almost_done (recorder hc [data ! pos c]) ch (proj data c)"
proof -
  show ?identity if one: "to_read (length data) c = 1"
  proof (cases "hp_content_length (parser c) = 0 \<or> hp_content_length (parser c) = ULLONG_MAX")
    case True
    then show ?thesis by (simp add: do_body_identity_def)
  next
    case False
    let ?t = "set_state s_message_done (take_body (length data) c)"
    have p: "pos (take_body (length data) c) = pos c" using one by (simp add: take_body_def Let_def)
    obtain i where "body_mark ?t = Some i" "i \<le> pos c"
      using assms(2) by (cases "body_mark c") (auto simp: take_body_def Let_def MARK_def set_state_def)
    moreover have "no_marks (?t\<lparr>body_mark := None\<rparr>)"
      using assms(1) by (simp add: no_marks_def take_body_def Let_def set_state_def)
    ultimately have "proj_result data (data_body (recorder hc data) 1 (pos c) ?t) =
        data_body (recorder hc [data ! pos c]) 1 0 (proj data ?t)"
      using proj_data_body_1[of ?t i data hc "pos c"] assms(3) p by simp
    moreover have t: "take_body 1 (proj data c) = proj data (take_body (length data) c)"
      using proj_take_body[OF one] False by simp
    ultimately show ?thesis
      using False p by (simp add: do_body_identity_def Let_def t proj_and_then del: One_nat_def)
  qed
next
  show "proj_result data (do_chunk_data (length data) c) = do_chunk_data 1 (proj data c)"
    if "to_read (length data) c = 1"
    using proj_take_body[OF that, of data, symmetric]
    by (cases "hp_content_length (parser c) = 0")
       (simp_all add: do_chunk_data_def Let_def proj_ASSERT proj_if ASSERT_def del: One_nat_def)
next
  show "proj_result data (do_body_identity_eof (length data) c) = do_body_identity_eof 1 (proj data c)"
    if "pos c + 1 = length data"
  proof -
    have "pos c = length data - 1" using that by simp
    then show ?thesis
      by (auto simp: do_body_identity_eof_def proj_def flushed_def MARK_def split: option.split)
  qed
next
  show "proj_result data (do_chunk_data_almost_done (recorder hc data) ch c) =
      do_chunk_data_almost_done (recorder hc [data ! pos c]) ch (proj data c)"
    using assms(1)
    by (simp add: do_chunk_data_almost_done_def proj_ASSERT proj_STRICT_CHECK proj_callbacks
        set_state_def no_marks_def)
qed


subsection \<open>The switch\<close>

lemmas proj_handlers = proj_quiet_handlers proj_req_method proj_spaces_before_url
  proj_header_almost_done proj_reporting_handlers proj_header_value_start proj_start_req
  proj_headers_almost_done proj_headers_done proj_res_status proj_req_url proj_header_field
  proj_header_value

lemma proj_dispatch:
  assumes "marks_ok c" "pos c < length data" "one_byte (length data) c"
  shows "proj_result data (dispatch (recorder hc data) (length data) (data ! pos c) c) =
     dispatch (recorder hc [data ! pos c]) 1 (data ! pos c) (proj data c)"
proof (cases "hp_state (parser c) \<in> body_mark_states")
  case True
  then have "no_marks (c\<lparr>body_mark := None\<rparr>)" "mark_at (pos c) True (body_mark c)"
    using marks_by_state(5)[OF assms(1)] assms(1) by (auto simp: marks_ok_def)
  note h = proj_body_handlers[OF this assms(2)]
  show ?thesis
    using True assms(3)
    by (auto simp: body_mark_states_def dispatch_def one_byte_def h simp del: One_nat_def)
next
  case False
  note m = marks_by_state[OF assms(1)]
  show ?thesis
    using False m
    by (cases "hp_state (parser c)")
       (simp_all add: dispatch_def proj_handlers url_states_def body_mark_states_def)
qed

section \<open>Control flow under the recorder\<close>

text \<open>The recorder never stops the parser, so every report is followed by the next statement.\<close>

lemma recorder_notify:
  "hp_errno (parser c) = HPE_OK \<Longrightarrow> notify_message_begin (recorder hc data) ret c =
     (c\<lparr>udata := udata c @ [Message_begin]\<rparr>, Next)"
  "hp_errno (parser c) = HPE_OK \<Longrightarrow> notify_message_complete (recorder hc data) ret c =
     (c\<lparr>udata := udata c @ [Message_complete]\<rparr>, Next)"
  by (simp_all add: notify_message_begin_def notify_message_complete_def recorder_def CALLBACK_NOTIFY_def)

lemma recorder_data:
  assumes "hp_errno (parser c) = HPE_OK"
  shows "data_header_field (recorder hc data) ret c = (c\<lparr>header_field_mark := None,
      udata := udata c @ pending data Name (header_field_mark c) (pos c)\<rparr>, Next)"
    "data_header_value (recorder hc data) ret c = (c\<lparr>header_value_mark := None,
      udata := udata c @ pending data Value (header_value_mark c) (pos c)\<rparr>, Next)"
    "data_url (recorder hc data) ret c = (c\<lparr>url_mark := None,
      udata := udata c @ pending data Url (url_mark c) (pos c)\<rparr>, Next)"
    "data_body (recorder hc data) 0 ret c = (c\<lparr>body_mark := None,
      udata := udata c @ pending data Body (body_mark c) (pos c)\<rparr>, Next)"
    "data_status (recorder hc data) ret c = (c\<lparr>status_mark := None,
      udata := udata c @ pending data Status (status_mark c) (pos c)\<rparr>, Next)"
  using assms
  by (auto simp: data_header_field_def data_header_value_def data_url_def data_body_def data_status_def
        recorder_def record_data_def CALLBACK_DATA_def pending_def split: option.split)

lemma recorder_body:
  assumes "hp_errno (parser c) = HPE_OK"
  obtains u where "data_body (recorder hc data) ex ret c = (c\<lparr>body_mark := None, udata := u\<rparr>, Next)"
proof (cases "body_mark c")
  case None
  with assms that[of "udata c"] show ?thesis
    by (simp add: data_body_def CALLBACK_DATA_def)
next
  case (Some i)
  with assms that[of "udata c @ map (Byte Body) (span i (pos c - i + ex) data)"] show ?thesis
    by (simp add: data_body_def CALLBACK_DATA_def recorder_def record_data_def)
qed

lemma recorder_headers_complete [simp]:
  "on_headers_complete (recorder hc data) = Some (\<lambda>u q. (hc q, u @ [Headers_complete], q))"
  by (simp add: recorder_def)

definition marks_set :: "'u exec_ctx \<Rightarrow> bool" where
  "marks_set c \<longleftrightarrow>
     (header_field_mark c \<noteq> None \<longleftrightarrow> hp_state (parser c) = s_header_field) \<and>
     (header_value_mark c \<noteq> None \<longleftrightarrow> hp_state (parser c) = s_header_value) \<and>
     (url_mark c \<noteq> None \<longleftrightarrow> hp_state (parser c) \<in> url_states) \<and>
     (status_mark c \<noteq> None \<longleftrightarrow> hp_state (parser c) = s_res_status)"

text \<open>
  Inside one byte the upgrade flag is up only on the way from the end of the headers to the \<open>return\<close>,
  and a byte that ends without an error and without the next one ends an upgraded message.
\<close>

definition flow_ok :: "'u step_result \<Rightarrow> bool" where
  "flow_ok r = (case r of (c, k) \<Rightarrow> (case k of
     Next \<Rightarrow> \<not> hp_upgrade (parser c) \<and> marks_set c
   | Reexecute \<Rightarrow> (hp_upgrade (parser c) \<longrightarrow> hp_state (parser c) = s_headers_done)
       \<and> hp_state (parser c) \<notin> body_states \<and> marks_set c
   | Return n \<Rightarrow> pos c \<le> n \<and> (hp_errno (parser c) = HPE_OK \<longrightarrow> hp_upgrade (parser c) \<and> no_marks c)
   | _ \<Rightarrow> True))"

lemma flow_ok_simps [simp]:
  "flow_ok (c, Next) \<longleftrightarrow> \<not> hp_upgrade (parser c) \<and> marks_set c"
  "flow_ok (c, Reexecute) \<longleftrightarrow> (hp_upgrade (parser c) \<longrightarrow> hp_state (parser c) = s_headers_done)
       \<and> hp_state (parser c) \<notin> body_states \<and> marks_set c"
  "flow_ok (c, Return n) \<longleftrightarrow>
     pos c \<le> n \<and> (hp_errno (parser c) = HPE_OK \<longrightarrow> hp_upgrade (parser c) \<and> no_marks c)"
  "flow_ok (c, Abort)" "flow_ok (c, Bad_read)" "flow_ok (fail e c)"
  "flow_ok (STRICT_CHECK b c r) \<longleftrightarrow> b \<or> flow_ok r" "flow_ok (ASSERT b c r) \<longleftrightarrow> (b \<longrightarrow> flow_ok r)"
  by (auto simp: flow_ok_def fail_def STRICT_CHECK_def ASSERT_def)

lemma flow_url_step:
  assumes "header_field_mark c = None" "header_value_mark c = None" "status_mark c = None"
    "\<exists>i. url_mark c = Some i" "\<not> hp_upgrade (parser c)"
  shows "flow_ok (url_step ch c)"
proof -
  have "parse_url_char (hp_state (parser c)) ch \<in> url_states"
    if "parse_url_char (hp_state (parser c)) ch \<noteq> s_dead"
    using that parse_url_char_range[of "hp_state (parser c)" ch] by simp
  with assms url_state_facts[of "parse_url_char (hp_state (parser c)) ch"] show ?thesis
    by (auto simp: url_step_def Let_def marks_set_def set_state_def)
qed

lemmas flow_simps = dispatch_def handler_defs Let_def recorder_notify recorder_data set_state_def
  set_index_def marks_set_def url_states_def body_states_def set_header_state_def add_flag_def
  set_errno_def MARK_def NEW_MESSAGE_def start_state_def

lemma dispatch_flow_header:
  assumes "hp_errno (parser c) = HPE_OK" "marks_set c" "marks_ok c"
    "hp_upgrade (parser c) \<longrightarrow> hp_state (parser c) = s_headers_done"
    "hp_state (parser c) \<notin> body_states"
  shows "flow_ok (dispatch (recorder hc data) len ch c)"
  using assms(1,2,4,5) marks_by_state(1)[OF assms(3)]
  by (cases "hp_state (parser c)")
     (simp_all add: flow_simps flow_url_step body_mark_states_def no_marks_def del: url_step_def
        split: option.split header_states.split prod.split)

lemma dispatch_flow_body:
  assumes "hp_errno (parser c) = HPE_OK" "marks_set c" "\<not> hp_upgrade (parser c)"
    "hp_state (parser c) \<in> body_states"
  shows "flow_ok (dispatch (recorder hc data) len ch c)"
proof -
  let ?t = "set_state s_message_done (take_body len c)"
  have "hp_errno (parser ?t) = HPE_OK" using assms(1) by (simp add: take_body_def Let_def set_state_def)
  then obtain u where u: "data_body (recorder hc data) 1 (pos (take_body len c)) ?t =
      (?t\<lparr>body_mark := None, udata := u\<rparr>, Next)"
    by (rule recorder_body)
  have t: "parser (take_body len c) = (parser c)\<lparr>hp_content_length :=
      hp_content_length (parser c) - of_nat (to_read len c)\<rparr>"
      "header_field_mark (take_body len c) = header_field_mark c"
      "header_value_mark (take_body len c) = header_value_mark c"
      "url_mark (take_body len c) = url_mark c" "status_mark (take_body len c) = status_mark c"
    by (simp_all add: take_body_def Let_def)
  consider "hp_state (parser c) = s_body_identity" | "hp_state (parser c) = s_body_identity_eof"
    | "hp_state (parser c) = s_chunk_data"
    using assms(4) by (auto simp: body_states_def)
  then show ?thesis
  proof cases
    case 1
    with assms show ?thesis
      by (simp add: dispatch_def do_body_identity_def Let_def u del: One_nat_def)
         (simp add: marks_set_def set_state_def t url_states_def body_states_def)
  next
    case 2
    with assms show ?thesis
      by (simp add: dispatch_def do_body_identity_eof_def marks_set_def)
  next
    case 3
    with assms show ?thesis
      by (simp add: dispatch_def do_chunk_data_def Let_def marks_set_def set_state_def t url_states_def)
  qed
qed

lemma dispatch_flow:
  assumes "hp_errno (parser c) = HPE_OK" "marks_set c" "marks_ok c"
    "hp_upgrade (parser c) \<longrightarrow> hp_state (parser c) = s_headers_done"
  shows "flow_ok (dispatch (recorder hc data) len ch c)"
proof (cases "hp_state (parser c) \<in> body_states")
  case True
  with assms(4) have "\<not> hp_upgrade (parser c)" by (auto simp: body_states_def)
  from dispatch_flow_body[OF assms(1,2) this True] show ?thesis .
next
  case False
  from dispatch_flow_header[OF assms False] show ?thesis .
qed

section \<open>One byte\<close>

abbreviation fine :: "32 word \<Rightarrow> 'u exec_ctx \<Rightarrow> bool" where
  "fine n \<equiv> ctx_ok n (\<lambda>_. True)"

lemma pos_one_byte:
  assumes "one_byte len c"
  shows "pos (fst (dispatch S len ch c)) = pos c"
proof (cases "hp_state (parser c) \<in> body_states")
  case True
  with assms show ?thesis
    by (auto simp: body_states_def one_byte_def dispatch_def do_body_identity_def Let_def ASSERT_def
        do_body_identity_eof_def do_chunk_data_def take_body_def pos_and_then)
qed (rule pos_dispatch_header)

lemma proj_run_byte:
  assumes "fine 1 c" "marks_set c" "hp_upgrade (parser c) \<longrightarrow> hp_state (parser c) = s_headers_done"
    "pos c < length data" "one_byte (length data) c" "n = 0 \<longrightarrow> hp_state (parser c) \<notin> body_states"
  shows "proj_result data (run_byte n (recorder hc data) (length data) (data ! pos c) c) =
       run_byte n (recorder hc [data ! pos c]) 1 (data ! pos c) (proj data c) \<and>
     (case run_byte n (recorder hc data) (length data) (data ! pos c) c of (c', k) \<Rightarrow>
        pos c' = pos c \<and> flow_ok (c', k))"
  using assms
proof (induction n arbitrary: c)
  case 0
  then show ?case by simp
next
  case (Suc n)
  let ?d = "dispatch (recorder hc data) (length data) (data ! pos c) c"
  obtain c' k where d: "?d = (c', k)" by (cases ?d)
  have p: "proj_result data (c', k) = dispatch (recorder hc [data ! pos c]) 1 (data ! pos c) (proj data c)"
    using proj_dispatch[of c data hc] Suc.prems d by (simp add: ctx_ok_def)
  have f: "flow_ok (c', k)"
    using dispatch_flow[of c hc data "length data" "data ! pos c"] Suc.prems d by (simp add: ctx_ok_def)
  have "pos c' = pos c"
    using pos_one_byte[OF Suc.prems(5), of "recorder hc data" "data ! pos c"] d by simp
  then show ?case
  proof (cases "k = Reexecute")
    case True
    have "step_ok (length data) (\<lambda>_. True) (reexec_rank (hp_state (parser c))) (c', k)"
      using recorder.dispatch_ok[OF Suc.prems(1,4)] d by metis
    with True f have "fine 1 c'" "marks_set c'" "one_byte (length data) c'"
      by (auto simp: one_byte_def body_states_def)
    with Suc.IH[of c'] f True \<open>pos c' = pos c\<close> Suc.prems(4) d p[symmetric] show ?thesis by simp
  next
    case False
    with d p[symmetric] f \<open>pos c' = pos c\<close> show ?thesis by (cases k) simp_all
  qed
qed

section \<open>The bulk of a body\<close>

text \<open>Taking the first byte of a body alone and then the others leads to the same context.\<close>

definition first_byte :: "'u exec_ctx \<Rightarrow> 'u exec_ctx" where
  "first_byte c = (if hp_state (parser c) = s_body_identity_eof then c
      else upd_parser (\<lambda>q. q\<lparr>hp_content_length := hp_content_length q - 1\<rparr>) c)
      \<lparr>body_mark := MARK (body_mark c) (pos c), pos := pos c + 1\<rparr>"

lemma take_body_first:
  assumes "hp_state (parser c) \<noteq> s_body_identity_eof" "to_read len c > 1"
  shows "take_body len (first_byte c) = take_body len c"
proof -
  let ?n = "hp_content_length (parser c)"
  have n: "unat ?n > 1" and p: "len - pos c > 1" using assms(2) by (auto simp: to_read_def)
  have "unat (?n - 1) = unat ?n - 1"
    using n by (simp add: unat_sub word_le_nat_alt)
  then have r: "to_read len (first_byte c) = to_read len c - 1"
    using assms(1) p by (simp add: to_read_def first_byte_def)
  have "?n - 1 - of_nat (to_read len c - 1) = ?n - of_nat (to_read len c)"
    using assms(2) by (simp add: of_nat_diff)
  with r assms show ?thesis
    by (simp add: take_body_def Let_def first_byte_def MARK_def split: option.split)
qed

lemma first_byte_length:
  assumes "fine 0 c" "hp_state (parser c) \<in> {s_body_identity, s_chunk_data}" "pos c < len"
    "\<not> one_byte len c"
  shows "to_read len c > 1" "hp_content_length (parser c) - 1 \<noteq> 0"
    "hp_content_length (parser c) - 1 \<noteq> ULLONG_MAX"
proof -
  let ?n = "hp_content_length (parser c)"
  have n: "?n \<noteq> 0" using assms(1,2) by (auto simp: ctx_ok_def wf_defs)
  have "to_read len c \<noteq> 1" using assms(2,4) by (auto simp: one_byte_def)
  moreover have "to_read len c > 0"
    using n assms(3) unat_gt_0[of ?n] by (simp add: to_read_def)
  ultimately show r: "to_read len c > 1" by simp
  then have "unat ?n > 1" by (simp add: to_read_def)
  then show "?n - 1 \<noteq> 0" by auto
  show "?n - 1 \<noteq> ULLONG_MAX" using n by (simp add: ULLONG_MAX_def)
qed

lemma dispatch_first:
  assumes "fine 0 c" "hp_state (parser c) \<in> body_states" "pos c < len" "\<not> one_byte len c"
  shows "dispatch S len ch' (first_byte c) = dispatch S len ch c" and "pos c + 1 < len"
proof -
  have wf: "wf_parser (parser c)" using assms(1) by (simp add: ctx_ok_def)
  have "dispatch S len ch' (first_byte c) = dispatch S len ch c \<and> pos c + 1 < len"
  proof (cases "hp_state (parser c) = s_body_identity_eof")
    case True
    with assms(3,4) show ?thesis
      by (auto simp: dispatch_def do_body_identity_eof_def first_byte_def one_byte_def MARK_def
          split: option.split)
  next
    case False
    then have b: "hp_state (parser c) \<in> {s_body_identity, s_chunk_data}"
      using assms(2) by (auto simp: body_states_def)
    note n = first_byte_length[OF assms(1) b assms(3,4)]
    have "hp_content_length (parser (first_byte c)) \<noteq> 0"
        "hp_content_length (parser (first_byte c)) \<noteq> ULLONG_MAX"
        "hp_state (parser (first_byte c)) = hp_state (parser c)"
        "flag_set (parser (first_byte c)) F_CHUNKED = flag_set (parser c) F_CHUNKED"
      using False n by (simp_all add: first_byte_def flag_set_def)
    moreover have "hp_content_length (parser c) \<noteq> 0" "hp_content_length (parser c) \<noteq> ULLONG_MAX"
        "hp_state (parser c) = s_chunk_data \<Longrightarrow> flag_set (parser c) F_CHUNKED"
      using wf b by (auto simp: wf_defs chunk_states_def)
    ultimately show ?thesis
      using False n(1) b
      by (auto simp: dispatch_def do_body_identity_def do_chunk_data_def ASSERT_def
          take_body_first to_read_def)
  qed
  then show "dispatch S len ch' (first_byte c) = dispatch S len ch c" "pos c + 1 < len" by simp_all
qed

lemma first_byte_fine:
  assumes "fine 0 c" "hp_state (parser c) \<in> body_states" "pos c < len" "\<not> one_byte len c"
    "marks_set c" "\<not> hp_upgrade (parser c)"
  shows "fine 0 (first_byte c)" "marks_set (first_byte c)" "\<not> hp_upgrade (parser (first_byte c))"
proof -
  have ok: "wf_parser (parser c)" "marks_ok c" "hp_errno (parser c) = HPE_OK"
    using assms(1) by (simp_all add: ctx_ok_def)
  have n: "hp_state (parser c) \<noteq> s_body_identity_eof \<Longrightarrow>
      hp_content_length (parser c) - 1 \<noteq> 0 \<and> hp_content_length (parser c) - 1 \<noteq> ULLONG_MAX"
    using first_byte_length(2,3)[OF assms(1) _ assms(3,4)] assms(2) by (auto simp: body_states_def)
  have "wf_parser (parser (first_byte c))"
  proof (cases "hp_state (parser c) = s_body_identity_eof")
    case True
    with ok(1) show ?thesis by (simp add: first_byte_def)
  next
    case False
    with ok(1) n assms(2) show ?thesis
      by (simp add: first_byte_def wf_defs body_states_def) blast
  qed
  moreover have "marks_ok (first_byte c)"
    using marks_by_state(5)[OF ok(2)] assms(2) ok(2)
    by (cases "body_mark c")
       (auto simp: marks_ok_def no_marks_def first_byte_def body_states_def body_mark_states_def MARK_def)
  ultimately show "fine 0 (first_byte c)"
    using ok(3) by (simp add: ctx_ok_def first_byte_def)
  show "marks_set (first_byte c)" "\<not> hp_upgrade (parser (first_byte c))"
    using assms(5,6) by (simp_all add: marks_set_def first_byte_def)
qed

lemma body_identity_reexecutes:
  assumes "hp_errno (parser c) = HPE_OK" "hp_state (parser c) \<in> body_states"
    "dispatch (recorder hc data) len ch c = (c', Reexecute)"
  shows "hp_state (parser c') = s_message_done \<and> hp_errno (parser c') = HPE_OK"
proof -
  let ?t = "set_state s_message_done (take_body len c)"
  have ok: "hp_errno (parser ?t) = HPE_OK" using assms(1) by (simp add: take_body_def Let_def set_state_def)
  then obtain u where u: "data_body (recorder hc data) 1 (pos (take_body len c)) ?t =
      (?t\<lparr>body_mark := None, udata := u\<rparr>, Next)"
    by (rule recorder_body)
  have "hp_state (parser c) = s_body_identity"
    using assms(2,3) by (auto simp: body_states_def dispatch_def do_body_identity_eof_def
        do_chunk_data_def ASSERT_def Let_def split: if_splits)
  with assms(3) ok show ?thesis
    by (auto simp: dispatch_def do_body_identity_def Let_def u parser_set simp del: One_nat_def split: if_splits)
qed

lemma run_byte_message_done:
  assumes "hp_state (parser c) = s_message_done" "hp_errno (parser c) = HPE_OK"
  shows "run_byte (Suc n) (recorder hc data) len ch c = do_message_done (recorder hc data) c"
  using assms by (simp add: dispatch_def do_message_done_def recorder_notify parser_set)

text \<open>Inside a body the byte itself does not matter, only its position.\<close>

lemma run_byte_body:
  assumes "hp_errno (parser c) = HPE_OK" "hp_state (parser c) \<in> body_states"
    "dispatch (recorder hc data) len ch' c' = dispatch (recorder hc data) len ch c"
  shows "run_byte (Suc (Suc n)) (recorder hc data) len ch' c' =
     run_byte (Suc (Suc n)) (recorder hc data) len ch c"
proof -
  obtain d k where d: "dispatch (recorder hc data) len ch c = (d, k)" by fastforce
  show ?thesis
  proof (cases "k = Reexecute")
    case True
    with body_identity_reexecutes[OF assms(1,2)] d
    have "run_byte (Suc n) (recorder hc data) len b d = do_message_done (recorder hc data) d" for b
      by (intro run_byte_message_done) auto
    with assms(3) d True show ?thesis by (simp del: run_byte.simps add: run_byte.simps(2)[of "Suc n"])
  next
    case False
    with assms(3) d show ?thesis by (cases k) simp_all
  qed
qed

lemma body_not_counted:
  "hp_state (parser c) \<in> body_states \<Longrightarrow> count_byte c = c \<and> \<not> header_overflow c"
  by (auto simp: body_states_def count_byte_def header_overflow_def PARSING_HEADER_def less_eq_state_def)

text \<open>What follows one byte.\<close>

definition continue :: "'u http_parser_settings \<Rightarrow> string \<Rightarrow> 'u step_result \<Rightarrow> 'u exec_result" where
  "continue S data r = (case r of
     (c, Next) \<Rightarrow> exec_loop S data (c\<lparr>pos := pos c + 1\<rparr>) | _ \<Rightarrow> finish r)"

lemma continue_simps:
  "continue S data (c, Next) = exec_loop S data (c\<lparr>pos := pos c + 1\<rparr>)"
  "k \<noteq> Next \<Longrightarrow> continue S data (c, k) = finish (c, k)"
  by (auto simp: continue_def split: ctl.split)

lemma exec_loop_round:
  assumes "pos c < length data" "\<not> header_overflow c"
  shows "exec_loop S data c =
     continue S data (run_byte reexecute_bound S (length data) (data ! pos c) (count_byte c))"
proof -
  obtain c' k where r: "run_byte reexecute_bound S (length data) (data ! pos c) (count_byte c) = (c', k)"
    by fastforce
  then show ?thesis
    using exec_loop_next[OF assms, of S c'] exec_loop_stop[OF assms r]
    by (cases "k = Next") (simp_all add: continue_simps)
qed

lemma exec_loop_first:
  assumes "fine 0 c" "hp_state (parser c) \<in> body_states" "pos c < length data"
    "\<not> one_byte (length data) c"
  shows "exec_loop (recorder hc data) data c = exec_loop (recorder hc data) data (first_byte c)"
proof -
  have ok: "hp_errno (parser c) = HPE_OK" using assms(1) by (simp add: ctx_ok_def)
  have f: "hp_state (parser (first_byte c)) \<in> body_states" "pos (first_byte c) = pos c + 1"
    using assms(2) by (auto simp: first_byte_def)
  have n: "reexecute_bound = Suc (Suc 3)" by (simp add: reexecute_bound_def)
  have "run_byte reexecute_bound (recorder hc data) (length data) (data ! pos (first_byte c)) (first_byte c)
      = run_byte reexecute_bound (recorder hc data) (length data) (data ! pos c) c"
    unfolding n by (rule run_byte_body[OF ok assms(2) dispatch_first(1)[OF assms]])
  then show ?thesis
    using body_not_counted[OF assms(2)] body_not_counted[OF f(1)] dispatch_first(2)[OF assms] f(2)
    by (simp add: exec_loop_round)
qed

section \<open>A call on one byte\<close>

lemma after_loop_recorder:
  assumes "fine 0 c"
  shows "after_loop (recorder hc data) len c = (parser c, flushed data c, Parsed len)"
proof -
  have "hp_errno (parser c) = HPE_OK" using assms by (simp add: ctx_ok_def)
  then show ?thesis
    using one_mark[OF assms]
    by (simp add: after_loop_def ASSERT_def recorder_data finish_def flushed_def)
qed

lemma flushed_proj:
  assumes "fine 0 c" "pos c < length data"
  shows "flushed [data ! pos c] ((proj data c)\<lparr>pos := 1\<rparr>) = flushed data (c\<lparr>pos := pos c + 1\<rparr>)"
proof -
  have 1: "pending [ch] k (Some 0) (Suc 0) = [Byte k ch]" for ch k
    by (simp add: pending_def span_def)
  have m: "marks_ok c" using assms(1) by (simp add: ctx_ok_def)
  have le: "\<And>i. header_field_mark c = Some i \<Longrightarrow> i \<le> pos c" "\<And>i. header_value_mark c = Some i \<Longrightarrow> i \<le> pos c"
    "\<And>i. url_mark c = Some i \<Longrightarrow> i \<le> pos c" "\<And>i. body_mark c = Some i \<Longrightarrow> i \<le> pos c"
    "\<And>i. status_mark c = Some i \<Longrightarrow> i \<le> pos c"
    using m by (simp_all add: marks_ok_def)
  consider "no_marks c" | "no_marks (c\<lparr>header_field_mark := None\<rparr>)" | "no_marks (c\<lparr>header_value_mark := None\<rparr>)"
    | "no_marks (c\<lparr>url_mark := None\<rparr>)" | "no_marks (c\<lparr>body_mark := None\<rparr>)"
    | "no_marks (c\<lparr>status_mark := None\<rparr>)"
    using marks_by_state[OF m] by blast
  then show ?thesis
    using le assms(2)
    by cases (auto simp: no_marks_def flushed_def proj_def map_option_case 1 pending_Suc split: option.split)
qed

text \<open>The mark that a body leaves behind, when it names the first byte, has no effect.\<close>

lemma run_byte_cong:
  "dispatch S len ch c = dispatch S len ch c' \<Longrightarrow>
     run_byte reexecute_bound S len ch c = run_byte reexecute_bound S len ch c'"
  using run_byte.simps(2)[of 4 S len ch] by (simp add: reexecute_bound_def eval_nat_numeral)

lemma body_mark_irrelevant:
  assumes "pos c = 0" "hp_errno (parser c) = HPE_OK" "hp_state (parser c) \<in> body_mark_states"
    "body_mark c = Some 0" "wf_parser (parser c)"
  shows "exec_loop (recorder hc [ch]) [ch] (c\<lparr>body_mark := None\<rparr>) = exec_loop (recorder hc [ch]) [ch] c"
proof -
  let ?S = "recorder hc [ch]" and ?c = "c\<lparr>body_mark := None\<rparr>"
  have cnt: "count_byte c = c" "count_byte ?c = ?c" "\<not> header_overflow c" "\<not> header_overflow ?c"
    using assms(3) by (auto simp: body_mark_states_def count_byte_def header_overflow_def
        PARSING_HEADER_def less_eq_state_def)
  show ?thesis
  proof (cases "hp_state (parser c) = s_chunk_data_almost_done")
    case True
    let ?d = "dispatch ?S 1 ch c" and ?d' = "dispatch ?S 1 ch ?c"
    have "run_byte reexecute_bound ?S 1 ch c = ?d \<and> run_byte reexecute_bound ?S 1 ch ?c = ?d'
        \<and> continue ?S [ch] ?d = continue ?S [ch] ?d'"
      using True assms(1,2,4) unfolding reexecute_bound_def
      by (auto simp: numeral_eq_Suc dispatch_def do_chunk_data_almost_done_def ASSERT_def
          STRICT_CHECK_def continue_simps finish_def fail_def at_error_def set_errno_def set_state_def
          recorder_data)
    with cnt assms(1) show ?thesis by (simp add: exec_loop_round)
  next
    case False
    moreover have "hp_state (parser c) \<in> {s_body_identity, s_chunk_data} \<Longrightarrow>
        hp_content_length (parser c) \<noteq> 0 \<and> hp_content_length (parser c) \<noteq> ULLONG_MAX"
        "hp_state (parser c) = s_chunk_data \<Longrightarrow> flag_set (parser c) F_CHUNKED"
      using assms(5) by (auto simp: wf_defs chunk_states_def)
    ultimately have "dispatch ?S 1 ch ?c = dispatch ?S 1 ch c"
      using assms(1-4)
      by (auto simp: body_mark_states_def dispatch_def do_body_identity_def do_body_identity_eof_def
          do_chunk_data_def take_body_def to_read_def MARK_def ASSERT_def Let_def)
    then have "run_byte reexecute_bound ?S 1 ch ?c = run_byte reexecute_bound ?S 1 ch c"
      by (rule run_byte_cong)
    with cnt assms(1) show ?thesis by (simp add: exec_loop_round)
  qed
qed

lemma enter_proj:
  assumes "fine 0 c" "marks_set c"
  shows "exec_loop (recorder hc [ch]) [ch] (enter (parser c) (flushed data c)) =
     exec_loop (recorder hc [ch]) [ch] (proj data c)"
proof -
  have "enter (parser c) (flushed data c) = (proj data c)\<lparr>body_mark := None\<rparr>"
    using assms(2) by (auto simp: enter_def proj_def marks_set_def map_option_case split: option.split)
  moreover have "exec_loop (recorder hc [ch]) [ch] ((proj data c)\<lparr>body_mark := None\<rparr>) =
      exec_loop (recorder hc [ch]) [ch] (proj data c)"
  proof (cases "body_mark c")
    case None
    then have "(proj data c)\<lparr>body_mark := None\<rparr> = proj data c" by (simp add: proj_def)
    then show ?thesis by simp
  next
    case (Some i)
    with assms(1) show ?thesis
      by (intro body_mark_irrelevant) (auto simp: proj_def ctx_ok_def marks_ok_def)
  qed
  ultimately show ?thesis by simp
qed

text \<open>A call on one byte does what the round of the long buffer does.\<close>

lemma single_round:
  assumes "fine 0 c" "marks_set c" "\<not> hp_upgrade (parser c)" "pos c < length data"
    "one_byte (length data) c" "\<not> header_overflow c"
    "run_byte reexecute_bound (recorder hc data) (length data) (data ! pos c) (count_byte c) = (c', k)"
  shows "http_parser_execute (recorder hc [data ! pos c]) (parser c) (flushed data c) [data ! pos c] =
      continue (recorder hc [data ! pos c]) [data ! pos c] (proj data c', proj_ctl (pos c) k)"
    and "flow_ok (c', k)" "pos c' = pos c" "step_ok (length data) (\<lambda>_. True) 0 (c', k)"
proof -
  let ?ch = "data ! pos c" and ?c = "count_byte c"
  have c: "fine 1 ?c" using recorder.count_byte_ok[OF assms(1,6)] .
  have cb: "count_byte (proj data c) = proj data ?c" "header_overflow (proj data c) = header_overflow c"
    by (simp_all add: count_byte_def header_overflow_def)
  have c': "marks_set ?c" "\<not> hp_upgrade (parser ?c)" "one_byte (length data) ?c"
    using assms(2,3,5) by (simp_all add: count_byte_def marks_set_def one_byte_def to_read_def)
  have n: "reexecute_bound \<noteq> 0" by (simp add: reexecute_bound_def)
  have r: "proj_result data (c', k) = run_byte reexecute_bound (recorder hc [?ch]) 1 ?ch (proj data ?c)"
      "pos c' = pos c \<and> flow_ok (c', k)"
    using proj_run_byte[OF c c'(1) _ _ c'(3), of reexecute_bound hc] c'(2) assms(4,7) n
    by (auto simp del: proj_result_simps)
  then show "flow_ok (c', k)" "pos c' = pos c" by simp_all
  show "step_ok (length data) (\<lambda>_. True) 0 (c', k)"
    using recorder.run_byte_ok[OF c _ reexec_rank_bound] assms(4,7) by (metis pos_count_byte)
  have "exec_loop (recorder hc [?ch]) [?ch] (proj data c) =
      continue (recorder hc [?ch]) [?ch] (proj data c', proj_ctl (pos c) k)"
    using exec_loop_round[of "proj data c" "[?ch]" "recorder hc [?ch]"] assms(6) r cb
    by simp
  moreover have "hp_errno (parser c) = HPE_OK" using assms(1) by (simp add: ctx_ok_def)
  ultimately show "http_parser_execute (recorder hc [?ch]) (parser c) (flushed data c) [?ch] =
      continue (recorder hc [?ch]) [?ch] (proj data c', proj_ctl (pos c) k)"
    by (simp add: http_parser_execute_def enter_proj[OF assms(1,2)])
qed

section \<open>A whole buffer\<close>

text \<open>
  The reference: hand over the stream one byte at a time, and stop at an error or when the connection
  is upgraded to another protocol.
\<close>

fun count_one :: "'u exec_result \<Rightarrow> 'u exec_result" where
  "count_one (q, u, Parsed n) = (q, u, Parsed (n + 1))"
| "count_one r = r"

fun feed ::
  "(http_parser \<Rightarrow> int) \<Rightarrow> http_parser \<Rightarrow> event list \<Rightarrow> string \<Rightarrow> event list exec_result" where
  "feed hc q u [] = (q, u, Parsed 0)"
| "feed hc q u (ch # cs) =
     (case http_parser_execute (recorder hc [ch]) q u [ch] of (q', u', e) \<Rightarrow>
        if hp_errno q' = HPE_OK \<and> \<not> hp_upgrade q' then count_one (feed hc q' u' cs) else (q', u', e))"

text \<open>
  Two results agree when the parsers and the positions do. The log of the long buffer may lack the
  last bytes, but only after an error.
\<close>

fun agree :: "nat \<Rightarrow> event list exec_result \<Rightarrow> event list exec_result \<Rightarrow> bool" where
  "agree p (q, u, e) (q', u', e') \<longleftrightarrow> q = q' \<and> prefix u u' \<and> (hp_errno q = HPE_OK \<longrightarrow> u = u')
     \<and> (case (e, e') of (Parsed n, Parsed n') \<Rightarrow> n = p + n' | _ \<Rightarrow> False)"

lemma agree_count_one: "agree (Suc p) r r' \<Longrightarrow> agree p r (count_one r')"
  by (cases r; cases r' rule: count_one.cases) (auto split: exec_end.splits)

lemma prefix_flushed: "prefix (udata c) (flushed data c)"
  by (simp add: flushed_def)

lemma first_byte_flushed:
  assumes "fine 0 c" "hp_state (parser c) \<in> body_states" "pos c < length data"
  shows "flushed data (first_byte c) = flushed data c @ [Byte Body (data ! pos c)]"
proof -
  have m: "marks_ok c" using assms(1) by (simp add: ctx_ok_def)
  have "no_marks (c\<lparr>body_mark := None\<rparr>)"
    using marks_by_state(5)[OF m] assms(2) by (auto simp: body_states_def body_mark_states_def)
  moreover have "\<And>i. body_mark c = Some i \<Longrightarrow> i \<le> pos c" using m by (simp add: marks_ok_def)
  ultimately show ?thesis
    using assms(3)
    by (auto simp: flushed_def first_byte_def no_marks_def MARK_def pending_Suc split: option.split)
qed

lemma single_first:
  assumes "fine 0 c" "hp_state (parser c) \<in> body_states" "pos c < length data"
    "\<not> one_byte (length data) c" "marks_set c" "\<not> hp_upgrade (parser c)"
  shows "http_parser_execute (recorder hc [data ! pos c]) (parser c) (flushed data c) [data ! pos c] =
     (parser (first_byte c), flushed data (first_byte c), Parsed 1)"
proof -
  let ?ch = "data ! pos c" and ?c = "enter (parser c) (flushed data c)"
  let ?S = "recorder hc [?ch]"
  have c: "parser ?c = parser c" "pos ?c = 0" "udata ?c = flushed data c" "no_marks ?c"
    using assms(2) by (auto simp: enter_def no_marks_def body_states_def url_states_def)
  have ok: "hp_errno (parser c) = HPE_OK" using assms(1) by (simp add: ctx_ok_def)
  have p: "parser (first_byte ?c) = parser (first_byte c)" using c(1) by (simp add: first_byte_def)
  have wf: "wf_parser (parser c)" "wf_parser (parser (first_byte c))"
    using assms(1) first_byte_fine(1)[OF assms] by (simp_all add: ctx_ok_def)
  have "dispatch ?S 1 ?ch ?c = ((first_byte ?c)\<lparr>pos := 0\<rparr>, Next)"
  proof (cases "hp_state (parser c) = s_body_identity_eof")
    case True
    with c show ?thesis by (simp add: dispatch_def do_body_identity_eof_def first_byte_def)
  next
    case False
    then have b: "hp_state (parser c) \<in> {s_body_identity, s_chunk_data}"
      using assms(2) by (auto simp: body_states_def)
    have n: "hp_content_length (parser c) \<noteq> 0" "hp_content_length (parser c) \<noteq> ULLONG_MAX"
        "hp_state (parser c) = s_chunk_data \<Longrightarrow> flag_set (parser c) F_CHUNKED"
      using wf(1) b by (auto simp: wf_defs chunk_states_def)
    then have "to_read 1 ?c = 1"
      using c(1,2) unat_gt_0[of "hp_content_length (parser c)"] by (simp add: to_read_def)
    then have t: "take_body 1 ?c = (first_byte ?c)\<lparr>pos := 0\<rparr>"
      using c(1,2) False by (simp add: take_body_def first_byte_def)
    show ?thesis
      using b n c(1) first_byte_length(2)[OF assms(1) b assms(3,4)] False
      by (auto simp: dispatch_def do_body_identity_def do_chunk_data_def ASSERT_def Let_def t p
          simp del: One_nat_def) (simp_all add: first_byte_def)
  qed
  then have "run_byte reexecute_bound ?S 1 ?ch ?c = ((first_byte ?c)\<lparr>pos := 0\<rparr>, Next)"
    by (simp add: reexecute_bound_def eval_nat_numeral)
  then have "exec_loop ?S [?ch] ?c = exec_loop ?S [?ch] (first_byte ?c)"
    using exec_loop_round[of ?c "[?ch]" ?S] body_not_counted[of ?c] assms(2) c
    by (simp add: continue_simps first_byte_def)
  also have "\<dots> = (parser (first_byte ?c), flushed [?ch] (first_byte ?c), Parsed 1)"
  proof -
    have "marks_ok (first_byte ?c)"
      using c assms(2) by (auto simp: marks_ok_def no_marks_def first_byte_def body_states_def
          body_mark_states_def MARK_def)
    then have "fine 0 (first_byte ?c)"
      using wf(2) p ok c(1) by (simp add: ctx_ok_def) (simp add: first_byte_def)
    moreover have "pos (first_byte ?c) = length [?ch]" using c(2) by (simp add: first_byte_def)
    ultimately show ?thesis by (simp add: exec_loop_end after_loop_recorder)
  qed
  also have "flushed [?ch] (first_byte ?c) = flushed data (first_byte c)"
    using c first_byte_flushed[OF assms(1-3)]
    by (simp add: flushed_def first_byte_def no_marks_def MARK_def pending_Suc)
  finally show ?thesis
    using ok p by (simp add: http_parser_execute_def)
qed

text \<open>A byte after which the call goes on, and a byte after which it does not.\<close>

lemma single_next:
  assumes "fine 0 c'" "pos c' < length data"
  shows "continue (recorder hc [data ! pos c']) [data ! pos c'] (proj data c', Next) =
     (parser c', flushed data (c'\<lparr>pos := pos c' + 1\<rparr>), Parsed 1)"
proof -
  let ?d = "(proj data c')\<lparr>pos := 1\<rparr>"
  have "fine 0 ?d"
    using assms(1) by (auto simp: ctx_ok_def marks_ok_def proj_def mark_at_def split: option.splits)
  with flushed_proj[OF assms] show ?thesis
    by (simp add: continue_simps exec_loop_end after_loop_recorder)
qed

lemma single_stop:
  assumes "step_ok len (\<lambda>_. True) 0 (c', k)" "flow_ok (c', k)" "k \<noteq> Next"
  shows "agree (pos c') (finish (c', k)) (continue S data' (proj data c', proj_ctl (pos c') k))"
    and "hp_errno (fst (finish (c', k))) \<noteq> HPE_OK \<or> hp_upgrade (fst (finish (c', k)))"
proof -
  have f: "flushed data c' = udata c'" if "no_marks c'" using that by (simp add: no_marks_def flushed_def)
  show "agree (pos c') (finish (c', k)) (continue S data' (proj data c', proj_ctl (pos c') k))"
  proof (cases k)
    case Goto_error
    with assms(1) show ?thesis
      by (simp add: continue_simps finish_def at_error_def step_ok_def prefix_flushed)
  next
    case (Return n)
    with assms(2) f show ?thesis by (simp add: continue_simps finish_def prefix_flushed)
  qed (use assms(1,3) in \<open>simp_all add: step_ok_def\<close>)
  show "hp_errno (fst (finish (c', k))) \<noteq> HPE_OK \<or> hp_upgrade (fst (finish (c', k)))"
    using assms by (cases k) (auto simp: step_ok_def finish_def at_error_def)
qed

text \<open>The refinement: what is left of a buffer, fed byte by byte.\<close>

lemma feed_Cons:
  "http_parser_execute (recorder hc [ch]) q u [ch] = (q', u', e) \<Longrightarrow> hp_errno q' = HPE_OK \<Longrightarrow>
     \<not> hp_upgrade q' \<Longrightarrow> feed hc q u (ch # cs) = count_one (feed hc q' u' cs)"
  "http_parser_execute (recorder hc [ch]) q u [ch] = (q', u', e) \<Longrightarrow>
     hp_errno q' \<noteq> HPE_OK \<or> hp_upgrade q' \<Longrightarrow> feed hc q u (ch # cs) = (q', u', e)"
  by auto

lemma single_overflow:
  assumes "fine 0 c" "marks_set c" "header_overflow c" "pos c < length data"
  shows "agree (pos c) (exec_loop (recorder hc data) data c)
    (feed hc (parser c) (flushed data c) (data ! pos c # cs))"
proof -
  let ?q = "parser (set_errno HPE_HEADER_OVERFLOW (count_byte c))"
  have "header_overflow (proj data c)" using assms(3) by (auto simp: header_overflow_def count_byte_def)
  then have "exec_loop (recorder hc [data ! pos c]) [data ! pos c] (proj data c) = (?q, flushed data c, Parsed 0)"
    by (simp add: exec_loop_overflow at_error_def set_errno_def count_byte_def)
  then have "http_parser_execute (recorder hc [data ! pos c]) (parser c) (flushed data c) [data ! pos c] =
      (?q, flushed data c, Parsed 0)"
    using assms(1) by (simp add: http_parser_execute_def enter_proj[OF assms(1,2)] ctx_ok_def)
  then have "feed hc (parser c) (flushed data c) (data ! pos c # cs) = (?q, flushed data c, Parsed 0)"
    by (rule feed_Cons) (simp add: set_errno_def)
  with assms(3,4) show ?thesis
    by (simp add: exec_loop_overflow at_error_def set_errno_def count_byte_def prefix_flushed)
qed

lemma exec_loop_bytewise:
  "fine 0 c \<Longrightarrow> marks_set c \<Longrightarrow> \<not> hp_upgrade (parser c) \<Longrightarrow> pos c \<le> length data \<Longrightarrow>
     agree (pos c) (exec_loop (recorder hc data) data c)
       (feed hc (parser c) (flushed data c) (drop (pos c) data))"
proof (induction "length data - pos c" arbitrary: c rule: less_induct)
  case less
  let ?n = "length data" and ?S = "recorder hc data" and ?ch = "data ! pos c"
  let ?one = "http_parser_execute (recorder hc [?ch]) (parser c) (flushed data c) [?ch]"
  note c = less.prems(1-3)
  consider "pos c = ?n" | "pos c < ?n" "header_overflow c"
    | "pos c < ?n" "\<not> one_byte ?n c" | "pos c < ?n" "\<not> header_overflow c" "one_byte ?n c"
    using less.prems(4) by linarith
  then show ?case
  proof cases
    case 1
    with c(1) show ?thesis by (simp add: exec_loop_end after_loop_recorder)
  next
    case 2
    then show ?thesis using single_overflow[OF c(1,2) 2(2,1)] by (simp flip: Cons_nth_drop_Suc)
  next
    case 3
    then have b: "hp_state (parser c) \<in> body_states" by (auto simp: one_byte_def body_states_def)
    have p: "pos (first_byte c) = pos c + 1" by (simp add: first_byte_def)
    note f = first_byte_fine[OF c(1) b 3 c(2,3)]
    have "agree (pos c + 1) (exec_loop ?S data (first_byte c))
        (feed hc (parser (first_byte c)) (flushed data (first_byte c)) (drop (pos c + 1) data))"
      using less.hyps[of "first_byte c"] f 3(1) p by simp
    moreover have "feed hc (parser c) (flushed data c) (drop (pos c) data) =
        count_one (feed hc (parser (first_byte c)) (flushed data (first_byte c)) (drop (pos c + 1) data))"
      using feed_Cons(1)[OF single_first[OF c(1) b 3 c(2,3)]] f(1,3) 3(1)
      by (simp add: ctx_ok_def flip: Cons_nth_drop_Suc)
    ultimately show ?thesis
      using exec_loop_first[OF c(1) b 3] agree_count_one by simp
  next
    case 4
    obtain c' k where r: "run_byte reexecute_bound ?S ?n ?ch (count_byte c) = (c', k)" by fastforce
    note s = single_round[OF c 4(1,3,2) r]
    show ?thesis
    proof (cases "k = Next")
      case True
      let ?d = "c'\<lparr>pos := pos c' + 1\<rparr>"
      have c': "fine 0 c'" "marks_set c'" "\<not> hp_upgrade (parser c')" using s(2,4) True by simp_all
      have "agree (pos c + 1) (exec_loop ?S data ?d)
          (feed hc (parser c') (flushed data ?d) (drop (pos c + 1) data))"
        using less.hyps[of ?d] c' ctx_ok_advance[OF c'(1)] 4(1) s(3) by (simp add: marks_set_def)
      moreover have "?one = (parser c', flushed data ?d, Parsed 1)"
        using s(1) single_next[OF c'(1), of data hc] s(3) 4(1) True by simp
      then have "feed hc (parser c) (flushed data c) (drop (pos c) data) =
          count_one (feed hc (parser c') (flushed data ?d) (drop (pos c + 1) data))"
        using feed_Cons(1) c' 4(1) by (simp add: ctx_ok_def flip: Cons_nth_drop_Suc)
      ultimately show ?thesis
        using exec_loop_next[OF 4(1,2) r[unfolded True]] agree_count_one by simp
    next
      case False
      note t = single_stop[OF s(4,2) False]
      obtain q u e where one: "?one = (q, u, e)" by (cases ?one)
      have a: "agree (pos c) (finish (c', k)) (q, u, e)" using t(1) s(1,3) one by metis
      then have "q = fst (finish (c', k))" by (cases "finish (c', k)") simp
      then have "feed hc (parser c) (flushed data c) (drop (pos c) data) = (q, u, e)"
        using feed_Cons(2)[OF one] t(2) 4(1) by (simp flip: Cons_nth_drop_Suc)
      with a show ?thesis using exec_loop_stop[OF 4(1,2) r False] by simp
    qed
  qed
qed

section \<open>A stream in two pieces\<close>

lemma execute_agrees:
  assumes "wf_parser q" "hp_errno q = HPE_OK" "\<not> hp_upgrade q" "data \<noteq> []"
  shows "agree 0 (http_parser_execute (recorder hc data) q u data) (feed hc q u data)"
proof -
  let ?c = "enter q u"
  have "fine 0 ?c" using enter_ok[where Q = "\<lambda>_. True"] assms(1,2) by simp
  moreover have "marks_set ?c" by (auto simp: marks_set_def enter_def)
  moreover have "parser ?c = q" "pos ?c = 0" "flushed data ?c = u"
    by (simp_all add: enter_def flushed_def pending_def)
  ultimately show ?thesis
    using exec_loop_bytewise[of ?c data hc] assms(2-4) by (simp add: http_parser_execute_def)
qed

lemma feed_append:
  assumes "feed hc q u d1 = (q1, u1, e)" "hp_errno q1 = HPE_OK" "\<not> hp_upgrade q1"
  shows "feed hc q u (d1 @ d2) = (count_one ^^ length d1) (feed hc q1 u1 d2)"
  using assms
proof (induction d1 arbitrary: q u e)
  case (Cons ch d1)
  obtain q' u' e' where x: "http_parser_execute (recorder hc [ch]) q u [ch] = (q', u', e')"
    by (cases "http_parser_execute (recorder hc [ch]) q u [ch]")
  show ?case
  proof (cases "hp_errno q' = HPE_OK \<and> \<not> hp_upgrade q'")
    case True
    obtain q2 u2 e2 where f: "feed hc q' u' d1 = (q2, u2, e2)" by (cases "feed hc q' u' d1")
    with Cons.prems(1) x True have "q2 = q1" "u2 = u1" by (cases e2; simp)+
    with Cons.IH[of q' u' e2] f Cons.prems(2,3) x True show ?thesis by simp
  next
    case False
    with Cons.prems x show ?thesis by auto
  qed
qed simp

lemma count_ones: "(count_one ^^ n) (q, u, Parsed m) = (q, u, Parsed (m + n))"
  by (induction n) simp_all

lemma agree_finished:
  assumes "agree p (q, u, e) r" "hp_errno q = HPE_OK"
  obtains n where "r = (q, u, Parsed n)" "e = Parsed (p + n)"
  using assms that by (cases r) (auto split: exec_end.splits)

section \<open>Properties\<close>

text \<open>
  C4 One call of \<open>http_parser_execute\<close> on a buffer does what one call per byte does, from every well-formed
  parser without an error and without a pending upgrade: it leaves the same parser, with the same error,
  after the same number of bytes. Without an error the application has been told the same; after an error what
  the long call has told it is a prefix of what the calls per byte have, as it owes the last bytes of the item
  that it was reading. The reference \<open>feed\<close> stops, as an application does, at an error or an upgrade of the
  connection.
\<close>

theorem execute_bytewise:
  assumes "wf_parser q" "hp_errno q = HPE_OK" "\<not> hp_upgrade q" "data \<noteq> []"
  shows "agree 0 (http_parser_execute (recorder hc data) q u data) (feed hc q u data)"
  by (rule execute_agrees[OF assms])

theorem execute_bytewise_witness:
  "agree 0 (http_parser_execute (recorder (\<lambda>_. 0) ''GET /a HTTP/1.1'') (http_parser_init HTTP_REQUEST) [] ''GET /a HTTP/1.1'')
     (feed (\<lambda>_. 0) (http_parser_init HTTP_REQUEST) [] ''GET /a HTTP/1.1'')"
  by (rule execute_bytewise) (simp_all add: wf_parser_init, simp_all add: http_parser_init_def)

text \<open>
  C30 A stream may be cut behind any first piece that is parsed without an error and without an upgrade of the
  connection: parsing the whole stream in one call then leaves the same parser, with the same error, as parsing
  the second piece after the first, and uses the bytes of both; if there is no error, it also reports the same.
\<close>

theorem stream_may_be_cut:
  assumes "wf_parser q" "hp_errno q = HPE_OK" "\<not> hp_upgrade q" "d1 \<noteq> []" "d2 \<noteq> []"
    and first: "http_parser_execute (recorder hc d1) q u d1 = (q1, u1, e1)"
    and "hp_errno q1 = HPE_OK" "\<not> hp_upgrade q1"
  shows "case (http_parser_execute (recorder hc (d1 @ d2)) q u (d1 @ d2),
      http_parser_execute (recorder hc d2) q1 u1 d2) of ((q12, u12, e12), (q2, u2, e2)) \<Rightarrow>
        q12 = q2 \<and> (hp_errno q2 = HPE_OK \<longrightarrow> u12 = u2) \<and>
        (\<exists>n. e2 = Parsed n \<and> e12 = Parsed (length d1 + n))"
proof -
  obtain n where f1: "feed hc q u d1 = (q1, u1, Parsed n)"
    using agree_finished[of 0 q1 u1 e1] execute_agrees[OF assms(1-4), of hc u] first assms(7) by metis
  have wf: "wf_parser q1"
    using recorder.execute_ok[OF assms(1) _ assms(4), of hc d1 u] first assms(7)
    by (simp add: exec_ok_iff)
  have a12: "agree 0 (http_parser_execute (recorder hc (d1 @ d2)) q u (d1 @ d2))
      ((count_one ^^ length d1) (feed hc q1 u1 d2))"
    using execute_agrees[OF assms(1-3), of "d1 @ d2" hc u] assms(4) feed_append[OF f1 assms(7,8)] by simp
  have a2: "agree 0 (http_parser_execute (recorder hc d2) q1 u1 d2) (feed hc q1 u1 d2)"
    by (rule execute_agrees[OF wf assms(7,8,5)])
  obtain qf uf m where "feed hc q1 u1 d2 = (qf, uf, Parsed m)"
    using a2 by (cases "feed hc q1 u1 d2"; cases "http_parser_execute (recorder hc d2) q1 u1 d2")
      (auto split: exec_end.splits)
  with a12 a2 show ?thesis
    by (auto simp: count_ones split: exec_end.splits prod.splits)
qed

lemma first_piece:
  "http_parser_execute (recorder (\<lambda>_. 0) ''GET /a'') (http_parser_init HTTP_REQUEST) [] ''GET /a'' =
     ((http_parser_init HTTP_REQUEST)\<lparr>hp_state := s_req_path, hp_index := 4, hp_nread := 6,
         hp_content_length := ULLONG_MAX, hp_method := HTTP_GET\<rparr>,
      [Message_begin, Byte Url (CHR ''/''), Byte Url (CHR ''a'')], Parsed 6)"
  by code_simp

theorem stream_may_be_cut_witness:
  "case (http_parser_execute (recorder (\<lambda>_. 0) (''GET /a'' @ ''b HTTP'')) (http_parser_init HTTP_REQUEST) [] (''GET /a'' @ ''b HTTP''),
      http_parser_execute (recorder (\<lambda>_. 0) ''b HTTP'')
        ((http_parser_init HTTP_REQUEST)\<lparr>hp_state := s_req_path, hp_index := 4, hp_nread := 6,
           hp_content_length := ULLONG_MAX, hp_method := HTTP_GET\<rparr>)
        [Message_begin, Byte Url (CHR ''/''), Byte Url (CHR ''a'')] ''b HTTP'') of
      ((q12, u12, e12), (q2, u2, e2)) \<Rightarrow>
        q12 = q2 \<and> (hp_errno q2 = HPE_OK \<longrightarrow> u12 = u2) \<and>
        (\<exists>n. e2 = Parsed n \<and> e12 = Parsed (length ''GET /a'' + n))"
  by (rule stream_may_be_cut[OF _ _ _ _ _ first_piece]) (simp_all add: wf_parser_init, simp_all add: http_parser_init_def)

end
