(* ===== verification/Luaw_Suspend.thy ===== *)
theory Luaw_Suspend
  imports Luaw_Http Http_Bytewise
begin

text \<open>
  The parser with the callbacks of \<open>parse_http\<close>, which suspend it, beside the parser with the recorder, which
  runs through. Two facts connect them: nothing but the limit depends on the count \<open>hp_nread\<close> of header bytes
  (\<open>count_at\<close> overwrites it), which differs between the two because a byte at which the parser is suspended may be
  read again; and one round of the \<open>switch\<close> with the suspending callbacks does what the recording round does
  up to the first callback, and has then reported what the recorder has written down (\<open>pair\<close>).
\<close>

section \<open>The count of header bytes\<close>

text \<open>Overwrite the count in a parser, in a context and in the result of a step.\<close>

definition nread_at :: "32 word \<Rightarrow> http_parser \<Rightarrow> http_parser" where
  "nread_at x q = q\<lparr>hp_nread := x\<rparr>"

definition count_at :: "32 word \<Rightarrow> 'u exec_ctx \<Rightarrow> 'u exec_ctx" where
  "count_at x c = upd_parser (nread_at x) c"

definition result_at :: "32 word \<Rightarrow> 'u step_result \<Rightarrow> 'u step_result" where
  "result_at x r = (case r of (c, k) \<Rightarrow> (count_at x c, k))"

lemma at_result_pair [simp]: "result_at x (c, k) = (count_at x c, k)"
  by (simp add: result_at_def)

lemma nread_at_fields [simp]:
  "hp_type (nread_at x q) = hp_type q" "hp_flags (nread_at x q) = hp_flags q" "hp_state (nread_at x q) = hp_state q"
  "hp_header_state (nread_at x q) = hp_header_state q" "hp_index (nread_at x q) = hp_index q"
  "hp_content_length (nread_at x q) = hp_content_length q" "hp_http_major (nread_at x q) = hp_http_major q"
  "hp_http_minor (nread_at x q) = hp_http_minor q" "hp_status_code (nread_at x q) = hp_status_code q"
  "hp_method (nread_at x q) = hp_method q" "hp_errno (nread_at x q) = hp_errno q" "hp_upgrade (nread_at x q) =
      hp_upgrade q"
  "hp_nread (nread_at x q) = x" "nread_at y (nread_at x q) = nread_at y q"
  by (simp_all add: nread_at_def)

lemma nread_at_updates [simp]:
  "nread_at x (q\<lparr>hp_type := t\<rparr>) = (nread_at x q)\<lparr>hp_type := t\<rparr>" "nread_at x
      (q\<lparr>hp_flags := f\<rparr>) = (nread_at x q)\<lparr>hp_flags := f\<rparr>"
  "nread_at x (q\<lparr>hp_state := s\<rparr>) = (nread_at x q)\<lparr>hp_state := s\<rparr>"
  "nread_at x (q\<lparr>hp_header_state := h\<rparr>) = (nread_at x q)\<lparr>hp_header_state := h\<rparr>"
  "nread_at x (q\<lparr>hp_index := i\<rparr>) = (nread_at x q)\<lparr>hp_index := i\<rparr>"
  "nread_at x (q\<lparr>hp_content_length := n\<rparr>) = (nread_at x q)\<lparr>hp_content_length := n\<rparr>"
  "nread_at x (q\<lparr>hp_http_major := ma\<rparr>) = (nread_at x q)\<lparr>hp_http_major := ma\<rparr>"
  "nread_at x (q\<lparr>hp_http_minor := mi\<rparr>) = (nread_at x q)\<lparr>hp_http_minor := mi\<rparr>"
  "nread_at x (q\<lparr>hp_status_code := sc\<rparr>) = (nread_at x q)\<lparr>hp_status_code := sc\<rparr>"
  "nread_at x (q\<lparr>hp_method := m\<rparr>) = (nread_at x q)\<lparr>hp_method := m\<rparr>"
  "nread_at x (q\<lparr>hp_errno := e\<rparr>) = (nread_at x q)\<lparr>hp_errno := e\<rparr>"
  "nread_at x (q\<lparr>hp_upgrade := b\<rparr>) = (nread_at x q)\<lparr>hp_upgrade := b\<rparr>"
  "nread_at x (q\<lparr>hp_nread := y\<rparr>) = nread_at x q"
  by (simp_all add: nread_at_def)

lemma at_fields [simp]:
  "parser (count_at x c) = nread_at x (parser c)" "pos (count_at x c) = pos c" "udata (count_at x c) = udata c"
  "header_field_mark (count_at x c) = header_field_mark c" "header_value_mark (count_at x c) = header_value_mark c"
  "url_mark (count_at x c) = url_mark c" "body_mark (count_at x c) = body_mark c" "status_mark (count_at x c) =
      status_mark c"
  "count_at y (count_at x c) = count_at y c"
  by (simp_all add: count_at_def)

lemma at_parser [simp]:
  "NEW_MESSAGE (nread_at x q) = NEW_MESSAGE q" "flag_set (nread_at x q) f = flag_set q f"
  "http_message_needs_eof (nread_at x q) = http_message_needs_eof q"
  by (simp_all add: nread_at_def NEW_MESSAGE_def http_should_keep_alive_def http_message_needs_eof_def
      flag_set_def start_state_def)

lemma at_updates [simp]:
  "count_at x (set_state s c) = set_state s (count_at x c)"
  "count_at x (set_header_state h c) = set_header_state h (count_at x c)"
  "count_at x (set_index i c) = set_index i (count_at x c)"
  "count_at x (add_flag f c) = add_flag f (count_at x c)"
  "count_at x (set_errno e c) = set_errno e (count_at x c)"
  "count_at x (c\<lparr>header_field_mark := m\<rparr>) = (count_at x c)\<lparr>header_field_mark := m\<rparr>"
  "count_at x (c\<lparr>header_value_mark := m\<rparr>) = (count_at x c)\<lparr>header_value_mark := m\<rparr>"
  "count_at x (c\<lparr>url_mark := m\<rparr>) = (count_at x c)\<lparr>url_mark := m\<rparr>"
  "count_at x (c\<lparr>body_mark := m\<rparr>) = (count_at x c)\<lparr>body_mark := m\<rparr>"
  "count_at x (c\<lparr>status_mark := m\<rparr>) = (count_at x c)\<lparr>status_mark := m\<rparr>"
  "count_at x (c\<lparr>pos := p\<rparr>) = (count_at x c)\<lparr>pos := p\<rparr>" "count_at x (c\<lparr>udata
      := u\<rparr>) = (count_at x c)\<lparr>udata := u\<rparr>"
  "count_at x (c\<lparr>parser := q\<rparr>) = c\<lparr>parser := nread_at x q\<rparr>" "(count_at x
      c)\<lparr>parser := q\<rparr> = c\<lparr>parser := q\<rparr>"
  by (simp_all add: count_at_def set_state_def set_header_state_def set_index_def add_flag_def set_errno_def)

lemma at_fail [simp]: "result_at x (fail e c) = fail e (count_at x c)"
  by (simp add: fail_def)

lemma at_checks:
  "result_at x (STRICT_CHECK b c r) = STRICT_CHECK b (count_at x c) (result_at x r)"
  "result_at x (ASSERT b c r) = ASSERT b (count_at x c) (result_at x r)"
  by (simp_all add: STRICT_CHECK_def ASSERT_def)

lemma at_and_then:
  "(\<And>c'. result_at x (f c') = f' (count_at x c')) \<Longrightarrow> result_at x (and_then r f) = and_then
      (result_at x r) f'"
  by (cases "(r, f)" rule: and_then.cases) auto

abbreviation rec :: "string \<Rightarrow> event list http_parser_settings" where
  "rec data \<equiv> recorder (\<lambda>_. 0) data"

lemma at_callbacks:
  "result_at x (notify_message_begin (rec data) ret c) = notify_message_begin (rec data) ret (count_at x c)"
  "result_at x (notify_message_complete (rec data) ret c) = notify_message_complete (rec data) ret (count_at x c)"
  "result_at x (data_header_field (rec data) ret c) = data_header_field (rec data) ret (count_at x c)"
  "result_at x (data_header_value (rec data) ret c) = data_header_value (rec data) ret (count_at x c)"
  "result_at x (data_url (rec data) ret c) = data_url (rec data) ret (count_at x c)"
  "result_at x (data_status (rec data) ret c) = data_status (rec data) ret (count_at x c)"
  "result_at x (data_body (rec data) ex ret c) = data_body (rec data) ex ret (count_at x c)"
  "result_at x (call_headers_complete (rec data) c) = call_headers_complete (rec data) (count_at x c)"
  by (auto simp add: notify_message_begin_def notify_message_complete_def CALLBACK_NOTIFY_def CALLBACK_DATA_def
      data_header_field_def data_header_value_def data_url_def data_status_def data_body_def recorder_def
      record_data_def call_headers_complete_def Let_def count_at_def set_errno_def split: option.split)

lemma at_if:
  "result_at x (if b then r else r') = (if b then result_at x r else result_at x r')"
  "count_at x (if b then c else c') = (if b then count_at x c else count_at x c')"
  by simp_all

lemmas at_distrib = at_if option.case_distrib[of "result_at x" for x]
  header_states.case_distrib[of "result_at x" for x] header_states.case_distrib[of "count_at x" for x]
  prod.case_distrib[of "result_at x" for x]

lemma at_take_body: "count_at x (take_body len c) = take_body len (count_at x c)"
  by (simp add: take_body_def to_read_def Let_def)

text \<open>The handlers that test or reset the count, or choose by a case inside a case, one by one.\<close>

lemma at_take_body_fields:
  "hp_content_length (parser (take_body len (count_at x c))) = hp_content_length (parser (take_body len c))"
  "pos (take_body len (count_at x c)) = pos (take_body len c)"
  by (simp_all add: take_body_def to_read_def Let_def)

lemma nread_at_set: "q\<lparr>hp_nread := x\<rparr> = nread_at x q"
  by (simp add: nread_at_def)

lemma at_req_method:
  "result_at y (do_req_method ch (count_at x c)) = result_at y (do_req_method ch c)"
  by (cases "c_str_at (method_strings (hp_method (parser c))) (unat (hp_index (parser c)))";
      cases "switch_method (hp_method (parser c)) (hp_index (parser c)) ch")
     (simp_all add: do_req_method_def Let_def at_if del: c_str_at_None)

lemma at_header_value_start:
  "result_at y (do_header_value_start (rec data) ch (count_at x c)) = result_at y (do_header_value_start (rec
      data) ch c)"
  by (cases "hp_header_state (parser c)")
     (simp_all add: do_header_value_start_def Let_def at_if at_callbacks, simp_all add: count_at_def
         set_index_def set_state_def)

lemma at_headers_almost_done:
  "result_at y (do_headers_almost_done (rec data) ch (count_at x c)) = result_at y (do_headers_almost_done (rec
      data) ch c)"
proof -
  have "result_at y (and_then (call_headers_complete (rec data) c')
      (\<lambda>c1. if hp_errno (parser c1) \<noteq> HPE_OK then (c1, Return (pos c1)) else (c1, Reexecute))) =
    and_then (call_headers_complete (rec data) (count_at y c'))
      (\<lambda>c1. if hp_errno (parser c1) \<noteq> HPE_OK then (c1, Return (pos c1)) else (c1, Reexecute))" for c'
    unfolding at_callbacks(8)[symmetric] by (rule at_and_then) (simp add: at_if)
  then show ?thesis
    by (simp add: do_headers_almost_done_def at_checks at_if at_callbacks) (simp add: count_at_def set_state_def
        flag_set_def)
qed

lemma at_headers_done:
  "result_at y (do_headers_done (rec data) ch (count_at x c)) = result_at y (do_headers_done (rec data) ch c)"
  by (simp add: do_headers_done_def Let_def at_checks at_if at_callbacks at_and_then nread_at_set)

text \<open>
  Except where a chunk begins (there the parser asserts that the count is 1), the \<open>switch\<close> only
      passes the
  count on or resets it.
\<close>

lemma at_dispatch:
  assumes "hp_state (parser c) \<noteq> s_chunk_size_start"
  shows "result_at y (dispatch (rec data) len ch (count_at x c)) = result_at y (dispatch (rec data) len ch c)"
  using assms
  by (cases "hp_state (parser c)")
     (simp_all only: dispatch_def state.case at_fields nread_at_fields at_req_method at_header_value_start
         at_headers_almost_done at_headers_done,
      simp_all add: handler_defs Let_def at_distrib at_checks at_callbacks at_and_then at_take_body
          at_take_body_fields
       del: call_headers_complete_def do_req_method_def do_header_value_start_def do_headers_almost_done_def
           do_headers_done_def
       split: option.split header_states.split prod.split)


section \<open>A suspended step and a recorded one\<close>

text \<open>The same context with another application.\<close>

definition as_rec :: "'v \<Rightarrow> 'u exec_ctx \<Rightarrow> 'v exec_ctx" where
  "as_rec u c = \<lparr>parser = parser c, header_field_mark = header_field_mark c, header_value_mark =
      header_value_mark c,
     url_mark = url_mark c, body_mark = body_mark c, status_mark = status_mark c, pos = pos c, udata = u\<rparr>"

lemma as_rec_fields [simp]:
  "parser (as_rec u c) = parser c" "pos (as_rec u c) = pos c" "udata (as_rec u c) = u"
  "header_field_mark (as_rec u c) = header_field_mark c" "header_value_mark (as_rec u c) = header_value_mark c"
  "url_mark (as_rec u c) = url_mark c" "body_mark (as_rec u c) = body_mark c" "status_mark (as_rec u c) =
      status_mark c"
  by (simp_all add: as_rec_def)

text \<open>What the last callback of a call has told Lua, as events of the recorder.\<close>

definition told_by :: "string \<Rightarrow> callback_info \<Rightarrow> event list" where
  "told_by data info =
     (let bytes = (case cb_start info of None \<Rightarrow> [] | Some at \<Rightarrow> span at (cb_len info)
         data) in
      case cb_type info of
        http_cb_none \<Rightarrow> []
      | http_cb_on_message_begin \<Rightarrow> [Message_begin]
      | http_cb_on_headers_complete \<Rightarrow> [event.Headers_complete]
      | http_cb_on_mesg_complete \<Rightarrow> [event.Message_complete]
      | http_cb_on_status \<Rightarrow> map (Byte Status) bytes
      | http_cb_on_url \<Rightarrow> map (Byte Url) bytes
      | http_cb_on_header_field \<Rightarrow> map (Byte Name) bytes
      | http_cb_on_header_value \<Rightarrow> map (Byte Value) bytes
      | http_cb_on_body \<Rightarrow> map (Byte Body) bytes)"

text \<open>
  Where the recorder goes on after a callback at which the other parser has returned \<open>ret\<close>: behind
      this byte, or
  with this byte once more in a state that does not report it again, or the message is the last one of the
  connection.
\<close>

definition resumes :: "nat \<Rightarrow> state \<Rightarrow> nat \<Rightarrow> ctl \<Rightarrow> bool" where
  "resumes p s ret k \<longleftrightarrow> k = Next \<and> ret = p + 1 \<or> k = Reexecute \<and> ret = p \<and>
      settled s \<or> (\<exists>n. k = Return n)"

text \<open>Without a callback the two steps are the same; with one, the recorder has logged what Lua is
    told.\<close>

definition pair :: "string \<Rightarrow> event list \<Rightarrow> callback_info \<Rightarrow> callback_info
    step_result \<Rightarrow> event list step_result \<Rightarrow> bool" where
  "pair data u i rL rR \<longleftrightarrow> (case rL of (cL, kL) \<Rightarrow> case rR of (cR, kR) \<Rightarrow>
     (if hp_errno (parser cL) = HPE_PAUSED
      then parser cR = (parser cL)\<lparr>hp_errno := HPE_OK\<rparr> \<and> no_marks cR \<and> pos cR = pos cL
          \<and>
        udata cR = u @ told_by data (udata cL) \<and> (\<exists>ret. kL = Return ret \<and> resumes (pos cL)
            (hp_state (parser cL)) ret kR)
      else cR = as_rec u cL \<and> kR = kL \<and> udata cL = i))"

lemma as_rec_updates [simp]:
  "as_rec u (set_state s c) = set_state s (as_rec u c)"
  "as_rec u (set_header_state h c) = set_header_state h (as_rec u c)"
  "as_rec u (set_index i c) = set_index i (as_rec u c)"
  "as_rec u (add_flag f c) = add_flag f (as_rec u c)"
  "as_rec u (set_errno e c) = set_errno e (as_rec u c)"
  "as_rec u (c\<lparr>header_field_mark := m\<rparr>) = (as_rec u c)\<lparr>header_field_mark := m\<rparr>"
  "as_rec u (c\<lparr>header_value_mark := m\<rparr>) = (as_rec u c)\<lparr>header_value_mark := m\<rparr>"
  "as_rec u (c\<lparr>url_mark := m\<rparr>) = (as_rec u c)\<lparr>url_mark := m\<rparr>"
  "as_rec u (c\<lparr>body_mark := m\<rparr>) = (as_rec u c)\<lparr>body_mark := m\<rparr>"
  "as_rec u (c\<lparr>status_mark := m\<rparr>) = (as_rec u c)\<lparr>status_mark := m\<rparr>"
  "as_rec u (c\<lparr>pos := p\<rparr>) = (as_rec u c)\<lparr>pos := p\<rparr>"
  "as_rec u (c\<lparr>parser := q\<rparr>) = (as_rec u c)\<lparr>parser := q\<rparr>"
  "as_rec u (take_body len c) = take_body len (as_rec u c)"
  by (simp_all add: as_rec_def set_state_def set_header_state_def set_index_def add_flag_def set_errno_def
      take_body_def
      to_read_def Let_def)

lemma pair_simps [simp]:
  "hp_errno (parser c) \<noteq> HPE_PAUSED \<Longrightarrow> pair data u i (c, k) (d, k') \<longleftrightarrow>
      d = as_rec u c \<and> k' = k \<and> udata c = i"
  "e \<noteq> HPE_PAUSED \<Longrightarrow> pair data u i (fail e c) (fail e d) \<longleftrightarrow> set_errno e
      d = set_errno e (as_rec u c) \<and> udata c = i"
  by (auto simp: pair_def fail_def set_errno_def)

lemma pair_checks:
  "hp_errno (parser c) = HPE_OK \<Longrightarrow> udata c = i \<Longrightarrow> pair data u i r r'
      \<Longrightarrow> pair data u i (STRICT_CHECK b c r) (STRICT_CHECK b (as_rec u c) r')"
  "hp_errno (parser c) = HPE_OK \<Longrightarrow> udata c = i \<Longrightarrow> pair data u i r r'
      \<Longrightarrow> pair data u i (ASSERT b c r) (ASSERT b (as_rec u c) r')"
  by (simp_all add: STRICT_CHECK_def ASSERT_def)

definition rec_result :: "'v \<Rightarrow> 'u step_result \<Rightarrow> 'v step_result" where
  "rec_result u r = (case r of (c, k) \<Rightarrow> (as_rec u c, k))"

text \<open>A step without a callback.\<close>

definition calm :: "'u exec_ctx \<Rightarrow> 'u step_result \<Rightarrow> bool" where
  "calm c r \<longleftrightarrow> udata (fst r) = udata c \<and> hp_errno (parser (fst r)) \<noteq> HPE_PAUSED"

lemma rec_result_simps [simp]:
  "rec_result u (c, k) = (as_rec u c, k)" "rec_result u (fail e c) = fail e (as_rec u c)"
  "rec_result u (STRICT_CHECK b c r) = STRICT_CHECK b (as_rec u c) (rec_result u r)"
  "rec_result u (ASSERT b c r) = ASSERT b (as_rec u c) (rec_result u r)"
  "rec_result u (if b then r else r') = (if b then rec_result u r else rec_result u r')"
  by (simp_all add: rec_result_def fail_def STRICT_CHECK_def ASSERT_def)

lemma udata_set [simp]:
  "udata (set_state s c) = udata c" "udata (set_header_state h c) = udata c" "udata (set_index i c) = udata c"
  "udata (add_flag f c) = udata c" "udata (set_errno e c) = udata c" "udata (take_body len c) = udata c"
  by (simp_all add: set_state_def set_header_state_def set_index_def add_flag_def set_errno_def take_body_def
      Let_def)

lemma calm_simps [simp]:
  "calm c (d, k) \<longleftrightarrow> udata d = udata c \<and> hp_errno (parser d) \<noteq> HPE_PAUSED"
  "calm c (fail e d) \<longleftrightarrow> udata d = udata c \<and> e \<noteq> HPE_PAUSED"
  "calm c (STRICT_CHECK b d r) \<longleftrightarrow> (if b then udata d = udata c else calm c r)"
  "calm c (ASSERT b d r) \<longleftrightarrow> (if b then calm c r else udata d = udata c \<and> hp_errno
      (parser d) \<noteq> HPE_PAUSED)"
  by (auto simp: calm_def fail_def STRICT_CHECK_def ASSERT_def set_errno_def)

lemma pair_calm:
  "calm c r \<Longrightarrow> r' = rec_result u r \<Longrightarrow> udata c = i \<Longrightarrow> pair data u i
      r r'"
  by (cases r) (simp add: pair_def)

lemmas rec_distrib = option.case_distrib[of "rec_result u" for u]
  header_states.case_distrib[of "rec_result u" for u] header_states.case_distrib[of "as_rec u" for u]

lemma as_rec_if: "as_rec u (if b then c else d) = (if b then as_rec u c else as_rec u d)"
  by simp

lemma rec_quiet_handlers:
  "do_dead ch (as_rec u c) = rec_result u (do_dead ch c)"
  "do_res_or_resp_H ch (as_rec u c) = rec_result u (do_res_or_resp_H ch c)"
  "do_literal e s ch (as_rec u c) = rec_result u (do_literal e s ch c)"
  "do_res_first_http_major ch (as_rec u c) = rec_result u (do_res_first_http_major ch c)"
  "do_major s ch (as_rec u c) = rec_result u (do_major s ch c)"
  "do_first_minor s ch (as_rec u c) = rec_result u (do_first_minor s ch c)"
  "do_res_http_minor ch (as_rec u c) = rec_result u (do_res_http_minor ch c)"
  "do_res_first_status_code ch (as_rec u c) = rec_result u (do_res_first_status_code ch c)"
  "do_res_status_code ch (as_rec u c) = rec_result u (do_res_status_code ch c)"
  "do_res_status_start ch (as_rec u c) = rec_result u (do_res_status_start ch c)"
  "url_step ch (as_rec u c) = rec_result u (url_step ch c)"
  "do_req_schema ch (as_rec u c) = rec_result u (do_req_schema ch c)"
  "do_req_spaces_before_url ch (as_rec u c) = rec_result u (do_req_spaces_before_url ch c)"
  "do_req_http_start ch (as_rec u c) = rec_result u (do_req_http_start ch c)"
  "do_req_first_http_major ch (as_rec u c) = rec_result u (do_req_first_http_major ch c)"
  "do_req_http_minor ch (as_rec u c) = rec_result u (do_req_http_minor ch c)"
  "do_req_line_almost_done ch (as_rec u c) = rec_result u (do_req_line_almost_done ch c)"
  "do_header_field_start ch (as_rec u c) = rec_result u (do_header_field_start ch c)"
  "do_header_value_lws ch (as_rec u c) = rec_result u (do_header_value_lws ch c)"
  "do_content_length_digit ch (as_rec u c) = rec_result u (do_content_length_digit ch c)"
  "value_word_step w h1 h2 t (as_rec u c) = rec_result u (value_word_step w h1 h2 t c)"
  "do_chunk_size_start ch (as_rec u c) = rec_result u (do_chunk_size_start ch c)"
  "do_chunk_size ch (as_rec u c) = rec_result u (do_chunk_size ch c)"
  "do_chunk_parameters ch (as_rec u c) = rec_result u (do_chunk_parameters ch c)"
  "do_chunk_size_almost_done ch (as_rec u c) = rec_result u (do_chunk_size_almost_done ch c)"
  "do_chunk_data_done ch (as_rec u c) = rec_result u (do_chunk_data_done ch c)"
  by (simp_all add: handler_defs Let_def rec_distrib)

lemma as_rec_take_body:
  "parser (take_body len (as_rec u c)) = parser (take_body len c)" "pos (take_body len (as_rec u c)) = pos
      (take_body len c)"
  by (simp_all add: take_body_def to_read_def Let_def)

lemma rec_others:
  "do_req_method ch (as_rec u c) = rec_result u (do_req_method ch c)"
  "do_header_almost_done ch (as_rec u c) = rec_result u (do_header_almost_done ch c)"
  "do_chunk_data len (as_rec u c) = rec_result u (do_chunk_data len c)"
  "do_body_identity_eof len (as_rec u c) = rec_result u (do_body_identity_eof len c)"
  subgoal by (cases "c_str_at (method_strings (hp_method (parser c))) (unat (hp_index (parser c)))";
      cases "switch_method (hp_method (parser c)) (hp_index (parser c)) ch")
     (simp_all add: do_req_method_def Let_def del: c_str_at_None)
  subgoal by (cases "hp_header_state (parser c)") (simp_all add: do_header_almost_done_def)
  subgoal by (simp add: do_chunk_data_def Let_def as_rec_take_body)
  subgoal by (simp add: do_body_identity_eof_def)
  done

lemma calm_quiet_handlers:
  assumes "hp_errno (parser c) = HPE_OK"
  shows
  "calm c (do_dead ch c)"
  "calm c (do_res_or_resp_H ch c)"
  "calm c (do_literal e s ch c)"
  "calm c (do_res_first_http_major ch c)"
  "calm c (do_major s ch c)"
  "calm c (do_first_minor s ch c)"
  "calm c (do_res_http_minor ch c)"
  "calm c (do_res_first_status_code ch c)"
  "calm c (do_res_status_code ch c)"
  "calm c (do_res_status_start ch c)"
  "calm c (url_step ch c)"
  "calm c (do_req_schema ch c)"
  "calm c (do_req_spaces_before_url ch c)"
  "calm c (do_req_http_start ch c)"
  "calm c (do_req_first_http_major ch c)"
  "calm c (do_req_http_minor ch c)"
  "calm c (do_req_line_almost_done ch c)"
  "calm c (do_header_field_start ch c)"
  "calm c (do_header_value_lws ch c)"
  "calm c (do_content_length_digit ch c)"
  "calm c (value_word_step w h1 h2 t c)"
  "calm c (do_chunk_size_start ch c)"
  "calm c (do_chunk_size ch c)"
  "calm c (do_chunk_parameters ch c)"
  "calm c (do_chunk_size_almost_done ch c)"
  "calm c (do_chunk_data_done ch c)"
  "calm c (do_req_method ch c)"
  "calm c (do_header_almost_done ch c)"
  "calm c (do_chunk_data len c)"
  "calm c (do_body_identity_eof len c)"
  using assms
  by (simp_all add: handler_defs Let_def take_body_fields split: option.split header_states.split)


lemma pair_quiet:
  "hp_errno (parser c) = HPE_OK \<Longrightarrow> calm c r \<Longrightarrow> pair data u (udata c) r (rec_result
      u r)"
  by (rule pair_calm) simp_all

lemma no_marks_sets [simp]: "no_marks (set_index i c) = no_marks c" "no_marks (add_flag f c) = no_marks c"
  by (simp_all add: no_marks_def set_index_def add_flag_def)

text \<open>Each callback, then each handler that has one.\<close>

lemma pair_notify:
  assumes "hp_errno (parser c) = HPE_OK" "no_marks c" "d = as_rec u c"
  shows "pair data u i (notify_message_begin parser_settings (Suc (pos c)) c) (notify_message_begin (rec data)
      (Suc (pos c)) d)"
    "pair data u i (notify_message_complete parser_settings (Suc (pos c)) c) (notify_message_complete (rec data)
        (Suc (pos c)) d)"
  using assms
  by (simp_all add: luaw_notify recorder_notify pair_def suspend_def told_by_def no_marks_def resumes_def)

lemma pair_start:
  assumes "hp_errno (parser c) = HPE_OK" "no_marks c"
  shows "pair data u (udata c) (do_start_req_or_res parser_settings ch c) (do_start_req_or_res (rec data) ch
      (as_rec u c))"
    and "pair data u (udata c) (do_start_res parser_settings ch c) (do_start_res (rec data) ch (as_rec u c))"
    and "pair data u (udata c) (do_message_done parser_settings c) (do_message_done (rec data) (as_rec u c))"
    and "pair data u (udata c) (do_start_req parser_settings ch c) (do_start_req (rec data) ch (as_rec u c))"
  using assms pair_notify[where c = "set_state s (c\<lparr>parser := q\<rparr>)" and data = data and u = u and i
      = "udata c" for s q]
    pair_notify[where c = "c\<lparr>parser := q\<rparr>" and data = data and u = u and i = "udata c" for q]
    pair_notify[where c = "set_state s c" and data = data and u = u and i = "udata c" for s]
  by (auto simp: do_start_req_or_res_def do_start_res_def do_message_done_def do_start_req_def Let_def split:
      option.split)

lemma pair_data:
  assumes "hp_errno (parser c) = HPE_OK" "udata c = i" "d = as_rec u c"
  shows "no_marks (c\<lparr>header_field_mark := None\<rparr>) \<Longrightarrow>
      pair data u i (data_header_field parser_settings (Suc (pos c)) c) (data_header_field (rec data) (Suc (pos
          c)) d)"
    "no_marks (c\<lparr>header_value_mark := None\<rparr>) \<Longrightarrow> 
      pair data u i (data_header_value parser_settings (Suc (pos c)) c) (data_header_value (rec data) (Suc (pos
          c)) d)"
    "no_marks (c\<lparr>url_mark := None\<rparr>) \<Longrightarrow>
      pair data u i (data_url parser_settings (Suc (pos c)) c) (data_url (rec data) (Suc (pos c)) d)"
    "no_marks (c\<lparr>status_mark := None\<rparr>) \<Longrightarrow>
      pair data u i (data_status parser_settings (Suc (pos c)) c) (data_status (rec data) (Suc (pos c)) d)"
    "no_marks (c\<lparr>body_mark := None\<rparr>) \<Longrightarrow>
      pair data u i (data_body parser_settings 0 (Suc (pos c)) c) (data_body (rec data) 0 (Suc (pos c)) d)"
  using assms
  by (auto simp: luaw_data recorder_data report_def pair_def suspend_def told_by_def no_marks_def resumes_def
      pending_def as_rec_def
      split: option.split)

lemma no_marks_state [simp]:
  "no_marks ((set_state s c)\<lparr>header_field_mark := m\<rparr>) = no_marks (c\<lparr>header_field_mark :=
      m\<rparr>)"
  "no_marks ((set_state s c)\<lparr>header_value_mark := m\<rparr>) = no_marks (c\<lparr>header_value_mark :=
      m\<rparr>)"
  "no_marks ((set_header_state h c)\<lparr>header_value_mark := m\<rparr>) = no_marks
      (c\<lparr>header_value_mark := m\<rparr>)"
  "no_marks ((set_index j c)\<lparr>header_value_mark := m\<rparr>) = no_marks (c\<lparr>header_value_mark :=
      m\<rparr>)"
  "no_marks (c\<lparr>parser := q, url_mark := m\<rparr>) = no_marks (c\<lparr>url_mark := m\<rparr>)"
  "no_marks ((set_state s c)\<lparr>url_mark := m\<rparr>) = no_marks (c\<lparr>url_mark := m\<rparr>)"
  "no_marks ((set_state s c)\<lparr>body_mark := m\<rparr>) = no_marks (c\<lparr>body_mark := m\<rparr>)"
  "no_marks ((set_state s c)\<lparr>status_mark := m\<rparr>) = no_marks (c\<lparr>status_mark := m\<rparr>)"
  by (simp_all add: no_marks_def set_state_def set_header_state_def set_index_def)

lemma pair_res_status:
  assumes "hp_errno (parser c) = HPE_OK" "no_marks (c\<lparr>status_mark := None\<rparr>)"
  shows "pair data u (udata c) (do_res_status parser_settings ch c) (do_res_status (rec data) ch (as_rec u c))"
  using assms pair_data(4)[of "set_state s c" "udata c" _ u data for s] by (simp add: do_res_status_def)

lemma pair_req_url:
  assumes "hp_errno (parser c) = HPE_OK" "no_marks (c\<lparr>url_mark := None\<rparr>)"
  shows "pair data u (udata c) (do_req_url parser_settings ch c) (do_req_url (rec data) ch (as_rec u c))"
  using assms pair_data(3)[of "set_state s c" "udata c" _ u data for s] pair_quiet[OF assms(1)
      calm_quiet_handlers(11)[OF assms(1)]]
    pair_data(3)[of "c\<lparr>parser := q\<rparr>" "udata c" _ u data for q]
  by (simp add: do_req_url_def rec_quiet_handlers)

lemma pair_header_field:
  assumes "hp_errno (parser c) = HPE_OK" "no_marks (c\<lparr>header_field_mark := None\<rparr>)"
  shows "pair data u (udata c) (do_header_field parser_settings ch c) (do_header_field (rec data) ch (as_rec u c))"
  using assms pair_data(1)[of "set_state s c" "udata c" _ u data for s]
  by (cases "header_name_step (hp_header_state (parser c)) (hp_index (parser c)) (TOKEN ch) ch")
     (auto simp add: do_header_field_def Let_def)

lemma pair_header_value_start:
  assumes "hp_errno (parser c) = HPE_OK" "no_marks c"
  shows "pair data u (udata c) (do_header_value_start parser_settings ch c) (do_header_value_start (rec data) ch
      (as_rec u c))"
proof -
  let ?c = "set_index 0 (set_state s_header_value (c\<lparr>header_value_mark := MARK (header_value_mark c) (pos
      c)\<rparr>))"
  have "pair data u (udata c) (data_header_value parser_settings (Suc (pos c)) (set_state s (set_header_state h
      ?c)))
      (data_header_value (rec data) (Suc (pos c)) (set_state s (set_header_state h (as_rec u ?c))))"
     "pair data u (udata c) (data_header_value parser_settings (Suc (pos c)) (set_state s ?c))
      (data_header_value (rec data) (Suc (pos c)) (set_state s (as_rec u ?c)))" for s h
    using assms pair_data(2)[of "set_state s (set_header_state h ?c)" "udata c" _ u data]
      pair_data(2)[of "set_state s ?c" "udata c" _ u data] by (simp_all add: no_marks_value_mark)
  with assms show ?thesis
    by (cases "hp_header_state (parser c)") (simp_all add: do_header_value_start_def Let_def parser_set)
qed


lemma pair_header_value:
  assumes "hp_errno (parser c) = HPE_OK" "no_marks (c\<lparr>header_value_mark := None\<rparr>)"
  shows "pair data u (udata c) (do_header_value parser_settings ch c) (do_header_value (rec data) ch (as_rec u c))"
proof -
  let ?c = "set_state s_header_almost_done c"
  have "pair data u (udata c) (data_header_value parser_settings (Suc (pos c)) ?c)
      (data_header_value (rec data) (Suc (pos c)) (as_rec u ?c))"
    using assms pair_data(2)[of ?c "udata c" _ u data] by simp
  moreover have "pair data u (udata c) (and_then (data_header_value parser_settings (pos c) ?c) (\<lambda>c1.
      (c1, Reexecute)))
      (and_then (data_header_value (rec data) (pos c) (as_rec u ?c)) (\<lambda>c1. (c1, Reexecute)))"
    using assms
    by (auto simp: luaw_data recorder_data report_def pair_def suspend_def told_by_def no_marks_def resumes_def
        pending_def
        as_rec_def settled_def set_state_def split: option.split)
  ultimately show ?thesis
    using assms(1) pair_quiet[OF assms(1) calm_quiet_handlers(20)[OF assms(1)]] pair_quiet[OF assms(1)
        calm_quiet_handlers(21)[OF assms(1)]]
    by (cases "hp_header_state (parser c)") (simp_all add: do_header_value_def Let_def rec_quiet_handlers)
qed

lemma pair_headers_almost_done:
  assumes "hp_errno (parser c) = HPE_OK" "no_marks c"
  shows "pair data u (udata c) (do_headers_almost_done parser_settings ch c) (do_headers_almost_done (rec data)
      ch (as_rec u c))"
proof -
  have "pair data u (udata c) (notify_message_complete parser_settings (Suc (pos c)) (set_state (NEW_MESSAGE
      (parser c)) c))
      (notify_message_complete (rec data) (Suc (pos c)) (set_state (NEW_MESSAGE (parser c)) (as_rec u c)))"
    using assms pair_notify(2)[where c = "set_state (NEW_MESSAGE (parser c)) c"] by simp
  then show ?thesis
    using assms
    by (auto simp: do_headers_almost_done_def STRICT_CHECK_def luaw_notify call_headers_complete_def[of "rec
        data"] pair_def suspend_def
        told_by_def resumes_def settled_def no_marks_def set_state_def as_rec_def fail_def set_errno_def)
qed

lemma pair_headers_done:
  assumes "hp_errno (parser c) = HPE_OK" "no_marks c"
  shows "pair data u (udata c) (do_headers_done parser_settings ch c) (do_headers_done (rec data) ch (as_rec u c))"
proof -
  let ?c = "\<lambda>s. set_state s (upd_parser (\<lambda>q. q\<lparr>hp_nread := 0\<rparr>) c)"
  have p: "pair data u (udata c) (notify_message_complete parser_settings (Suc (pos c)) (?c s))
      (notify_message_complete (rec data) (Suc (pos c)) (as_rec u (?c s)))" for s
    using assms pair_notify(2)[where c = "?c s"] by simp
  have "pair data u (udata c) (and_then (notify_message_complete parser_settings (Suc (pos c)) (?c s))
      (\<lambda>c2. (c2, Return (Suc (pos c)))))
      (and_then (notify_message_complete (rec data) (Suc (pos c)) (as_rec u (?c s))) (\<lambda>c2. (c2, Return
          (Suc (pos c)))))" for s
    using assms by (simp add: luaw_notify recorder_notify pair_def suspend_def told_by_def no_marks_def
        resumes_def set_state_def)
  with p assms show ?thesis
    by (auto simp: do_headers_done_def Let_def STRICT_CHECK_def)
qed

lemma pair_chunk_data_almost_done:
  assumes "hp_errno (parser c) = HPE_OK" "no_marks (c\<lparr>body_mark := None\<rparr>)"
  shows "pair data u (udata c) (do_chunk_data_almost_done parser_settings ch c) (do_chunk_data_almost_done (rec
      data) ch (as_rec u c))"
  using assms pair_data(5)[of "set_state s c" "udata c" _ u data for s]
  by (simp add: do_chunk_data_almost_done_def STRICT_CHECK_def ASSERT_def)

lemma pair_body_identity:
  assumes "hp_errno (parser c) = HPE_OK" "no_marks (c\<lparr>body_mark := None\<rparr>)"
  shows "pair data u (udata c) (do_body_identity parser_settings len c) (do_body_identity (rec data) len (as_rec
      u c))"
proof -
  let ?c = "set_state s_message_done (take_body len c)"
  obtain j where j: "body_mark ?c = Some j" by (cases "body_mark c") (auto simp: take_body_def Let_def MARK_def
      set_state_def)
  have e: "hp_errno (parser ?c) = HPE_OK" "no_marks (?c\<lparr>body_mark := None\<rparr>)"
    using assms by (simp_all add: take_body_fields) (simp add: take_body_def Let_def no_marks_def)
  have "data_body (rec data) 1 (pos (take_body len c)) (as_rec u ?c) =
      ((as_rec u ?c)\<lparr>body_mark := None, udata := u @ map (Byte Body) (span j (pos ?c - j + 1)
          data)\<rparr>, Next)"
    using e j by (simp add: data_body_def CALLBACK_DATA_def recorder_def record_data_def del: as_rec_updates)
  then have "pair data u (udata c) (and_then (data_body parser_settings 1 (pos (take_body len c)) ?c)
      (\<lambda>c2. (c2, Reexecute)))
      (and_then (data_body (rec data) 1 (pos (take_body len c)) (as_rec u ?c)) (\<lambda>c2. (c2, Reexecute)))"
    using e j
    by (simp add: luaw_data report_def pair_def suspend_def told_by_def no_marks_def resumes_def settled_def
         del: as_rec_updates)
  with assms(1) show ?thesis
    by (auto simp: do_body_identity_def Let_def as_rec_take_body take_body_fields)
qed

lemma pair_dispatch:
  assumes "hp_errno (parser c) = HPE_OK" "marks_ok c"
  shows "pair data u (udata c) (dispatch parser_settings len ch c) (dispatch (rec data) len ch (as_rec u c))"
  using assms(1) marks_by_state[OF assms(2)] pair_quiet[OF assms(1)]
  by (cases "hp_state (parser c)")
     (simp_all add: dispatch_def rec_quiet_handlers rec_others calm_quiet_handlers pair_start pair_res_status
         pair_req_url
       pair_header_field pair_header_value_start pair_header_value pair_headers_almost_done pair_headers_done
       pair_chunk_data_almost_done pair_body_identity body_mark_states_def url_states_def)

section \<open>The recorder and the count\<close>

lemma nread_set [simp]:
  "hp_nread (parser (set_state s c)) = hp_nread (parser c)" "hp_nread (parser (set_header_state h c)) = hp_nread
      (parser c)"
  "hp_nread (parser (set_index i c)) = hp_nread (parser c)" "hp_nread (parser (add_flag f c)) = hp_nread (parser c)"
  "hp_nread (parser (set_errno e c)) = hp_nread (parser c)" "hp_nread (parser (take_body len c)) = hp_nread
      (parser c)"
  "hp_nread (parser (fst (fail e c))) = hp_nread (parser c)"
  by (simp_all add: set_state_def set_header_state_def set_index_def add_flag_def set_errno_def take_body_def
      Let_def fail_def)

lemma nread_callbacks [simp]:
  "hp_nread (parser (fst (notify_message_begin (rec data) ret c))) = hp_nread (parser c)"
  "hp_nread (parser (fst (notify_message_complete (rec data) ret c))) = hp_nread (parser c)"
  "hp_nread (parser (fst (data_header_field (rec data) ret c))) = hp_nread (parser c)"
  "hp_nread (parser (fst (data_header_value (rec data) ret c))) = hp_nread (parser c)"
  "hp_nread (parser (fst (data_url (rec data) ret c))) = hp_nread (parser c)"
  "hp_nread (parser (fst (data_status (rec data) ret c))) = hp_nread (parser c)"
  "hp_nread (parser (fst (data_body (rec data) ex ret c))) = hp_nread (parser c)"
  "hp_nread (parser (fst (call_headers_complete (rec data) c))) = hp_nread (parser c)"
  by (auto simp: notify_message_begin_def notify_message_complete_def CALLBACK_NOTIFY_def CALLBACK_DATA_def
      data_header_field_def data_header_value_def data_url_def data_status_def data_body_def recorder_def
      record_data_def call_headers_complete_def Let_def split: option.split)

lemma nread_and_then:
  "(\<And>c. hp_nread (parser (fst (f c))) = hp_nread (parser c)) \<Longrightarrow>
     hp_nread (parser (fst (and_then r f))) = hp_nread (parser (fst r))"
  by (cases "(r, f)" rule: and_then.cases) simp_all

lemma nread_checks [simp]:
  "hp_nread (parser (fst (STRICT_CHECK b c r))) = (if b then hp_nread (parser c) else hp_nread (parser (fst r)))"
  "hp_nread (parser (fst (ASSERT b c r))) = (if b then hp_nread (parser (fst r)) else hp_nread (parser c))"
  by (simp_all add: STRICT_CHECK_def ASSERT_def)

lemma nread_dispatch:
  "unat (hp_nread (parser (fst (dispatch (rec data) len ch c)))) \<le> unat (hp_nread (parser c))"
  by (cases "hp_state (parser c)")
     (simp_all add: dispatch_def handler_defs Let_def nread_and_then del: call_headers_complete_def
        split: option.split header_states.split prod.split)

lemma nread_run_byte:
  "unat (hp_nread (parser (fst (run_byte n (rec data) len ch c)))) \<le> unat (hp_nread (parser c))"
proof (induction n arbitrary: c)
  case (Suc n)
  obtain d k where d: "dispatch (rec data) len ch c = (d, k)" by fastforce
  then have "unat (hp_nread (parser d)) \<le> unat (hp_nread (parser c))" using nread_dispatch[of data len ch c]
      by simp
  with Suc.IH[of d] d show ?case by (cases k) simp_all
qed simp

lemma at_eq: "count_at 0 c = count_at 0 d \<Longrightarrow> d = count_at (hp_nread (parser d)) c"
proof -
  assume a: "count_at 0 c = count_at 0 d"
  have "count_at (hp_nread (parser d)) (count_at 0 c) = count_at (hp_nread (parser d)) c" by simp
  moreover have "count_at (hp_nread (parser d)) (count_at 0 d) = d" by (simp add: count_at_def nread_at_def)
  ultimately show ?thesis using a by metis
qed

text \<open>Steps of the recorder from two contexts that differ in the count only, up to a call on one byte.\<close>

lemma same_dispatch:
  assumes "count_at 0 c = count_at 0 d" "fine 1 c" "fine 1 d"
  shows "result_at 0 (dispatch (rec data) len ch c) = result_at 0 (dispatch (rec data) len ch d)"
proof (cases "hp_state (parser c) = s_chunk_size_start")
  case True
  have s: "hp_state (parser d) = hp_state (parser c)" using arg_cong[OF assms(1), of "\<lambda>c. hp_state
      (parser c)"] by simp
  with True assms(2,3) have "hp_nread (parser d) = hp_nread (parser c)" by (simp add: ctx_ok_def wf_at_def)
  with at_eq[OF assms(1)] have "d = c" by (simp add: count_at_def nread_at_def)
  then show ?thesis by simp
next
  case False
  from at_dispatch[OF this, of 0 data len ch "hp_nread (parser d)"] at_eq[OF assms(1)] show ?thesis by simp
qed

lemma at_result_eq: "result_at x (c, k) = result_at x (d, l) \<longleftrightarrow> count_at x c = count_at x d
    \<and> k = l"
  by simp

lemma same_run_byte:
  "count_at 0 c = count_at 0 d \<Longrightarrow> fine 1 c \<Longrightarrow> fine 1 d \<Longrightarrow> pos c <
      len \<Longrightarrow>
     result_at 0 (run_byte n (rec data) len ch c) = result_at 0 (run_byte n (rec data) len ch d)"
proof (induction n arbitrary: c d)
  case (Suc n)
  obtain c' k where c: "dispatch (rec data) len ch c = (c', k)" by fastforce
  obtain d' l where d: "dispatch (rec data) len ch d = (d', l)" by fastforce
  have s: "count_at 0 c' = count_at 0 d'" "k = l" using same_dispatch[OF Suc.prems(1-3), of data len ch] c d by
      simp_all
  have p: "pos d = pos c" using arg_cong[OF Suc.prems(1), of pos] by simp
  show ?case
  proof (cases "k = Reexecute")
    case True
    have "fine 1 c'" "fine 1 d'"
      using recorder.dispatch_ok[OF Suc.prems(2,4), of "\<lambda>_. 0" data ch] recorder.dispatch_ok[OF
          Suc.prems(3), of len "\<lambda>_. 0" data ch]
        c d s(2) True p Suc.prems(4) by simp_all
    moreover have "pos c' < len" using pos_dispatch[OF Suc.prems(4), of "rec data" ch] c by simp
    ultimately show ?thesis using Suc.IH[OF s(1)] c d s(2) True by simp
  next
    case False
    with c d s show ?thesis by (cases l) auto
  qed
qed simp

lemma same_fields:
  assumes "count_at 0 c = count_at 0 d"
  shows "udata c = udata d" "pos c = pos d" "header_field_mark c = header_field_mark d"
    "header_value_mark c = header_value_mark d" "url_mark c = url_mark d" "body_mark c = body_mark d"
    "status_mark c = status_mark d" "nread_at 0 (parser c) = nread_at 0 (parser d)"
  subgoal using arg_cong[OF assms, of udata] by (simp only: at_fields)
  subgoal using arg_cong[OF assms, of pos] by (simp only: at_fields)
  subgoal using arg_cong[OF assms, of header_field_mark] by (simp only: at_fields)
  subgoal using arg_cong[OF assms, of header_value_mark] by (simp only: at_fields)
  subgoal using arg_cong[OF assms, of url_mark] by (simp only: at_fields)
  subgoal using arg_cong[OF assms, of body_mark] by (simp only: at_fields)
  subgoal using arg_cong[OF assms, of status_mark] by (simp only: at_fields)
  subgoal using arg_cong[OF assms, of parser] by (simp only: at_fields)
  done

lemma same_flushed: assumes "count_at 0 c = count_at 0 d" shows "flushed data c = flushed data d"
  by (simp only: flushed_def same_fields(1-7)[OF assms])

lemma at_count_byte: "count_at 0 (count_byte c) = count_at 0 c"
  by (simp add: count_byte_def nread_at_set count_at_def)

lemma same_finish:
  assumes "count_at 0 c = count_at 0 d"
  shows "\<exists>q u e q'. finish (c, k) = (q, u, e) \<and> finish (d, k) = (q', u, e) \<and> nread_at 0 q =
      nread_at 0 q' \<and> hp_nread q' = hp_nread (parser d)"
proof -
  note p = same_fields(8,1,2)[OF assms]
  then have "hp_errno (parser c) = hp_errno (parser d)" by (metis nread_at_fields(11))
  with p show ?thesis by (cases k) (auto simp: finish_def at_error_def set_errno_def)
qed

lemma single_count:
  assumes "nread_at 0 q = nread_at 0 q'" "wf_parser q" "wf_parser q'" "hp_errno q = HPE_OK"
    "unat (hp_nread q') + 1 \<le> unat HTTP_MAX_HEADER_SIZE"
    "http_parser_execute (rec [ch]) q u [ch] = (q2, u2, e2)" "hp_errno q2 = HPE_OK"
  shows "\<exists>q2'. http_parser_execute (rec [ch]) q' u [ch] = (q2', u2, e2) \<and> nread_at 0 q2' = nread_at
      0 q2 \<and>
    unat (hp_nread q2') \<le> unat (hp_nread q') + 1"
proof -
  let ?c = "enter q u" and ?d = "enter q' u"
  have st: "hp_state q' = hp_state q" "hp_errno q' = HPE_OK" using assms(1,4) by (metis nread_at_fields)+
  have s: "count_at 0 ?c = count_at 0 ?d" using assms(1) st by (simp add: enter_def count_at_def)
  have f: "fine 0 ?c" "fine 0 ?d" using enter_ok[where Q = "\<lambda>_. True"] assms(2-4) st(2) by simp_all
  have o: "\<not> header_overflow ?c"
  proof
    assume "header_overflow ?c"
    then have "exec_loop (rec [ch]) [ch] ?c = at_error (set_errno HPE_HEADER_OVERFLOW (count_byte ?c))"
      by (intro exec_loop_overflow) (simp_all add: enter_def)
    with assms(4,6,7) show False by (auto simp: http_parser_execute_def at_error_def set_errno_def)
  qed
  have inc: "unat (hp_nread q' + 1) = unat (hp_nread q') + 1"
    using assms(5) by (simp add: HTTP_MAX_HEADER_SIZE_def unat_word_ariths)
  have o': "\<not> header_overflow ?d"
    using assms(5) inc by (auto simp: header_overflow_def count_byte_def enter_def word_less_nat_alt)
  have cnt: "count_at 0 (count_byte ?c) = count_at 0 (count_byte ?d)" "unat (hp_nread (parser (count_byte ?d)))
      \<le> unat (hp_nread q') + 1"
    using s inc by (simp_all add: at_count_byte) (simp add: count_byte_def enter_def)
  have f1: "fine 1 (count_byte ?c)" "fine 1 (count_byte ?d)"
    using recorder.count_byte_ok[OF f(1) o] recorder.count_byte_ok[OF f(2) o'] by simp_all
  have p: "pos ?c = 0" "pos ?d = 0" by (simp_all add: enter_def)
  obtain c' k where c: "run_byte reexecute_bound (rec [ch]) 1 ch (count_byte ?c) = (c', k)" by fastforce
  obtain d' l where d: "run_byte reexecute_bound (rec [ch]) 1 ch (count_byte ?d) = (d', l)" by fastforce
  have s': "count_at 0 c' = count_at 0 d'" "l = k"
    using same_run_byte[OF cnt(1) f1, of 1 reexecute_bound "[ch]" ch] c d p by simp_all
  have n: "unat (hp_nread (parser d')) \<le> unat (hp_nread q') + 1"
    using nread_run_byte[of reexecute_bound "[ch]" 1 ch "count_byte ?d"] d cnt(2) by simp
  have lc: "exec_loop (rec [ch]) [ch] ?c = continue (rec [ch]) [ch] (c', k)"
    and ld: "exec_loop (rec [ch]) [ch] ?d = continue (rec [ch]) [ch] (d', k)"
    using exec_loop_round[of ?c "[ch]" "rec [ch]"] exec_loop_round[of ?d "[ch]" "rec [ch]"] o o' c d p s'(2) by
        simp_all
  show ?thesis
  proof (cases "k = Next")
    case True
    have "step_ok 1 (\<lambda>_. True) 0 (c', k)" "step_ok 1 (\<lambda>_. True) 0 (d', k)"
      using recorder.run_byte_ok[OF f1(1) _ reexec_rank_bound, where hc = "\<lambda>_. 0" and data = "[ch]" and
          ch = ch] c
        recorder.run_byte_ok[OF f1(2) _ reexec_rank_bound, where hc = "\<lambda>_. 0" and data = "[ch]" and ch =
            ch] d p s'(2) by (metis pos_count_byte less_numeral_extra(1))+
    then have fn: "fine 0 (c'\<lparr>pos := pos c' + 1\<rparr>)" "fine 0 (d'\<lparr>pos := pos d' + 1\<rparr>)"
      using True ctx_ok_advance by auto
    have pp: "pos c' = 0" "pos d' = 0"
      using run_byte_pos[OF c] run_byte_pos[OF d] p by simp_all
    have "exec_loop (rec [ch]) [ch] ?c = (parser c', flushed [ch] (c'\<lparr>pos := pos c' + 1\<rparr>), Parsed 1)"
      "exec_loop (rec [ch]) [ch] ?d = (parser d', flushed [ch] (d'\<lparr>pos := pos d' + 1\<rparr>), Parsed 1)"
      using lc ld True fn pp by (simp_all add: continue_simps exec_loop_end after_loop_recorder)
    moreover have "flushed [ch] (c'\<lparr>pos := pos c' + 1\<rparr>) = flushed [ch] (d'\<lparr>pos := pos d' +
        1\<rparr>)"
      by (rule same_flushed) (use s'(1) pp in simp)
    moreover have "nread_at 0 (parser d') = nread_at 0 (parser c')" using same_fields(8)[OF s'(1)] by simp
    ultimately show ?thesis using assms(4,6) st(2) n by (auto simp: http_parser_execute_def)
  next
    case False
    from same_finish[OF s'(1), of k] lc ld False assms(4,6) st(2) n show ?thesis
      by (auto simp: http_parser_execute_def continue_simps)
  qed
qed

abbreviation feed0 :: "http_parser \<Rightarrow> event list \<Rightarrow> string \<Rightarrow> event list
    exec_result" where
  "feed0 \<equiv> feed (\<lambda>_. 0)"

text \<open>A stream that ends without an error has been fed byte by byte to its end.\<close>

lemma feed_stops:
  assumes "feed0 q u (ch # cs) = (q1, u1, e)" "hp_errno q1 = HPE_OK" "\<not> hp_upgrade q1"
  obtains q2 u2 e2 m where "http_parser_execute (rec [ch]) q u [ch] = (q2, u2, e2)" "hp_errno q2 = HPE_OK"
      "\<not> hp_upgrade q2"
    "feed0 q2 u2 cs = (q1, u1, m)" "e = snd (snd (count_one (q1, u1, m)))"
proof -
  obtain q2 u2 e2 where x: "http_parser_execute (rec [ch]) q u [ch] = (q2, u2, e2)"
    by (cases "http_parser_execute (rec [ch]) q u [ch]")
  have c: "fst (count_one r) = fst r" "fst (snd (count_one r)) = fst (snd r)" for r :: "event list exec_result"
    by (cases r rule: count_one.cases; simp)+
  obtain q3 u3 m where f: "feed0 q2 u2 cs = (q3, u3, m)" by (cases "feed0 q2 u2 cs")
  have go: "hp_errno q2 = HPE_OK \<and> \<not> hp_upgrade q2"
  proof (rule ccontr)
    assume "\<not> (hp_errno q2 = HPE_OK \<and> \<not> hp_upgrade q2)"
    with assms x show False by (auto split: if_splits)
  qed
  with assms(1) x f c[of "feed0 q2 u2 cs"] have "q3 = q1" "u3 = u1" "e = snd (snd (count_one (q1, u1, m)))"
    by (cases m; auto)+
  with that x f go show ?thesis by simp
qed

lemma feed_parsed: "feed0 q u cs = (q1, u1, e) \<Longrightarrow> hp_errno q1 = HPE_OK \<Longrightarrow> \<not>
    hp_upgrade q1 \<Longrightarrow> e = Parsed (length cs)"
proof (induction cs arbitrary: q u e)
  case (Cons ch cs)
  from Cons.prems obtain q2 u2 e2 m where "feed0 q2 u2 cs = (q1, u1, m)" "e = snd (snd (count_one (q1, u1, m)))"
    by (rule feed_stops)
  with Cons.IH[of q2 u2 m] Cons.prems(2,3) show ?case by simp
qed simp

lemma feed_count:
  "feed0 q u cs = (q1, u1, e) \<Longrightarrow> hp_errno q1 = HPE_OK \<Longrightarrow> \<not> hp_upgrade q1
      \<Longrightarrow> nread_at 0 q = nread_at 0 q' \<Longrightarrow>
     wf_parser q \<Longrightarrow> wf_parser q' \<Longrightarrow> hp_errno q = HPE_OK \<Longrightarrow>
     unat (hp_nread q') + length cs \<le> unat HTTP_MAX_HEADER_SIZE \<Longrightarrow>
     \<exists>q1'. feed0 q' u cs = (q1', u1, e) \<and> nread_at 0 q1' = nread_at 0 q1"
proof (induction cs arbitrary: q u q' e)
  case (Cons ch cs)
  from Cons.prems(1-3) obtain q2 u2 e2 m where one: "http_parser_execute (rec [ch]) q u [ch] = (q2, u2, e2)"
      "hp_errno q2 = HPE_OK" "\<not> hp_upgrade q2" and m: "feed0 q2 u2 cs = (q1, u1, m)" "e = snd (snd
          (count_one (q1, u1, m)))"
    by (rule feed_stops)
  have "unat (hp_nread q') + 1 \<le> unat HTTP_MAX_HEADER_SIZE" using Cons.prems(8) by simp
  from single_count[OF Cons.prems(4-7) this one(1,2)] obtain q2' where
    q2': "http_parser_execute (rec [ch]) q' u [ch] = (q2', u2, e2)" "nread_at 0 q2' = nread_at 0 q2" "unat
        (hp_nread q2') \<le> unat (hp_nread q') + 1"
    by blast
  have e: "hp_errno q2' = HPE_OK" "\<not> hp_upgrade q2'" "hp_errno q' = HPE_OK"
    using arg_cong[OF q2'(2), of hp_errno] arg_cong[OF q2'(2), of hp_upgrade] arg_cong[OF Cons.prems(4), of
        hp_errno] one(2,3) Cons.prems(7) by simp_all
  have "exec_ok (length [ch]) (\<lambda>_. True) (http_parser_execute (rec [ch]) p u [ch])" if "wf_parser p" for p
    by (rule recorder.execute_ok) (use that in simp_all)
  from this[OF Cons.prems(5)] this[OF Cons.prems(6)] have w: "wf_parser q2" "wf_parser q2'"
    using one q2'(1) e by (simp_all add: exec_ok_def split: exec_end.splits)
  from Cons.IH[OF m(1) Cons.prems(2,3) q2'(2)[symmetric] w one(2)] q2'(3) Cons.prems(8) obtain q1' where
    "feed0 q2' u2 cs = (q1', u1, m)" "nread_at 0 q1' = nread_at 0 q1" by auto
  with feed_Cons(1)[OF q2'(1) e(1,2)] m(2) show ?case by (cases m) simp_all
qed auto

section \<open>One byte, suspended and recorded\<close>

lemma fine_as_rec [simp]: "fine n (as_rec u c) = fine n c" "marks_set (as_rec u c) = marks_set c"
  "one_byte len (as_rec u c) = one_byte len c" "header_overflow (as_rec u c) = header_overflow c"
  "marks_ok (as_rec u c) = marks_ok c" "no_marks (as_rec u c) = no_marks c"
  by (simp_all add: ctx_ok_def marks_ok_def marks_set_def one_byte_def to_read_def header_overflow_def
      count_byte_def no_marks_def)

lemma as_rec_count: "as_rec u (count_byte c) = count_byte (as_rec u c)"
  by (simp add: count_byte_def)

lemma settled_dispatch:
  assumes "settled (hp_state (parser c))" "hp_errno (parser c) = HPE_OK"
  shows "snd (dispatch (rec data) len ch c) \<noteq> Reexecute"
    and "run_byte (Suc n) (rec data) len ch c = dispatch (rec data) len ch c"
proof -
  show s: "snd (dispatch (rec data) len ch c) \<noteq> Reexecute"
    using assms by (auto simp: settled_def dispatch_def do_header_almost_done_def do_headers_done_def
        do_message_done_def
        STRICT_CHECK_def fail_def Let_def recorder_notify parser_set split: if_splits)
  show "run_byte (Suc n) (rec data) len ch c = dispatch (rec data) len ch c"
    using s by (auto split: prod.split ctl.split)
qed

text \<open>
  The rounds of the \<open>switch\<close> for one byte. At a byte that is read again the recorder has only the
  \<open>dispatch\<close> of the settled state before it.
\<close>

definition byte_pair :: "string \<Rightarrow> event list \<Rightarrow> callback_info exec_ctx \<Rightarrow> char
    \<Rightarrow>
    callback_info step_result \<Rightarrow> event list step_result \<Rightarrow> bool" where
  "byte_pair data u c ch rL rR \<longleftrightarrow> (case rL of (d, k) \<Rightarrow>
     unat (hp_nread (parser d)) \<le> unat (hp_nread (parser c)) \<and>
     (if hp_errno (parser d) = HPE_PAUSED
      then \<exists>e ret. k = Return ret \<and> parser e = (parser d)\<lparr>hp_errno := HPE_OK\<rparr> \<and>
          no_marks e \<and> pos e = pos d \<and>
        udata e = u @ told_by data (udata d) \<and>
        (ret = pos d + 1 \<and> rR = (e, Next) \<or>
         ret = pos d \<and> settled (hp_state (parser e)) \<and> fine 1 e \<and> rR = dispatch (rec data)
             (length data) ch e \<or>
         (\<exists>n. snd rR = Return n))
      else rR = (as_rec u d, k) \<and> udata d = udata c))"

lemma byte_pair_later:
  assumes "byte_pair data u d ch rL rR" "unat (hp_nread (parser d)) \<le> unat (hp_nread (parser c))" "udata d =
      udata c"
  shows "byte_pair data u c ch rL rR"
proof -
  obtain x k where x: "rL = (x, k)" by fastforce
  show ?thesis
    using assms order_trans[OF _ assms(2)] by (cases "hp_errno (parser x) = HPE_PAUSED") (simp_all add:
        byte_pair_def x)
qed

lemma pair_run_byte:
  "fine 1 c \<Longrightarrow> pos c < length data \<Longrightarrow> reexec_rank (hp_state (parser c)) < n
      \<Longrightarrow>
     byte_pair data u c ch (run_byte n parser_settings (length data) ch c) (run_byte n (rec data) (length data)
         ch (as_rec u c))"
proof (induction n arbitrary: c)
  case (Suc n)
  let ?n = "length data"
  obtain d k where d: "dispatch parser_settings ?n ch c = (d, k)" by fastforce
  obtain e l where e: "dispatch (rec data) ?n ch (as_rec u c) = (e, l)" by fastforce
  have p: "pair data u (udata c) (d, k) (e, l)"
    using pair_dispatch[of c data u ?n ch] Suc.prems(1) d e by (simp add: ctx_ok_def)
  have nread_at: "unat (hp_nread (parser e)) \<le> unat (hp_nread (parser c))"
    using nread_dispatch[of data ?n ch "as_rec u c"] e by simp
  have s: "step_ok ?n (\<lambda>_. True) (reexec_rank (hp_state (parser c))) (e, l)"
    unfolding e[symmetric] using recorder.dispatch_ok[of "as_rec u c" ?n] Suc.prems(1,2) by simp
  show ?case
  proof (cases "hp_errno (parser d) = HPE_PAUSED")
    case True
    with p obtain ret where q: "parser e = (parser d)\<lparr>hp_errno := HPE_OK\<rparr>" "no_marks e" "pos e =
        pos d"
        "udata e = u @ told_by data (udata d)" "k = Return ret" "resumes (pos d) (hp_state (parser d)) ret l"
      by (auto simp: pair_def)
    have L: "run_byte (Suc n) parser_settings ?n ch c = (d, Return ret)" using d q(5) by simp
    consider "l = Next" "ret = pos d + 1" | "l = Reexecute" "ret = pos d" "settled (hp_state (parser d))" | m
        where "l = Return m"
      using q(6) by (auto simp: resumes_def)
    then show ?thesis
    proof cases
      case 2
      with s have f: "fine 1 e" "reexec_rank (hp_state (parser e)) < n" using Suc.prems(3) by auto
      then obtain m where m: "n = Suc m" by (cases n) auto
      have "run_byte (Suc n) (rec data) ?n ch (as_rec u c) = dispatch (rec data) ?n ch e"
        using e 2 settled_dispatch(2)[of e m data ?n ch] q(1) m by (simp del: run_byte.simps add:
            run_byte.simps(2)[of "Suc m"])
      with L q nread_at 2 f(1) True show ?thesis by (auto simp: byte_pair_def intro!: exI[of _ e])
    qed (use L q nread_at e True in \<open>auto simp: byte_pair_def intro!: exI[of _ e]\<close>)
  next
    case False
    with p have q: "e = as_rec u d" "l = k" "udata d = udata c" by (simp_all add: pair_def)
    show ?thesis
    proof (cases "k = Reexecute")
      case True
      with s q have f: "fine 1 d" "reexec_rank (hp_state (parser d)) < n" using Suc.prems(3) by auto
      have "pos d < ?n" using pos_dispatch[OF Suc.prems(2), of parser_settings ch] d by simp
      from byte_pair_later[OF Suc.IH[OF f(1) this f(2)], of c] d e q True nread_at show ?thesis by simp
    next
      case k: False
      with d e q nread_at False show ?thesis by (cases k) (simp_all add: byte_pair_def)
    qed
  qed
qed simp

end
