(* ===== verification/Http_Request.thy ===== *)
theory Http_Request
  imports Http_Bytewise
begin

text \<open>
  What the automata inside the parser recognise: the methods of a request line, the names of the
  headers that the parser itself interprets, and the number in a \<open>Content-Length\<close>. The proofs follow
  the stream byte by byte, which \<open>Http_Bytewise\<close> shows to be what a call on a whole buffer does.
\<close>

section \<open>One byte of the header\<close>

definition counted :: "http_parser \<Rightarrow> http_parser" where
  "counted q = q\<lparr>hp_nread := hp_nread q + 1\<rparr>"

text \<open>A parser that is inside the header and has not reached the limit on its size.\<close>

definition in_header :: "http_parser \<Rightarrow> bool" where
  "in_header q \<longleftrightarrow> wf_parser q \<and> hp_errno q = HPE_OK \<and> \<not> hp_upgrade q \<and> PARSING_HEADER (hp_state q)
     \<and> unat (hp_nread q) < unat HTTP_MAX_HEADER_SIZE"

lemma in_headerD:
  fixes u :: "event list"
  assumes "in_header q"
  shows "count_byte (enter q u) = enter (counted q) u" "\<not> header_overflow (enter q u)"
    "fine 1 (enter (counted q) u)"
proof -
  have p: "PARSING_HEADER (hp_state q)" and n: "unat (hp_nread q) < unat HTTP_MAX_HEADER_SIZE"
    and wf: "wf_parser q" "hp_errno q = HPE_OK"
    using assms by (simp_all add: in_header_def)
  from p show c: "count_byte (enter q u) = enter (counted q) u"
    by (simp add: count_byte_def enter_def counted_def)
  have "unat (hp_nread q + 1) = unat (hp_nread q) + 1"
    using n by (simp add: HTTP_MAX_HEADER_SIZE_def unat_word_ariths)
  with n show o: "\<not> header_overflow (enter q u)"
    by (simp add: header_overflow_def c) (simp add: enter_def counted_def word_less_nat_alt)
  have "fine 0 (enter q u)" using enter_ok[where Q = "\<lambda>_. True"] wf by simp
  from recorder.count_byte_ok[OF this o] c show "fine 1 (enter (counted q) u)" by simp
qed

text \<open>How one byte of the header moves the parser.\<close>

lemma header_byte_next:
  assumes "in_header q" "dispatch (recorder hc [ch]) 1 ch (enter (counted q) u) = (c', Next)"
    "\<not> hp_upgrade (parser c')"
  shows "wf_parser (parser c')" "hp_errno (parser c') = HPE_OK"
    "\<exists>u'. feed hc q u (ch # cs) = count_one (feed hc (parser c') u' cs)"
proof -
  let ?S = "recorder hc [ch]"
  note h = in_headerD[OF assms(1), of u]
  have "step_ok 1 (\<lambda>_. True) (reexec_rank (hp_state (parser (enter (counted q) u)))) (c', Next)"
    using recorder.dispatch_ok[OF h(3), of 1 hc "[ch]" ch] assms(2) by (simp add: enter_def)
  then have f: "fine 0 c'" by simp
  then show wf: "wf_parser (parser c')" "hp_errno (parser c') = HPE_OK" by (simp_all add: ctx_ok_def)
  have "pos c' = 0"
    using pos_dispatch[of "enter (counted q) u" 1 ?S ch] assms(2) by (simp add: enter_def)
  then have "exec_loop ?S [ch] (enter q u) = exec_loop ?S [ch] (c'\<lparr>pos := 1\<rparr>)"
    using exec_loop_round[of "enter q u" "[ch]" ?S] h assms(2)
    by (simp add: continue_simps reexecute_bound_def eval_nat_numeral) (simp add: enter_def)
  also have "\<dots> = (parser c', flushed [ch] (c'\<lparr>pos := 1\<rparr>), Parsed 1)"
    using ctx_ok_advance[OF f] \<open>pos c' = 0\<close> by (simp add: exec_loop_end after_loop_recorder)
  finally have "http_parser_execute ?S q u [ch] = (parser c', flushed [ch] (c'\<lparr>pos := 1\<rparr>), Parsed 1)"
    using assms(1) by (simp add: http_parser_execute_def in_header_def)
  from feed_Cons(1)[OF this wf(2) assms(3)]
  show "\<exists>u'. feed hc q u (ch # cs) = count_one (feed hc (parser c') u' cs)" by blast
qed

lemma header_byte_fail:
  assumes "in_header q" "dispatch (recorder hc [ch]) 1 ch (enter (counted q) u) = fail e c'"
    "e \<noteq> HPE_OK"
  shows "hp_errno (fst (feed hc q u (ch # cs))) = e"
proof -
  let ?S = "recorder hc [ch]"
  note h = in_headerD[OF assms(1), of u]
  have "exec_loop ?S [ch] (enter q u) = finish (fail e c')"
    using exec_loop_round[of "enter q u" "[ch]" ?S] h assms(2)
    by (simp add: continue_simps reexecute_bound_def eval_nat_numeral fail_def) (simp add: enter_def)
  then have "http_parser_execute ?S q u [ch] = finish (fail e c')"
    using assms(1) by (simp add: http_parser_execute_def in_header_def)
  then show ?thesis
    using assms(3) by (simp add: finish_def fail_def at_error_def set_errno_def)
qed

section \<open>Methods\<close>

text \<open>The automaton of \<open>s_req_method\<close> on its own: candidate and index after one more letter.\<close>

definition next_method :: "http_method \<Rightarrow> nat \<Rightarrow> char \<Rightarrow> http_method option" where
  "next_method m i ch =
     (if ch = NUL then None
      else if c_str_at (method_strings m) i = Some ch then Some m
      else switch_method m (of_nat i) ch)"

fun method_run :: "http_method \<Rightarrow> nat \<Rightarrow> string \<Rightarrow> http_method option" where
  "method_run m i [] = Some m"
| "method_run m i (ch # cs) =
     (case next_method m i ch of None \<Rightarrow> None | Some m' \<Rightarrow> method_run m' (i + 1) cs)"

text \<open>The automaton finds every method of the table.\<close>

lemma method_run_complete:
  "case initial_method (hd (method_strings m)) of None \<Rightarrow> False
     | Some m0 \<Rightarrow> method_run m0 1 (tl (method_strings m)) = Some m"
  by (cases m; hypsubst; code_simp)

lemma switch_method_prefix:
  "switch_method m i ch = Some m' \<Longrightarrow>
     take (unat i) (method_strings m') = take (unat i) (method_strings m) \<and>
     unat i < length (method_strings m') \<and> method_strings m' ! unat i = ch"
  by (auto simp: switch_method_def split: if_splits)

lemma next_method_prefix:
  assumes "next_method m i ch = Some m'" "i \<le> length (method_strings m)"
  shows "take (Suc i) (method_strings m') = take i (method_strings m) @ [ch]" "Suc i \<le> length (method_strings m')"
proof -
  have i: "unat (of_nat i :: 8 word) = i"
    using assms(2) method_strings_short[of m] by (simp add: unat_of_nat)
  have "take (Suc i) (method_strings m') = take i (method_strings m) @ [ch] \<and> i < length (method_strings m')"
  proof (cases "c_str_at (method_strings m) i = Some ch")
    case True
    with assms(1) have "m' = m" "i < length (method_strings m) \<and> ch = method_strings m ! i"
      using c_str_at_nonnul[OF True] by (auto simp: next_method_def split: if_splits)
    then show ?thesis by (simp add: take_Suc_conv_app_nth)
  next
    case False
    with assms(1) have "switch_method m (of_nat i) ch = Some m'"
      by (simp add: next_method_def split: if_splits)
    from switch_method_prefix[OF this] i show ?thesis by (auto simp: take_Suc_conv_app_nth)
  qed
  then show "take (Suc i) (method_strings m') = take i (method_strings m) @ [ch]"
    "Suc i \<le> length (method_strings m')" by auto
qed

lemma method_run_prefix:
  "method_run m i cs = Some m' \<Longrightarrow> i \<le> length (method_strings m) \<Longrightarrow>
     take (i + length cs) (method_strings m') = take i (method_strings m) @ cs
       \<and> i + length cs \<le> length (method_strings m')"
proof (induction cs arbitrary: m i)
  case (Cons ch cs)
  then obtain m1 where m1: "next_method m i ch = Some m1" "method_run m1 (i + 1) cs = Some m'"
    by (auto split: option.splits)
  from Cons.IH[OF m1(2)] next_method_prefix[OF m1(1) Cons.prems(2)] show ?case by simp
qed simp

text \<open>The parser inside a method, after the letters \<open>w\<close>.\<close>

definition reading_method :: "http_method \<Rightarrow> string \<Rightarrow> http_parser \<Rightarrow> bool" where
  "reading_method m w q \<longleftrightarrow> wf_parser q \<and> hp_errno q = HPE_OK \<and> \<not> hp_upgrade q \<and> hp_state q = s_req_method
     \<and> hp_method q = m \<and> unat (hp_index q) = length w \<and> unat (hp_nread q) = length w
     \<and> length w \<le> length (method_strings m)"

lemma reading_method_in_header: "reading_method m w q \<Longrightarrow> in_header q"
  using method_strings_short[of m]
  by (simp add: reading_method_def in_header_def PARSING_HEADER_def less_eq_state_def
      HTTP_MAX_HEADER_SIZE_def)

lemma counted_fields [simp]:
  "hp_state (counted q) = hp_state q" "hp_method (counted q) = hp_method q"
  "hp_index (counted q) = hp_index q" "hp_upgrade (counted q) = hp_upgrade q"
  "hp_header_state (counted q) = hp_header_state q" "hp_content_length (counted q) = hp_content_length q"
  by (simp_all add: counted_def)

lemma parser_enter [simp]: "parser (enter q u) = q"
  by (simp add: enter_def)

lemma method_letter:
  assumes "reading_method m w q" "ch \<noteq> CHR '' ''" "next_method m (length w) ch = Some m'"
  shows "\<exists>q' u'. reading_method m' (w @ [ch]) q' \<and> feed hc q u (ch # cs) = count_one (feed hc q' u' cs)"
proof -
  let ?c = "enter (counted q) u"
  let ?d = "set_index (hp_index q + 1) (upd_parser (\<lambda>q. q\<lparr>hp_method := m'\<rparr>) ?c)"
  have r: "hp_state q = s_req_method" "hp_method q = m" "unat (hp_index q) = length w"
      "unat (hp_nread q) = length w" "length w \<le> length (method_strings m)" "\<not> hp_upgrade q"
    using assms(1) by (simp_all add: reading_method_def)
  have i: "of_nat (length w) = hp_index q" by (simp flip: r(3))
  have "dispatch (recorder hc [ch]) 1 ch ?c = (?d, Next)"
  proof -
    obtain e where e: "c_str_at (method_strings m) (length w) = Some e" using c_str_at_Some[OF r(5)] by blast
    show ?thesis
      using r(1-3) assms(2,3) e i
      by (auto simp: dispatch_def do_req_method_def Let_def next_method_def set_index_def
          split: if_splits)
  qed
  note n = header_byte_next[OF reading_method_in_header[OF assms(1)] this]
  have "reading_method m' (w @ [ch]) (parser ?d)"
    using n(1,2) r next_method_prefix[OF assms(3) r(5)] method_strings_short[of m]
    by (simp add: reading_method_def set_index_def) (simp add: counted_def unat_word_ariths)
  then show ?thesis using n(3) r(6) by (auto simp: set_index_def)
qed

lemma method_stuck:
  assumes "reading_method m w q" "ch \<noteq> CHR '' ''" "next_method m (length w) ch = None"
  shows "hp_errno (fst (feed hc q u (ch # cs))) = HPE_INVALID_METHOD"
proof -
  let ?c = "enter (counted q) u"
  have r: "hp_state q = s_req_method" "hp_method q = m" "unat (hp_index q) = length w"
      "length w \<le> length (method_strings m)"
    using assms(1) by (simp_all add: reading_method_def)
  have i: "of_nat (length w) = hp_index q" by (simp flip: r(3))
  obtain e where e: "c_str_at (method_strings m) (length w) = Some e" using c_str_at_Some[OF r(4)] by blast
  have "dispatch (recorder hc [ch]) 1 ch ?c = fail HPE_INVALID_METHOD ?c"
    using r(1-3) assms(2,3) e i
    by (auto simp: dispatch_def do_req_method_def Let_def next_method_def split: if_splits)
  from header_byte_fail[OF reading_method_in_header[OF assms(1)] this] show ?thesis by simp
qed

text \<open>The space that ends the method.\<close>

lemma no_space_in_method: "CHR '' '' \<notin> set (method_strings m) \<and> NUL \<notin> set (method_strings m)"
  by (cases m; hypsubst; code_simp)

lemma switch_not_space: "switch_method m i (CHR '' '') = None"
  by (simp add: switch_method_def)

definition method_outcome :: "http_method \<Rightarrow> string \<Rightarrow> http_parser \<Rightarrow> bool" where
  "method_outcome m w q \<longleftrightarrow>
     (if w = method_strings m
      then hp_errno q = HPE_OK \<and> hp_state q = s_req_spaces_before_url \<and> hp_method q = m
      else hp_errno q = HPE_INVALID_METHOD)"

lemma method_space:
  assumes "reading_method m w q" "take (length w) (method_strings m) = w"
  shows "method_outcome m w (fst (feed hc q u '' ''))"
proof -
  let ?c = "enter (counted q) u"
  have r: "hp_state q = s_req_method" "hp_method q = m" "unat (hp_index q) = length w"
      "length w \<le> length (method_strings m)" "\<not> hp_upgrade q"
    using assms(1) by (simp_all add: reading_method_def)
  note h = reading_method_in_header[OF assms(1)]
  show ?thesis
  proof (cases "w = method_strings m")
    case True
    let ?d = "set_index (hp_index q + 1) (set_state s_req_spaces_before_url ?c)"
    have "dispatch (recorder hc '' '') 1 (CHR '' '') ?c = (?d, Next)"
      using r True by (simp add: dispatch_def do_req_method_def Let_def c_str_at_def NUL_def)
    note n = header_byte_next[OF h this]
    have "\<not> hp_upgrade (parser ?d)" using r(5) by (simp add: set_index_def set_state_def)
    then obtain u' where "feed hc q u '' '' = count_one (feed hc (parser ?d) u' [])"
      using n(3)[where cs = "[]"] by blast
    with True n(2) r(2,5) show ?thesis
      by (simp del: feed.simps(2) add: method_outcome_def set_index_def set_state_def)
  next
    case False
    with assms(2) r(4) have l: "length w < length (method_strings m)" by (metis le_neq_implies_less take_all order_refl)
    then have "method_strings m ! length w \<in> set (method_strings m)" by simp
    then have "method_strings m ! length w \<noteq> CHR '' ''" "method_strings m ! length w \<noteq> NUL"
      using no_space_in_method[of m] by auto
    then have "dispatch (recorder hc '' '') 1 (CHR '' '') ?c = fail HPE_INVALID_METHOD ?c"
      using r l by (simp add: dispatch_def do_req_method_def Let_def c_str_at_def switch_not_space)
    from header_byte_fail[OF h this, where cs = "[]"] False show ?thesis
      by (simp del: feed.simps add: method_outcome_def)
  qed
qed

lemma count_one_parser [simp]: "fst (count_one r) = fst r"
  by (cases r rule: count_one.cases) simp_all

lemma method_rest:
  assumes "reading_method m w q" "take (length w) (method_strings m) = w" "CHR '' '' \<notin> set v"
  shows "case method_run m (length w) v of
      None \<Rightarrow> hp_errno (fst (feed hc q u (v @ '' ''))) = HPE_INVALID_METHOD
    | Some m' \<Rightarrow> method_outcome m' (w @ v) (fst (feed hc q u (v @ '' '')))"
  using assms
proof (induction v arbitrary: m w q u)
  case Nil
  from method_space[OF Nil(1,2), of hc u] show ?case by (simp del: feed.simps)
next
  case (Cons ch v)
  show ?case
  proof (cases "next_method m (length w) ch")
    case None
    have "ch \<noteq> CHR '' ''" using Cons.prems(3) by auto
    from method_stuck[OF Cons.prems(1) this None] None show ?thesis by (simp del: feed.simps)
  next
    case (Some m')
    then obtain q' u' where q': "reading_method m' (w @ [ch]) q'"
        "feed hc q u (ch # v @ '' '') = count_one (feed hc q' u' (v @ '' ''))"
      using method_letter[OF Cons.prems(1) _ Some] Cons.prems(3) by force
    moreover have "take (length (w @ [ch])) (method_strings m') = w @ [ch]"
      using next_method_prefix(1)[OF Some] Cons.prems(1,2) by (simp add: reading_method_def)
    ultimately show ?thesis using Cons.IH[OF q'(1), of u'] Cons.prems(3) Some
      by (simp del: feed.simps split: option.splits)
  qed
qed

lemma init_in_header: "in_header (http_parser_init t)"
  unfolding in_header_def
  by (intro conjI wf_parser_init)
     (simp_all add: http_parser_init_def PARSING_HEADER_def less_eq_state_def HTTP_MAX_HEADER_SIZE_def)

lemma initial_method_first:
  "initial_method ch = Some m \<Longrightarrow> IS_ALPHA ch \<and> hd (method_strings m) = ch"
  by (auto simp: initial_method_def IS_ALPHA_def LOWER_def less_eq_char_def split: if_splits)

lemma method_start:
  assumes "ch \<noteq> CR" "ch \<noteq> LF"
  shows "case initial_method ch of
      None \<Rightarrow> hp_errno (fst (feed hc (http_parser_init HTTP_REQUEST) u (ch # cs))) = HPE_INVALID_METHOD
    | Some m \<Rightarrow> \<exists>q u'. reading_method m [ch] q \<and>
        feed hc (http_parser_init HTTP_REQUEST) u (ch # cs) = count_one (feed hc q u' cs)"
proof -
  let ?q = "counted (http_parser_init HTTP_REQUEST)"
  let ?c = "enter ?q u"
  have s: "hp_state ?q = s_start_req" "hp_errno ?q = HPE_OK" "\<not> hp_upgrade ?q" "unat (hp_nread ?q) = 1"
    by (simp_all add: http_parser_init_def counted_def)
  show ?thesis
  proof (cases "initial_method ch")
    case None
    have "\<exists>c'. dispatch (recorder hc [ch]) 1 ch ?c = fail HPE_INVALID_METHOD c'"
      using assms s(1) None by (auto simp: dispatch_def do_start_req_def Let_def)
    then show ?thesis using header_byte_fail[OF init_in_header] None by (auto simp del: feed.simps)
  next
    case (Some m)
    let ?d = "upd_parser (\<lambda>q. q\<lparr>hp_flags := 0, hp_content_length := ULLONG_MAX, hp_index := 1,
        hp_method := m, hp_state := s_req_method\<rparr>) ?c"
    have "dispatch (recorder hc [ch]) 1 ch ?c = (?d\<lparr>udata := udata ?c @ [Message_begin]\<rparr>, Next)"
      using assms s(1,2) Some initial_method_first[OF Some]
      by (simp add: dispatch_def do_start_req_def Let_def recorder_notify)
    note n = header_byte_next[OF init_in_header this]
    have "reading_method m [ch] (parser ?d)"
      using n(1,2) s initial_method_length[OF Some] by (simp add: reading_method_def)
    then show ?thesis using n(3)[of cs] s(3) Some by (auto simp del: feed.simps)
  qed
qed

lemma method_run_of:
  "method_strings m = ch # v \<Longrightarrow> \<exists>m0. initial_method ch = Some m0 \<and> method_run m0 1 v = Some m"
  using method_run_complete[of m] by (auto split: option.splits)

lemma method_nonempty: "method_strings m \<noteq> []"
  by (cases m) simp_all

definition method_recognition :: "string \<Rightarrow> http_parser \<Rightarrow> bool" where
  "method_recognition w q \<longleftrightarrow>
     (if w \<in> range method_strings
      then hp_errno q = HPE_OK \<and> hp_state q = s_req_spaces_before_url \<and> method_strings (hp_method q) = w
      else hp_errno q = HPE_INVALID_METHOD)"

lemma method_recognition_rest:
  assumes "reading_method m [ch] q" "initial_method ch = Some m" "CHR '' '' \<notin> set v"
  shows "method_recognition (ch # v) (fst (feed hc q u (v @ '' '')))"
proof -
  have "take (length [ch]) (method_strings m) = [ch]"
    using initial_method_first[OF assms(2)] method_nonempty[of m] by (cases "method_strings m") auto
  note r = method_rest[OF assms(1) this assms(3), of hc u]
  show ?thesis
  proof (cases "ch # v \<in> range method_strings")
    case True
    then obtain m' where m': "method_strings m' = ch # v" by auto
    then have "method_run m (length [ch]) v = Some m'"
      using method_run_of[OF m'] assms(2) by simp
    with r m' True show ?thesis by (simp del: feed.simps add: method_recognition_def method_outcome_def)
  next
    case False
    then have "ch # v \<noteq> method_strings m'" for m' by auto
    with r False show ?thesis
      by (simp del: feed.simps add: method_recognition_def method_outcome_def split: option.splits)
  qed
qed

lemma method_of_stream:
  assumes "set w \<inter> {CHR '' '', CR, LF} = {}"
  shows "method_recognition w (fst (feed hc (http_parser_init HTTP_REQUEST) u (w @ '' '')))"
proof (cases w)
  case Nil
  have "[] \<notin> range method_strings" using method_nonempty by (metis imageE)
  moreover have "initial_method (CHR '' '') = None" "CHR '' '' \<noteq> CR" "CHR '' '' \<noteq> LF"
    by (simp_all add: initial_method_def CR_def LF_def)
  ultimately show ?thesis
    using Nil method_start[of "CHR '' ''" hc u "[]"]
    by (simp del: feed.simps add: method_recognition_def)
next
  case (Cons ch v)
  then have ch: "ch \<noteq> CR" "ch \<noteq> LF" "CHR '' '' \<notin> set v" using assms by auto
  note s = method_start[OF ch(1,2), of hc u "v @ '' ''"]
  show ?thesis
  proof (cases "initial_method ch")
    case None
    then have "method_strings m \<noteq> ch # v" for m using method_run_of[of m ch v] by auto
    then have "w \<notin> range method_strings" using Cons by (metis imageE)
    with None Cons s show ?thesis by (simp del: feed.simps add: method_recognition_def)
  next
    case (Some m)
    then obtain q u' where "reading_method m [ch] q"
        "feed hc (http_parser_init HTTP_REQUEST) u (ch # v @ '' '') = count_one (feed hc q u' (v @ '' ''))"
      using s by auto
    then show ?thesis
      using method_recognition_rest[OF _ Some ch(3)] Cons by (simp del: feed.simps)
  qed
qed

section \<open>Header names\<close>

text \<open>
  The names that the parser looks for, in lower case, and the state that stands for each. \<open>TOKEN\<close> maps a
  letter to its lower-case form.
\<close>

definition known_headers :: "(string \<times> header_states \<times> header_states) list" where
  "known_headers =
     [(CONNECTION, h_matching_connection, h_connection),
      (PROXY_CONNECTION, h_matching_proxy_connection, h_connection),
      (CONTENT_LENGTH, h_matching_content_length, h_content_length),
      (TRANSFER_ENCODING, h_matching_transfer_encoding, h_transfer_encoding),
      (UPGRADE, h_matching_upgrade, h_upgrade)]"

text \<open>The state that the name automaton should be in after the letters \<open>t\<close>.\<close>

definition name_state :: "string \<Rightarrow> header_states" where
  "name_state t =
     (case List.find (\<lambda>(w, _). prefix t w) known_headers of
        None \<Rightarrow> h_general
      | Some (w, matching, matched) \<Rightarrow>
          if t = w then matched
          else if t = ''c'' then h_C else if t = ''co'' then h_CO else if t = ''con'' then h_CON
          else matching)"

lemmas name_state_simps = name_state_def known_headers_def header_words

definition good_step :: "string \<Rightarrow> bool" where
  "good_step t \<longleftrightarrow> (\<forall>c ch. header_name_step (name_state t) (of_nat (length t - 1)) c ch =
     Some (name_state (t @ [c]), of_nat (length t)))"

text \<open>The automaton follows each known name, and drops it at the first wrong letter.\<close>

lemma good_steps:
  "list_all good_step (tl (butlast (prefixes CONNECTION)))"
  "list_all good_step (tl (butlast (prefixes PROXY_CONNECTION)))"
  "list_all good_step (tl (butlast (prefixes CONTENT_LENGTH)))"
  "list_all good_step (tl (butlast (prefixes TRANSFER_ENCODING)))"
  "list_all good_step (tl (butlast (prefixes UPGRADE)))"
  by (simp_all add: good_step_def name_state_simps header_name_step_def match_word_def c_str_at_def)

definition header_names :: "string set" where
  "header_names = {CONNECTION, PROXY_CONNECTION, CONTENT_LENGTH, TRANSFER_ENCODING, UPGRADE}"

definition following :: "string \<Rightarrow> bool" where
  "following t \<longleftrightarrow> t \<noteq> [] \<and> (\<exists>w \<in> header_names. strict_prefix t w)"

lemma strict_prefix_set: "t \<noteq> [] \<Longrightarrow> strict_prefix t w \<Longrightarrow> t \<in> set (tl (butlast (prefixes w)))"
proof -
  assume "t \<noteq> []" "strict_prefix t w"
  then have "t \<in> set (prefixes w)" "t \<noteq> w" "t \<noteq> []" by auto
  moreover have "prefixes w = butlast (prefixes w) @ [w]"
    by (metis append_butlast_last_id last_prefixes prefixes_not_Nil)
  ultimately have "t \<in> set (butlast (prefixes w))" by (metis Un_iff empty_iff insert_iff list.set(1,2) set_append)
  moreover have "butlast (prefixes w) = [] \<or> hd (butlast (prefixes w)) = []"
    by (cases w; simp add: butlast_append) 
  ultimately show ?thesis using \<open>t \<noteq> []\<close> by (cases "butlast (prefixes w)") auto
qed

lemma following_good:
  assumes "following t"
  shows "good_step t"
proof -
  obtain w where w: "w \<in> header_names" "t \<in> set (tl (butlast (prefixes w)))"
    using assms strict_prefix_set[of t] by (auto simp: following_def)
  from w(1) good_steps have "list_all good_step (tl (butlast (prefixes w)))"
    by (auto simp only: header_names_def)
  with w(2) show ?thesis by (simp add: list_all_iff)
qed

lemma name_state_known:
  "name_state CONNECTION = h_connection" "name_state PROXY_CONNECTION = h_connection"
  "name_state CONTENT_LENGTH = h_content_length" "name_state TRANSFER_ENCODING = h_transfer_encoding"
  "name_state UPGRADE = h_upgrade"
  by (simp_all add: name_state_simps)

lemma find_known:
  assumes "List.find (\<lambda>(w, _). prefix t w) known_headers = Some (w, matching, matched)"
  shows "prefix t w" "w \<in> header_names" "matching \<notin> {h_connection, h_content_length, h_transfer_encoding, h_upgrade}"
proof -
  have "(w, matching, matched) \<in> set known_headers \<and> prefix t w"
    using assms by (auto simp: find_Some_iff in_set_conv_nth)
  then show "prefix t w" "w \<in> header_names" "matching \<notin> {h_connection, h_content_length, h_transfer_encoding, h_upgrade}"
    by (auto simp only: known_headers_def header_names_def set_simps insert_iff empty_iff prod.inject header_states.distinct)
qed

lemma name_state_other:
  assumes "t \<notin> header_names"
  shows "name_state t \<notin> {h_connection, h_content_length, h_transfer_encoding, h_upgrade}"
proof (cases "List.find (\<lambda>(w, _). prefix t w) known_headers")
  case (Some r)
  obtain w mg md where r: "r = (w, mg, md)" by (cases r)
  with find_known[OF Some[unfolded r]] assms Some show ?thesis by (auto simp: name_state_def)
qed (simp add: name_state_def)

lemma header_names_cases:
  assumes "t \<in> header_names"
  obtains "t = CONNECTION" | "t = PROXY_CONNECTION" | "t = CONTENT_LENGTH" | "t = TRANSFER_ENCODING"
    | "t = UPGRADE"
  using assms unfolding header_names_def by blast

lemma header_names_distinct:
  "distinct [CONNECTION, PROXY_CONNECTION, CONTENT_LENGTH, TRANSFER_ENCODING, UPGRADE]"
  by (simp add: header_words)

lemma name_state_iff:
  "name_state t = h_connection \<longleftrightarrow> t \<in> {CONNECTION, PROXY_CONNECTION}"
  "name_state t = h_content_length \<longleftrightarrow> t = CONTENT_LENGTH"
  "name_state t = h_transfer_encoding \<longleftrightarrow> t = TRANSFER_ENCODING"
  "name_state t = h_upgrade \<longleftrightarrow> t = UPGRADE"
proof -
  have "(name_state t = h_connection \<longleftrightarrow> t \<in> {CONNECTION, PROXY_CONNECTION}) \<and>
    (name_state t = h_content_length \<longleftrightarrow> t = CONTENT_LENGTH) \<and>
    (name_state t = h_transfer_encoding \<longleftrightarrow> t = TRANSFER_ENCODING) \<and> (name_state t = h_upgrade \<longleftrightarrow> t = UPGRADE)"
  proof (cases "t \<in> header_names")
    case True
    then show ?thesis
      using header_names_distinct by (cases rule: header_names_cases) (auto simp: name_state_known)
  next
    case False
    with name_state_other[OF False] show ?thesis by (auto simp: header_names_def)
  qed
  then show "name_state t = h_connection \<longleftrightarrow> t \<in> {CONNECTION, PROXY_CONNECTION}"
    "name_state t = h_content_length \<longleftrightarrow> t = CONTENT_LENGTH"
    "name_state t = h_transfer_encoding \<longleftrightarrow> t = TRANSFER_ENCODING" "name_state t = h_upgrade \<longleftrightarrow> t = UPGRADE"
    by blast+
qed

lemma name_state_lost:
  assumes "t \<notin> header_names" "t \<noteq> []" "\<not> following t"
  shows "name_state t = h_general"
proof (cases "List.find (\<lambda>(w, _). prefix t w) known_headers")
  case (Some r)
  obtain w mg md where r: "r = (w, mg, md)" by (cases r)
  from find_known(1,2)[OF Some[unfolded r]] assms show ?thesis
    by (auto simp: following_def strict_prefix_def)
qed (simp add: name_state_def)

lemma lost_for_good:
  assumes "\<not> following t" "t \<noteq> []"
  shows "t @ [c] \<notin> header_names" "\<not> following (t @ [c])"
proof -
  have "strict_prefix t (t @ [c])" by (simp add: strict_prefix_def)
  with assms show "t @ [c] \<notin> header_names" by (auto simp only: following_def)
  have "strict_prefix (t @ [c]) w \<Longrightarrow> strict_prefix t w" for w
    using prefix_order.less_trans[of t "t @ [c]" w] by (simp add: strict_prefix_def)
  with assms show "\<not> following (t @ [c])" by (auto simp only: following_def)
qed

text \<open>One step of the name automaton, as \<open>do_header_field\<close> takes it.\<close>

lemma name_step:
  assumes "t \<noteq> []" "following t \<longrightarrow> i = of_nat (length t - 1)" "ch \<noteq> CHR '' ''"
  obtains i' where "header_name_step (name_state t) i c ch = Some (name_state (t @ [c]), i')"
    "following (t @ [c]) \<longrightarrow> i' = of_nat (length (t @ [c]) - 1)"
proof (cases "following t")
  case True
  with assms(2) following_good[OF True] that[of "of_nat (length t)"] show ?thesis
    by (simp add: good_step_def)
next
  case False
  note l = lost_for_good[OF False assms(1), of c]
  have "name_state (t @ [c]) = h_general" using name_state_lost[OF l(1) _ l(2)] by simp
  moreover have "header_name_step (name_state t) i c ch = Some (h_general, i)"
  proof (cases "t \<in> header_names")
    case True
    then show ?thesis
      using assms(3) by (cases rule: header_names_cases) (simp_all add: name_state_known header_name_step_def)
  next
    case False
    with name_state_lost[OF this assms(1) \<open>\<not> following t\<close>] show ?thesis by (simp add: header_name_step_def)
  qed
  ultimately show ?thesis using that[of i] l(2) by simp
qed

definition reading_name :: "string \<Rightarrow> http_parser \<Rightarrow> bool" where
  "reading_name t q \<longleftrightarrow> wf_parser q \<and> hp_errno q = HPE_OK \<and> \<not> hp_upgrade q \<and> hp_state q = s_header_field
     \<and> t \<noteq> [] \<and> hp_header_state q = name_state t
     \<and> (following t \<longrightarrow> hp_index q = of_nat (length t - 1))"

lemma unat_counted:
  "unat (hp_nread q) < unat HTTP_MAX_HEADER_SIZE \<Longrightarrow> unat (hp_nread (counted q)) = unat (hp_nread q) + 1"
  by (simp add: counted_def HTTP_MAX_HEADER_SIZE_def unat_word_ariths)

lemma TOKEN_space: "TOKEN (CHR '' '') = NUL" "TOKEN (CHR '':'') = NUL" "TOKEN CR = NUL" "TOKEN LF = NUL"
  by code_simp+

lemma name_letter:
  assumes "reading_name t q" "TOKEN ch \<noteq> NUL" "unat (hp_nread q) < unat HTTP_MAX_HEADER_SIZE"
  shows "\<exists>q' u'. reading_name (t @ [TOKEN ch]) q' \<and> unat (hp_nread q') = unat (hp_nread q) + 1 \<and>
     feed hc q u (ch # cs) = count_one (feed hc q' u' cs)"
proof -
  let ?c = "enter (counted q) u"
  have r: "hp_state q = s_header_field" "t \<noteq> []" "hp_header_state q = name_state t" "\<not> hp_upgrade q"
      "following t \<longrightarrow> hp_index q = of_nat (length t - 1)" "in_header q"
    using assms(1,3) by (simp_all add: reading_name_def in_header_def PARSING_HEADER_def less_eq_state_def)
  have "ch \<noteq> CHR '' ''" using assms(2) TOKEN_space(1) by auto
  from name_step[OF r(2,5) this, of "TOKEN ch"] obtain i' where
    i': "header_name_step (name_state t) (hp_index q) (TOKEN ch) ch = Some (name_state (t @ [TOKEN ch]), i')"
      "following (t @ [TOKEN ch]) \<longrightarrow> i' = of_nat (length (t @ [TOKEN ch]) - 1)" by blast
  let ?d = "set_header_state (name_state (t @ [TOKEN ch])) (set_index i' ?c)"
  have "dispatch (recorder hc [ch]) 1 ch ?c = (?d, Next)"
    using r(1,3) assms(2) i'(1) by (simp add: dispatch_def do_header_field_def)
  note n = header_byte_next[OF r(6) this]
  have "reading_name (t @ [TOKEN ch]) (parser ?d)" "unat (hp_nread (parser ?d)) = unat (hp_nread q) + 1"
    using n(1,2) r i'(2) unat_counted[OF assms(3)]
    by (simp_all add: reading_name_def set_header_state_def set_index_def)
  then show ?thesis using n(3)[of cs] r(4) by (auto simp: set_header_state_def set_index_def simp del: feed.simps)
qed

lemma name_start:
  assumes "in_header q" "hp_state q = s_header_field_start" "TOKEN ch \<noteq> NUL"
  shows "\<exists>q' u'. reading_name [TOKEN ch] q' \<and> unat (hp_nread q') = unat (hp_nread q) + 1 \<and>
     feed hc q u (ch # cs) = count_one (feed hc q' u' cs)"
proof -
  let ?c = "enter (counted q) u" and ?t = "TOKEN ch"
  have "ch \<noteq> CR" "ch \<noteq> LF" using assms(3) TOKEN_space(3,4) by auto
  moreover have "name_state [?t] = (if ?t = CHR ''c'' then h_C
      else if ?t = CHR ''p'' then h_matching_proxy_connection
      else if ?t = CHR ''t'' then h_matching_transfer_encoding
      else if ?t = CHR ''u'' then h_matching_upgrade else h_general)"
    by (simp add: name_state_simps)
  moreover have "header_field_mark ?c = None" "pos ?c = 0" using assms(2) by (simp_all add: enter_def)
  ultimately have "dispatch (recorder hc [ch]) 1 ch ?c =
      (set_header_state (name_state [?t]) (set_state s_header_field (set_index 0
        (?c\<lparr>header_field_mark := Some 0\<rparr>))), Next)" (is "_ = (?d, Next)")
    using assms(2,3) by (simp add: dispatch_def do_header_field_start_def Let_def MARK_def)
  note n = header_byte_next[OF assms(1) this]
  have "\<not> hp_upgrade q" "unat (hp_nread q) < unat HTTP_MAX_HEADER_SIZE"
    using assms(1) by (simp_all add: in_header_def)
  then have "reading_name [?t] (parser ?d)" "unat (hp_nread (parser ?d)) = unat (hp_nread q) + 1"
    using n(1,2) unat_counted[of q]
    by (simp_all add: reading_name_def set_header_state_def set_index_def set_state_def)
  then show ?thesis
    using n(3)[of cs] \<open>\<not> hp_upgrade q\<close>
    by (auto simp: set_header_state_def set_index_def set_state_def simp del: feed.simps)
qed

lemma name_colon:
  assumes "reading_name t q" "unat (hp_nread q) < unat HTTP_MAX_HEADER_SIZE"
  shows "case fst (feed hc q u '':'') of q' \<Rightarrow> hp_errno q' = HPE_OK \<and>
     hp_state q' = s_header_value_start \<and> hp_header_state q' = name_state t"
proof -
  let ?c = "enter (counted q) u"
  have r: "hp_state q = s_header_field" "hp_header_state q = name_state t" "\<not> hp_upgrade q" "in_header q"
      "hp_errno (counted q) = HPE_OK"
    using assms by (simp_all add: reading_name_def in_header_def PARSING_HEADER_def less_eq_state_def counted_def)
  obtain c' where d: "dispatch (recorder hc '':'') 1 (CHR '':'') ?c = (c', Next)"
      "parser c' = (counted q)\<lparr>hp_state := s_header_value_start\<rparr>"
    using r(1,5) by (simp add: dispatch_def do_header_field_def TOKEN_space recorder_data set_state_def)
  note n = header_byte_next[OF r(4) d(1)]
  obtain u' where "feed hc q u '':'' = count_one (feed hc (parser c') u' [])"
    using n(3)[where cs = "[]"] d(2) r(3) by auto
  with n(2) d(2) r(2,3) show ?thesis by (simp del: feed.simps(2))
qed

lemma name_rest:
  assumes "reading_name t q" "\<forall>ch \<in> set name. TOKEN ch \<noteq> NUL"
    "unat (hp_nread q) + length name < unat HTTP_MAX_HEADER_SIZE"
  shows "case fst (feed hc q u (name @ '':'')) of q' \<Rightarrow> hp_errno q' = HPE_OK \<and>
     hp_state q' = s_header_value_start \<and> hp_header_state q' = name_state (t @ List.map TOKEN name)"
  using assms
proof (induction name arbitrary: t q u)
  case Nil
  from name_colon[OF Nil(1), of hc u] Nil(3) show ?case by (simp del: feed.simps)
next
  case (Cons ch name)
  from name_letter[OF Cons.prems(1), of ch hc u "name @ '':''"] Cons.prems(2,3) obtain q' u' where
    q': "reading_name (t @ [TOKEN ch]) q'" "unat (hp_nread q') = unat (hp_nread q) + 1"
      "feed hc q u (ch # name @ '':'') = count_one (feed hc q' u' (name @ '':''))" by auto
  from Cons.IH[OF q'(1), of u'] Cons.prems(2,3) q'(2,3) show ?case by (simp del: feed.simps)
qed

lemma name_of_stream:
  assumes "in_header q" "hp_state q = s_header_field_start" "name \<noteq> []"
    "\<forall>ch \<in> set name. TOKEN ch \<noteq> NUL" "unat (hp_nread q) + length name < unat HTTP_MAX_HEADER_SIZE"
  shows "case fst (feed hc q u (name @ '':'')) of q' \<Rightarrow> hp_errno q' = HPE_OK \<and>
     hp_state q' = s_header_value_start \<and> hp_header_state q' = name_state (List.map TOKEN name)"
proof -
  obtain ch cs where name: "name = ch # cs" using assms(3) by (cases name) auto
  from name_start[OF assms(1,2), of ch hc u "cs @ '':''"] assms(4) name obtain q' u' where
    q': "reading_name [TOKEN ch] q'" "unat (hp_nread q') = unat (hp_nread q) + 1"
      "feed hc q u (ch # cs @ '':'') = count_one (feed hc q' u' (cs @ '':''))" by auto
  from name_rest[OF q'(1), of cs hc u'] assms(4,5) name q'(2,3) show ?thesis by (simp del: feed.simps)
qed

section \<open>The number in a Content-Length\<close>

definition dec_val :: "string \<Rightarrow> nat" where
  "dec_val ds = foldl (\<lambda>n ch. n * 10 + digit_val ch) 0 ds"

lemma dec_val_snoc: "dec_val (ds @ [ch]) = dec_val ds * 10 + digit_val ch"
  by (simp add: dec_val_def)

lemma dec_val_append_ge: "dec_val ds \<le> dec_val (ds @ es)"
proof (induction es rule: rev_induct)
  case (snoc ch es)
  then show ?case using dec_val_snoc[of "ds @ es" ch] by simp
qed simp

definition content_length_limit :: nat where
  "content_length_limit = 18446744073709551609"

text \<open>The test before a digit is added, in numbers: what is refused would exceed the limit.\<close>

lemma content_length_guard:
  "(ULLONG_MAX - 10) div 10 < n \<longleftrightarrow> 1844674407370955160 < unat n" for n :: "64 word"
proof -
  have "(ULLONG_MAX - 10) div 10 = (1844674407370955160 :: 64 word)" by code_simp
  then show ?thesis by (simp add: word_less_nat_alt)
qed

lemma dec_val_limit:
  "IS_NUM ch \<Longrightarrow>
     dec_val (ds @ [ch]) \<le> content_length_limit \<longleftrightarrow> dec_val ds \<le> 1844674407370955160"
  using digit_val_le[of ch] by (auto simp: dec_val_snoc content_length_limit_def)

lemma IS_NUM_not_space:
  "IS_NUM ch \<Longrightarrow> ch \<noteq> CHR '' '' \<and> ch \<noteq> HT \<and> ch \<noteq> CR \<and> ch \<noteq> LF"
  by (auto simp: IS_NUM_def less_eq_char_def HT_def CR_def LF_def)

definition reading_length :: "string \<Rightarrow> http_parser \<Rightarrow> bool" where
  "reading_length ds q \<longleftrightarrow> wf_parser q \<and> hp_errno q = HPE_OK \<and> \<not> hp_upgrade q \<and> hp_state q = s_header_value
     \<and> hp_header_state q = h_content_length \<and> unat (hp_content_length q) = dec_val ds"

lemma length_start:
  assumes "in_header q" "hp_state q = s_header_value_start" "hp_header_state q = h_content_length"
    "IS_NUM ch"
  shows "\<exists>q' u'. reading_length [ch] q' \<and> unat (hp_nread q') = unat (hp_nread q) + 1 \<and>
     feed hc q u (ch # cs) = count_one (feed hc q' u' cs)"
proof -
  let ?c = "enter (counted q) u"
  have m: "header_value_mark ?c = None" "pos ?c = 0" using assms(2) by (simp_all add: enter_def)
  obtain c' where d: "dispatch (recorder hc [ch]) 1 ch ?c = (c', Next)"
      "parser c' = (counted q)\<lparr>hp_state := s_header_value, hp_index := 0,
         hp_content_length := of_nat (digit_val ch)\<rparr>"
    using assms(2-4) IS_NUM_not_space[OF assms(4)] m
    by (simp add: dispatch_def do_header_value_start_def Let_def set_index_def set_state_def)
  note n = header_byte_next[OF assms(1) d(1)]
  have q: "\<not> hp_upgrade q" "unat (hp_nread q) < unat HTTP_MAX_HEADER_SIZE"
    using assms(1) by (simp_all add: in_header_def)
  have "unat (of_nat (digit_val ch) :: 64 word) = digit_val ch"
    using digit_val_le[OF assms(4)] by (simp add: unat_of_nat)
  then have "reading_length [ch] (parser c')" "unat (hp_nread (parser c')) = unat (hp_nread q) + 1"
    using n(1,2) d(2) q assms(3) unat_counted[OF q(2)] by (simp_all add: reading_length_def dec_val_def)
  then show ?thesis using n(3)[of cs] d(2) q(1) by (auto simp del: feed.simps)
qed

lemma length_digit:
  assumes "reading_length ds q" "IS_NUM ch" "unat (hp_nread q) < unat HTTP_MAX_HEADER_SIZE"
  shows "if dec_val (ds @ [ch]) \<le> content_length_limit
     then \<exists>q' u'. reading_length (ds @ [ch]) q' \<and> unat (hp_nread q') = unat (hp_nread q) + 1 \<and>
       feed hc q u (ch # cs) = count_one (feed hc q' u' cs)
     else hp_errno (fst (feed hc q u (ch # cs))) = HPE_INVALID_CONTENT_LENGTH"
proof -
  let ?c = "enter (counted q) u" and ?n = "hp_content_length q"
  let ?t = "?n * 10 + of_nat (digit_val ch)"
  have r: "hp_state q = s_header_value" "hp_header_state q = h_content_length" "\<not> hp_upgrade q"
      "unat ?n = dec_val ds" "in_header q"
    using assms(1,3) by (simp_all add: reading_length_def in_header_def PARSING_HEADER_def less_eq_state_def)
  note s = IS_NUM_not_space[OF assms(2)]
  have d: "dispatch (recorder hc [ch]) 1 ch ?c = do_content_length_digit ch ?c"
    using r(1,2) s by (simp add: dispatch_def do_header_value_def)
  show ?thesis
  proof (cases "dec_val (ds @ [ch]) \<le> content_length_limit")
    case True
    then have l: "dec_val ds \<le> 1844674407370955160" using dec_val_limit[OF assms(2)] by simp
    have "dispatch (recorder hc [ch]) 1 ch ?c = (upd_parser (\<lambda>q. q\<lparr>hp_content_length := ?t\<rparr>) ?c, Next)"
        (is "_ = (?d, Next)")
      unfolding d using s assms(2) l r(4)
      by (simp add: do_content_length_digit_def Let_def content_length_guard)
    note n = header_byte_next[OF r(5) this]
    have "unat ?t = dec_val (ds @ [ch])"
      using l r(4) digit_val_le[OF assms(2)]
      by (simp add: dec_val_snoc unat_word_ariths unat_of_nat)
    then have "reading_length (ds @ [ch]) (parser ?d)" "unat (hp_nread (parser ?d)) = unat (hp_nread q) + 1"
      using n(1,2) r unat_counted[OF assms(3)] by (simp_all add: reading_length_def)
    then show ?thesis using n(3)[of cs] r(3) True by (auto simp del: feed.simps)
  next
    case False
    then have "\<not> dec_val ds \<le> 1844674407370955160" using dec_val_limit[OF assms(2)] by simp
    then have "dispatch (recorder hc [ch]) 1 ch ?c = fail HPE_INVALID_CONTENT_LENGTH ?c"
      unfolding d using s assms(2) r(4)
      by (simp add: do_content_length_digit_def Let_def content_length_guard)
    from header_byte_fail[OF r(5) this] False show ?thesis by (simp del: feed.simps)
  qed
qed

lemma length_rest:
  assumes "reading_length ds q" "\<forall>ch \<in> set es. IS_NUM ch"
    "unat (hp_nread q) + length es \<le> unat HTTP_MAX_HEADER_SIZE" "dec_val ds \<le> content_length_limit"
  shows "case fst (feed hc q u es) of q' \<Rightarrow> if dec_val (ds @ es) \<le> content_length_limit
     then hp_errno q' = HPE_OK \<and> hp_state q' = s_header_value \<and> unat (hp_content_length q') = dec_val (ds @ es)
     else hp_errno q' = HPE_INVALID_CONTENT_LENGTH"
  using assms
proof (induction es arbitrary: ds q u)
  case Nil
  then show ?case by (simp add: reading_length_def)
next
  case (Cons ch es)
  have num: "IS_NUM ch" and room: "unat (hp_nread q) < unat HTTP_MAX_HEADER_SIZE"
    using Cons.prems(2,3) by auto
  note d = length_digit[OF Cons.prems(1) num room, of hc u es]
  show ?case
  proof (cases "dec_val (ds @ [ch]) \<le> content_length_limit")
    case True
    with d obtain q' u' where "reading_length (ds @ [ch]) q'" "unat (hp_nread q') = unat (hp_nread q) + 1"
        "feed hc q u (ch # es) = count_one (feed hc q' u' es)"
      by auto
    with Cons.IH[of "ds @ [ch]" q' u'] Cons.prems(2,3) True show ?thesis by (simp del: feed.simps)
  next
    case False
    then have "\<not> dec_val (ds @ ch # es) \<le> content_length_limit"
      using dec_val_append_ge[of "ds @ [ch]" es] by simp
    with False d show ?thesis by (simp del: feed.simps)
  qed
qed

lemma length_of_stream:
  assumes "in_header q" "hp_state q = s_header_value_start" "hp_header_state q = h_content_length"
    "ds \<noteq> []" "\<forall>ch \<in> set ds. IS_NUM ch" "unat (hp_nread q) + length ds \<le> unat HTTP_MAX_HEADER_SIZE"
  shows "case fst (feed hc q u ds) of q' \<Rightarrow> if dec_val ds \<le> content_length_limit
     then hp_errno q' = HPE_OK \<and> hp_state q' = s_header_value \<and> unat (hp_content_length q') = dec_val ds
     else hp_errno q' = HPE_INVALID_CONTENT_LENGTH"
proof -
  obtain ch es where ds: "ds = ch # es" using assms(4) by (cases ds) auto
  then have num: "IS_NUM ch" using assms(5) by simp
  obtain q' u' where q': "reading_length [ch] q'" "unat (hp_nread q') = unat (hp_nread q) + 1"
      "feed hc q u ds = count_one (feed hc q' u' es)"
    using length_start[OF assms(1-3) num] ds by metis
  have "dec_val [ch] \<le> content_length_limit"
    using digit_val_le[OF num] by (simp add: dec_val_def content_length_limit_def)
  with length_rest[OF q'(1), of es hc u'] assms(5,6) ds q'(2,3) show ?thesis by simp
qed

section \<open>Properties\<close>

lemma execute_parser:
  assumes "in_header q" "data \<noteq> []"
  shows "fst (http_parser_execute (recorder hc data) q u data) = fst (feed hc q u data)"
proof -
  have "agree 0 (http_parser_execute (recorder hc data) q u data) (feed hc q u data)"
    using assms by (intro execute_agrees) (simp_all add: in_header_def)
  then show ?thesis
    by (cases "http_parser_execute (recorder hc data) q u data"; cases "feed hc q u data") simp
qed

text \<open>
  C10 The method of a request: on a word followed by a space a fresh request parser stands before the URL
  with the method of that name when the word is one of \<open>method_strings\<close>, and reports
  \<open>HPE_INVALID_METHOD\<close> when it is not. The hand-written automaton, which starts from one candidate per
  first letter and switches to others, finds each of the 26 methods and nothing else.
\<close>

theorem method_recognised:
  assumes "set w \<inter> {CHR '' '', CR, LF} = {}"
  shows "case fst (http_parser_execute (recorder hc (w @ '' '')) (http_parser_init HTTP_REQUEST) u (w @ '' ''))
     of q \<Rightarrow> if w \<in> range method_strings
       then hp_errno q = HPE_OK \<and> hp_state q = s_req_spaces_before_url \<and> method_strings (hp_method q) = w
       else hp_errno q = HPE_INVALID_METHOD"
  using method_of_stream[OF assms, of hc u] execute_parser[OF init_in_header, of "w @ '' ''" hc HTTP_REQUEST u]
  by (simp del: feed.simps add: method_recognition_def)

theorem method_recognised_witness:
  "case fst (http_parser_execute (recorder (\<lambda>_. 0) (''PURGE'' @ '' '')) (http_parser_init HTTP_REQUEST) [] (''PURGE'' @ '' ''))
     of q \<Rightarrow> if ''PURGE'' \<in> range method_strings
       then hp_errno q = HPE_OK \<and> hp_state q = s_req_spaces_before_url \<and> method_strings (hp_method q) = ''PURGE''
       else hp_errno q = HPE_INVALID_METHOD"
  by (rule method_recognised) (simp add: CR_def LF_def)

text \<open>
  C11 The header names that the parser interprets: after any header name made of token bytes and the colon,
  the parser stands before the value, and its header state says \<open>h_connection\<close>, \<open>h_content_length\<close>,
  \<open>h_transfer_encoding\<close> or \<open>h_upgrade\<close> exactly when the name is, in any mixture of cases, the one that the
  state stands for. \<open>in_header\<close> asks for a well-formed parser without an error.
\<close>

theorem header_name_recognised:
  assumes "in_header q" "hp_state q = s_header_field_start" "name \<noteq> []"
    "\<forall>ch \<in> set name. TOKEN ch \<noteq> NUL" "unat (hp_nread q) + length name < unat HTTP_MAX_HEADER_SIZE"
  shows "case fst (http_parser_execute (recorder hc (name @ '':'')) q u (name @ '':'')) of q' \<Rightarrow>
     hp_errno q' = HPE_OK \<and> hp_state q' = s_header_value_start \<and>
     (hp_header_state q' = h_connection \<longleftrightarrow>
        List.map TOKEN name = ''connection'' \<or> List.map TOKEN name = ''proxy-connection'') \<and>
     (hp_header_state q' = h_content_length \<longleftrightarrow> List.map TOKEN name = ''content-length'') \<and>
     (hp_header_state q' = h_transfer_encoding \<longleftrightarrow> List.map TOKEN name = ''transfer-encoding'') \<and>
     (hp_header_state q' = h_upgrade \<longleftrightarrow> List.map TOKEN name = ''upgrade'')"
proof -
  have "fst (http_parser_execute (recorder hc (name @ '':'')) q u (name @ '':'')) =
      fst (feed hc q u (name @ '':''))"
    by (rule execute_parser[OF assms(1)]) simp
  with name_of_stream[OF assms, of hc u] show ?thesis
    using name_state_iff[of "List.map TOKEN name"] by (simp del: feed.simps add: header_words)
qed

definition before_header :: http_parser where
  "before_header = (http_parser_init HTTP_REQUEST)\<lparr>hp_state := s_header_field_start\<rparr>"

lemma before_header_ok: "in_header before_header"
  unfolding in_header_def before_header_def
  by (simp add: wf_defs http_parser_init_def PARSING_HEADER_def less_eq_state_def HTTP_MAX_HEADER_SIZE_def
      chunk_states_def)

theorem header_name_recognised_witness:
  "case fst (http_parser_execute (recorder (\<lambda>_. 0) (''Upgrade'' @ '':'')) before_header [] (''Upgrade'' @ '':'')) of q' \<Rightarrow>
     hp_errno q' = HPE_OK \<and> hp_state q' = s_header_value_start \<and>
     (hp_header_state q' = h_connection \<longleftrightarrow>
        List.map TOKEN ''Upgrade'' = ''connection'' \<or> List.map TOKEN ''Upgrade'' = ''proxy-connection'') \<and>
     (hp_header_state q' = h_content_length \<longleftrightarrow> List.map TOKEN ''Upgrade'' = ''content-length'') \<and>
     (hp_header_state q' = h_transfer_encoding \<longleftrightarrow> List.map TOKEN ''Upgrade'' = ''transfer-encoding'') \<and>
     (hp_header_state q' = h_upgrade \<longleftrightarrow> List.map TOKEN ''Upgrade'' = ''upgrade'')"
proof (rule header_name_recognised[OF before_header_ok])
  show "\<forall>ch \<in> set ''Upgrade''. TOKEN ch \<noteq> NUL" by code_simp
qed (simp_all add: before_header_def http_parser_init_def HTTP_MAX_HEADER_SIZE_def)

text \<open>
  C14 The number in a \<open>Content-Length\<close>: after the digits the parser holds the number that they denote, if
  it is at most 18446744073709551609, and reports \<open>HPE_INVALID_CONTENT_LENGTH\<close> otherwise. The sum never
  wraps; the six numbers above that limit which would still fit in 64 bits are refused.
\<close>

theorem content_length_exact:
  assumes "in_header q" "hp_state q = s_header_value_start" "hp_header_state q = h_content_length"
    "ds \<noteq> []" "\<forall>ch \<in> set ds. IS_NUM ch" "unat (hp_nread q) + length ds \<le> unat HTTP_MAX_HEADER_SIZE"
  shows "case fst (http_parser_execute (recorder hc ds) q u ds) of q' \<Rightarrow>
     if dec_val ds \<le> 18446744073709551609
     then hp_errno q' = HPE_OK \<and> hp_state q' = s_header_value \<and> unat (hp_content_length q') = dec_val ds
     else hp_errno q' = HPE_INVALID_CONTENT_LENGTH"
  using length_of_stream[OF assms, of hc u] execute_parser[OF assms(1,4), of hc u]
  by (simp del: feed.simps add: content_length_limit_def)

definition before_length :: http_parser where
  "before_length = before_header\<lparr>hp_state := s_header_value_start, hp_header_state := h_content_length\<rparr>"

lemma before_length_ok: "in_header before_length"
  unfolding in_header_def before_length_def before_header_def
  by (simp add: wf_defs http_parser_init_def PARSING_HEADER_def less_eq_state_def HTTP_MAX_HEADER_SIZE_def
      chunk_states_def)

theorem content_length_exact_witness:
  "case fst (http_parser_execute (recorder (\<lambda>_. 0) ''1024'') before_length [] ''1024'') of q' \<Rightarrow>
     if dec_val ''1024'' \<le> 18446744073709551609
     then hp_errno q' = HPE_OK \<and> hp_state q' = s_header_value \<and> unat (hp_content_length q') = dec_val ''1024''
     else hp_errno q' = HPE_INVALID_CONTENT_LENGTH"
proof (rule content_length_exact[OF before_length_ok])
  show "\<forall>ch \<in> set ''1024''. IS_NUM ch" by code_simp
qed (simp_all add: before_length_def before_header_def http_parser_init_def HTTP_MAX_HEADER_SIZE_def)

end
