(* ===== verification/Http_Roundtrip.thy ===== *)
theory Http_Roundtrip
  imports Http_Request
begin

text \<open>
  Printing a request and parsing it back. The phases of a request (method, URL, version, headers, end) are
  followed one by one with the exact reports of the parser.
\<close>

section \<open>Parsing a piece without an error\<close>

definition goes ::
  "(http_parser \<Rightarrow> int) \<Rightarrow> string \<Rightarrow> http_parser \<Rightarrow> event list \<Rightarrow> http_parser \<Rightarrow> event list \<Rightarrow> bool" where
  "goes hc w q u q' u' \<longleftrightarrow> feed hc q u w = (q', u', Parsed (length w)) \<and> hp_errno q' = HPE_OK
     \<and> \<not> hp_upgrade q' \<and> wf_parser q'"

lemma goes_Nil: "wf_parser q \<Longrightarrow> hp_errno q = HPE_OK \<Longrightarrow> \<not> hp_upgrade q \<Longrightarrow> goes hc [] q u q u"
  by (simp add: goes_def)

lemma goes_append: "goes hc v q u q1 u1 \<Longrightarrow> goes hc w q1 u1 q2 u2 \<Longrightarrow> goes hc (v @ w) q u q2 u2"
  by (auto simp: goes_def feed_append count_ones)

lemma goes_Cons: "goes hc [ch] q u q1 u1 \<Longrightarrow> goes hc w q1 u1 q2 u2 \<Longrightarrow> goes hc (ch # w) q u q2 u2"
  using goes_append[of hc "[ch]" q u q1 u1 w q2 u2] by simp

lemma run_byte_next:
  "dispatch S len ch c = (c', Next) \<Longrightarrow> run_byte (Suc n) S len ch c = (c', Next)"
  by simp

lemma run_byte_again:
  "dispatch S len ch c = (c', Reexecute) \<Longrightarrow> run_byte (Suc n) S len ch c = run_byte n S len ch c'"
  by simp

lemma goes_run:
  assumes "wf_parser q" "hp_errno q = HPE_OK" "\<not> hp_upgrade q" "\<not> header_overflow (enter q u)"
    "run_byte 5 (recorder hc [ch]) 1 ch (count_byte (enter q u)) = (c', Next)" "\<not> hp_upgrade (parser c')"
  shows "goes hc [ch] q u (parser c') (flushed [ch] (c'\<lparr>pos := 1\<rparr>))"
proof -
  let ?S = "recorder hc [ch]" and ?c = "enter q u"
  have "fine 0 ?c" using enter_ok[where Q = "\<lambda>_. True"] assms(1,2) by simp
  note f1 = recorder.count_byte_ok[OF this assms(4)]
  have pc: "pos (count_byte ?c) = 0" by (simp add: enter_def)
  have r: "run_byte reexecute_bound ?S 1 ch (count_byte ?c) = (c', Next)"
    using assms(5) by (simp add: reexecute_bound_def)
  have "step_ok 1 (\<lambda>_. True) 0 (run_byte reexecute_bound ?S 1 ch (count_byte ?c))"
    using pc by (intro recorder.run_byte_ok[OF f1 _ reexec_rank_bound]) simp
  with r have f: "fine 0 c'" by simp
  have p: "pos c' = 0" using run_byte_pos[OF r] pc by simp
  then have "exec_loop ?S [ch] ?c = exec_loop ?S [ch] (c'\<lparr>pos := 1\<rparr>)"
    using exec_loop_round[of ?c "[ch]" ?S] assms(4) r by (simp add: continue_simps) (simp add: enter_def)
  also have "\<dots> = (parser c', flushed [ch] (c'\<lparr>pos := 1\<rparr>), Parsed 1)"
    using ctx_ok_advance[OF f] p by (simp add: exec_loop_end after_loop_recorder)
  finally show ?thesis
    using assms(2,6) f by (simp add: http_parser_execute_def goes_def ctx_ok_def)
qed

lemma goes_byte:
  assumes "in_header q" "run_byte 5 (recorder hc [ch]) 1 ch (enter (counted q) u) = (c', Next)"
    "\<not> hp_upgrade (parser c')"
  shows "goes hc [ch] q u (parser c') (flushed [ch] (c'\<lparr>pos := 1\<rparr>))"
  using assms in_headerD[OF assms(1), of u] by (intro goes_run) (simp_all add: in_header_def)

section \<open>Where the parser stands\<close>

text \<open>What the request has said so far about its version and the length of its body.\<close>

type_synonym told = "16 word \<times> 16 word \<times> 64 word"

definition told :: "http_parser \<Rightarrow> told" where
  "told q = (hp_http_major q, hp_http_minor q, hp_content_length q)"

lemma told_simps [simp]:
  "told (counted q) = told q" "told (q\<lparr>hp_state := s\<rparr>) = told q" "told (q\<lparr>hp_index := i\<rparr>) = told q"
  "told (q\<lparr>hp_header_state := h\<rparr>) = told q" "told (q\<lparr>hp_method := m\<rparr>) = told q"
  by (simp_all add: told_def counted_def)

definition stands :: "state \<Rightarrow> http_method \<Rightarrow> told \<Rightarrow> nat \<Rightarrow> http_parser \<Rightarrow> bool" where
  "stands s m v n q \<longleftrightarrow> wf_parser q \<and> hp_errno q = HPE_OK \<and> \<not> hp_upgrade q \<and> hp_state q = s
     \<and> hp_type q = HTTP_REQUEST \<and> hp_flags q = 0 \<and> told q = v \<and> hp_method q = m
     \<and> unat (hp_nread q) = n"

lemma stands_in_header:
  "stands s m v n q \<Longrightarrow> PARSING_HEADER s \<Longrightarrow> n < unat HTTP_MAX_HEADER_SIZE \<Longrightarrow> in_header q"
  by (simp add: stands_def in_header_def)

text \<open>A byte that does not change the flags.\<close>

definition kept :: "http_parser \<Rightarrow> http_parser \<Rightarrow> bool" where
  "kept q q' \<longleftrightarrow> hp_type q' = hp_type q \<and> hp_flags q' = hp_flags q \<and>
     hp_upgrade q' = hp_upgrade q \<and> hp_nread q' = hp_nread q"

lemma goes_stands:
  assumes "stands s m v n q" "PARSING_HEADER s" "n < unat HTTP_MAX_HEADER_SIZE"
    "run_byte 5 (recorder hc [ch]) 1 ch (enter (counted q) u) = (c', Next)"
    "kept (counted q) (parser c')" "hp_state (parser c') = s'" "hp_method (parser c') = m'" "told (parser c') = v'"
  shows "goes hc [ch] q u (parser c') (flushed [ch] (c'\<lparr>pos := 1\<rparr>)) \<and> stands s' m' v' (n + 1) (parser c')"
proof -
  have u: "\<not> hp_upgrade (parser c')" using assms(1,5) by (simp add: stands_def kept_def)
  have g: "goes hc [ch] q u (parser c') (flushed [ch] (c'\<lparr>pos := 1\<rparr>))"
    by (rule goes_byte[OF stands_in_header[OF assms(1-3)] assms(4) u])
  have "unat (hp_nread (counted q)) = n + 1"
    using unat_counted[of q] assms(1,3) by (simp add: stands_def)
  with g assms(1,5-8) show ?thesis
    by (simp add: stands_def goes_def kept_def) (simp add: counted_def)
qed

lemma goes_stands_next:
  assumes "stands s m v n q" "PARSING_HEADER s" "n < unat HTTP_MAX_HEADER_SIZE"
    "dispatch (recorder hc [ch]) 1 ch (enter (counted q) u) = (c', Next)"
    "kept (counted q) (parser c')" "hp_state (parser c') = s'" "hp_method (parser c') = m'" "told (parser c') = v'"
  shows "goes hc [ch] q u (parser c') (flushed [ch] (c'\<lparr>pos := 1\<rparr>)) \<and> stands s' m' v' (n + 1) (parser c')"
  using run_byte_next[OF assms(4), of 4] by (intro goes_stands[OF assms(1-3) _ assms(5-8)]) simp

lemma counted_kept [simp]: "kept q q"
  by (simp add: kept_def)

section \<open>The request line\<close>

text \<open>The first letter of a method.\<close>

lemma goes_start:
  assumes "initial_method ch = Some m" "ch \<noteq> CR" "ch \<noteq> LF"
  shows "\<exists>q. goes hc [ch] (http_parser_init HTTP_REQUEST) u q (u @ [Message_begin]) \<and>
     stands s_req_method m (0, 0, ULLONG_MAX) 1 q \<and> unat (hp_index q) = 1"
proof -
  let ?q = "http_parser_init HTTP_REQUEST"
  let ?c = "enter (counted ?q) u"
  let ?d = "(upd_parser (\<lambda>q. q\<lparr>hp_flags := 0, hp_content_length := ULLONG_MAX, hp_index := 1,
      hp_method := m, hp_state := s_req_method\<rparr>) ?c)\<lparr>udata := u @ [Message_begin]\<rparr>"
  have s: "hp_state (counted ?q) = s_start_req" "hp_errno (counted ?q) = HPE_OK" "\<not> hp_upgrade (counted ?q)"
      "unat (hp_nread (counted ?q)) = 1" "hp_type (counted ?q) = HTTP_REQUEST"
      "hp_http_major (counted ?q) = 0" "hp_http_minor (counted ?q) = 0"
    by (simp_all add: http_parser_init_def counted_def)
  have e: "udata ?c = u" by (simp add: enter_def)
  have "dispatch (recorder hc [ch]) 1 ch ?c = (?d, Next)"
    using assms s(1,2) initial_method_first[OF assms(1)] e
    by (simp add: dispatch_def do_start_req_def Let_def recorder_notify)
  from goes_byte[OF init_in_header _ , of hc ch HTTP_REQUEST u ?d] run_byte_next[OF this, of 4] s(3)
  have g: "goes hc [ch] ?q u (parser ?d) (flushed [ch] (?d\<lparr>pos := 1\<rparr>))" by simp
  moreover have "flushed [ch] (?d\<lparr>pos := 1\<rparr>) = u @ [Message_begin]"
    using s(1) by (simp add: flushed_def enter_def url_states_def)
  moreover have "stands s_req_method m (0, 0, ULLONG_MAX) 1 (parser ?d)" "unat (hp_index (parser ?d)) = 1"
    using g s(3-7) by (simp_all add: stands_def goes_def told_def)
  ultimately show ?thesis by metis
qed

lemma enter_unmarked:
  assumes "hp_state q \<notin> url_states \<union> {s_header_field, s_header_value, s_res_status}"
  shows "no_marks (enter q u)" "pos (enter q u) = 0" "udata (enter q u) = u"
  using assms by (simp_all add: no_marks_def enter_def)

lemma flushed_unmarked:
  "no_marks c \<Longrightarrow> flushed data c = udata c"
  by (simp add: no_marks_def flushed_def)

lemma PARSING_HEADER_states:
  "PARSING_HEADER s_req_method" "PARSING_HEADER s_req_spaces_before_url" "PARSING_HEADER s_req_path"
  "PARSING_HEADER s_req_query_string_start" "PARSING_HEADER s_req_query_string"
  "PARSING_HEADER s_req_fragment_start" "PARSING_HEADER s_req_fragment" "PARSING_HEADER s_req_http_start"
  "PARSING_HEADER s_req_http_H" "PARSING_HEADER s_req_http_HT" "PARSING_HEADER s_req_http_HTT"
  "PARSING_HEADER s_req_http_HTTP" "PARSING_HEADER s_req_first_http_major" "PARSING_HEADER s_req_http_major"
  "PARSING_HEADER s_req_first_http_minor" "PARSING_HEADER s_req_http_minor"
  "PARSING_HEADER s_req_line_almost_done" "PARSING_HEADER s_header_field_start" "PARSING_HEADER s_header_field"
  "PARSING_HEADER s_header_value_start" "PARSING_HEADER s_header_value" "PARSING_HEADER s_header_almost_done"
  "PARSING_HEADER s_header_value_lws" "PARSING_HEADER s_headers_almost_done"
  by (simp_all add: PARSING_HEADER_def less_eq_state_def)

lemma goes_method:
  assumes "stands s_req_method m t n q" "unat (hp_index q) = n" "n \<le> length (method_strings m)"
    "method_run m n v = Some m'" "CHR '' '' \<notin> set v" "n + length v < unat HTTP_MAX_HEADER_SIZE"
  shows "\<exists>q'. goes hc v q u q' u \<and> stands s_req_method m' t (n + length v) q' \<and> unat (hp_index q') = n + length v"
  using assms
proof (induction v arbitrary: m n q)
  case Nil
  then show ?case using goes_Nil by (auto simp: stands_def)
next
  case (Cons ch v)
  let ?c = "enter (counted q) u"
  obtain m1 where m1: "next_method m n ch = Some m1" "method_run m1 (n + 1) v = Some m'"
    using Cons.prems(4) by (auto split: option.splits)
  have q: "hp_state q = s_req_method" "hp_method q = m" "told q = t" using Cons.prems(1) by (simp_all add: stands_def)
  have i: "of_nat n = hp_index q" by (simp flip: Cons.prems(2))
  obtain e where e: "c_str_at (method_strings m) n = Some e" using c_str_at_Some[OF Cons.prems(3)] by blast
  let ?d = "set_index (hp_index q + 1) (upd_parser (\<lambda>q. q\<lparr>hp_method := m1\<rparr>) ?c)"
  have "dispatch (recorder hc [ch]) 1 ch ?c = (?d, Next)"
    using q Cons.prems(2,5) m1(1) e i
    by (auto simp: dispatch_def do_req_method_def Let_def next_method_def set_index_def split: if_splits)
  from goes_stands_next[OF Cons.prems(1) PARSING_HEADER_states(1) _ this] q Cons.prems(6)
  have g: "goes hc [ch] q u (parser ?d) (flushed [ch] (?d\<lparr>pos := 1\<rparr>))" "stands s_req_method m1 t (n + 1) (parser ?d)"
    by (auto simp: set_index_def kept_def)
  have f: "flushed [ch] (?d\<lparr>pos := 1\<rparr>) = u"
    using q(1) by (simp add: flushed_def enter_def set_index_def url_states_def)
  have i': "unat (hp_index (parser ?d)) = n + 1"
    using Cons.prems(2,3) method_strings_short[of m] by (simp add: set_index_def unat_word_ariths)
  have l: "n + 1 \<le> length (method_strings m1)" using next_method_prefix(2)[OF m1(1) Cons.prems(3)] by simp
  obtain q' where "goes hc v (parser ?d) u q' u" "stands s_req_method m' t (n + 1 + length v) q'"
      "unat (hp_index q') = n + 1 + length v"
    using Cons.IH[OF g(2) i' l m1(2)] Cons.prems(5,6) by auto
  with goes_Cons[OF g(1)[unfolded f]] show ?case by auto
qed

text \<open>A byte outside every item that is being reported.\<close>

definition unmarked_states :: "state set" where
  "unmarked_states = - (url_states \<union> {s_header_field, s_header_value, s_res_status})"

lemma goes_quiet:
  assumes "stands s m v n q" "PARSING_HEADER s" "n < unat HTTP_MAX_HEADER_SIZE" "s \<in> unmarked_states"
    "dispatch (recorder hc [ch]) 1 ch (enter (counted q) u) = ((enter (counted q) u)\<lparr>parser := q'\<rparr>, Next)"
    "kept (counted q) q'" "hp_state q' = s'" "hp_method q' = m" "told q' = v'"
  shows "goes hc [ch] q u q' u \<and> stands s' m v' (n + 1) q'"
proof -
  let ?d = "(enter (counted q) u)\<lparr>parser := q'\<rparr>"
  have "hp_state (counted q) \<notin> url_states \<union> {s_header_field, s_header_value, s_res_status}"
    using assms(1,4) by (simp add: stands_def unmarked_states_def)
  then have "no_marks (?d\<lparr>pos := 1\<rparr>)" "udata ?d = u"
    using enter_unmarked[of "counted q" u] by (simp_all add: no_marks_def)
  then have "flushed [ch] (?d\<lparr>pos := 1\<rparr>) = u" by (simp add: flushed_unmarked)
  with goes_stands_next[OF assms(1-3,5)] assms(6-9) show ?thesis by simp
qed

lemmas unmarked_simps = unmarked_states_def url_states_def

lemma goes_method_line:
  "\<exists>q. goes hc (method_strings m @ '' '') (http_parser_init HTTP_REQUEST) u q (u @ [Message_begin]) \<and>
     stands s_req_spaces_before_url m (0, 0, ULLONG_MAX) (length (method_strings m) + 1) q"
proof -
  obtain ch v where w: "method_strings m = ch # v" using method_nonempty[of m] by (cases "method_strings m") auto
  obtain m0 where m0: "initial_method ch = Some m0" "method_run m0 1 v = Some m"
    using method_run_of[OF w] by blast
  have len: "length v \<le> 10" using method_strings_short[of m] w by simp
  have nosp: "CHR '' '' \<notin> set v" using no_space_in_method[of m] w by simp
  have "ch \<noteq> CR" "ch \<noteq> LF" using m0(1) by (auto simp: initial_method_def CR_def LF_def)
  then obtain q1 where q1: "goes hc [ch] (http_parser_init HTTP_REQUEST) u q1 (u @ [Message_begin])"
      "stands s_req_method m0 (0, 0, ULLONG_MAX) 1 q1" "unat (hp_index q1) = 1"
    using goes_start[OF m0(1)] by blast
  have "1 + length v < unat HTTP_MAX_HEADER_SIZE" using len by (simp add: HTTP_MAX_HEADER_SIZE_def)
  then obtain q2 where q2: "goes hc v q1 (u @ [Message_begin]) q2 (u @ [Message_begin])"
      "stands s_req_method m (0, 0, ULLONG_MAX) (1 + length v) q2" "unat (hp_index q2) = 1 + length v"
    using goes_method[OF q1(2,3) _ m0(2) nosp] initial_method_length[OF m0(1)] by fastforce
  let ?c = "enter (counted q2) (u @ [Message_begin])"
  let ?q3 = "(counted q2)\<lparr>hp_state := s_req_spaces_before_url, hp_index := hp_index q2 + 1\<rparr>"
  have "dispatch (recorder hc '' '') 1 (CHR '' '') ?c = (?c\<lparr>parser := ?q3\<rparr>, Next)"
    using q2(2,3) w by (simp add: stands_def dispatch_def do_req_method_def Let_def c_str_at_def NUL_def
        set_index_def set_state_def)
  moreover have "1 + length v < unat HTTP_MAX_HEADER_SIZE" using len by (simp add: HTTP_MAX_HEADER_SIZE_def)
  ultimately have "goes hc '' '' q2 (u @ [Message_begin]) ?q3 (u @ [Message_begin]) \<and>
      stands s_req_spaces_before_url m (0, 0, ULLONG_MAX) (1 + length v + 1) ?q3"
    using q2(2) by (intro goes_quiet[OF q2(2) PARSING_HEADER_states(1)])
      (simp_all add: unmarked_simps kept_def stands_def)
  then show ?thesis
    using goes_append[OF goes_Cons[OF q1(1) q2(1)]] w by auto
qed

subsection \<open>The URL\<close>

definition origin_states :: "state set" where
  "origin_states = {s_req_path, s_req_query_string_start, s_req_query_string, s_req_fragment_start,
     s_req_fragment}"

definition url_char :: "char \<Rightarrow> bool" where
  "url_char ch \<longleftrightarrow> IS_URL_CHAR ch \<or> ch = CHR ''?'' \<or> ch = CHR ''#''"

lemma url_char_plain:
  assumes "url_char ch"
  shows "ch \<noteq> CHR '' ''" "ch \<noteq> CR" "ch \<noteq> LF" "ch \<noteq> HT" "ch \<noteq> FF"
proof -
  have "\<not> url_char (CHR '' '')" "\<not> url_char CR" "\<not> url_char LF" "\<not> url_char HT" "\<not> url_char FF"
    by (simp_all add: url_char_def IS_URL_CHAR_def BIT_AT_def normal_url_char_def byte_val_def CR_def LF_def
        HT_def FF_def)
  with assms show "ch \<noteq> CHR '' ''" "ch \<noteq> CR" "ch \<noteq> LF" "ch \<noteq> HT" "ch \<noteq> FF" by metis+
qed

lemma url_char_origin:
  assumes "s \<in> origin_states" "url_char ch"
  shows "parse_url_char s ch \<in> origin_states"
proof -
  have c: "parse_url_char s_req_path ch \<in> origin_states"
      "parse_url_char s_req_query_string_start ch \<in> origin_states"
      "parse_url_char s_req_query_string ch \<in> origin_states"
      "parse_url_char s_req_fragment_start ch \<in> origin_states"
      "parse_url_char s_req_fragment ch \<in> origin_states"
    using url_char_plain[OF assms(2)] assms(2)
    by (auto simp: parse_url_char_def url_char_def origin_states_def)
  from assms(1) show ?thesis
    using c by (auto simp only: origin_states_def insert_iff empty_iff)
qed

lemma origin_url: "s \<in> origin_states \<Longrightarrow> s \<in> url_states \<and> s \<noteq> s_dead \<and> PARSING_HEADER s"
  by (auto simp: origin_states_def url_states_def PARSING_HEADER_states)

lemma dispatch_origin:
  "hp_state (parser c) \<in> origin_states \<Longrightarrow> dispatch S len ch c = do_req_url S ch c"
  by (auto simp: origin_states_def dispatch_def)

lemma flushed_url:
  assumes "s \<in> url_states" "hp_state q = s"
  shows "flushed [ch] ((enter q u)\<lparr>parser := q', pos := 1\<rparr>) = u @ [Byte Url ch]"
  using assms url_state_facts[OF assms(1)] by (simp add: flushed_def enter_def pending_def span_def)

lemma goes_url:
  assumes "stands s m t n q" "s \<in> origin_states" "\<forall>ch \<in> set v. url_char ch"
    "n + length v < unat HTTP_MAX_HEADER_SIZE"
  shows "\<exists>q' s'. goes hc v q u q' (u @ List.map (Byte Url) v) \<and> s' \<in> origin_states \<and>
     stands s' m t (n + length v) q'"
  using assms
proof (induction v arbitrary: s n q u)
  case Nil
  then show ?case using goes_Nil by (auto simp: stands_def)
next
  case (Cons ch v)
  let ?c = "enter (counted q) u" and ?s = "parse_url_char s ch"
  have ch: "url_char ch" "?s \<in> origin_states"
    using Cons.prems(2,3) url_char_origin[OF Cons.prems(2)] by simp_all
  note o = origin_url[OF Cons.prems(2)] origin_url[OF ch(2)]
  have q: "hp_state (counted q) = s" "hp_method (counted q) = m" "told q = t" using Cons.prems(1) by (simp_all add: stands_def)
  let ?q = "(counted q)\<lparr>hp_state := ?s\<rparr>"
  have "dispatch (recorder hc [ch]) 1 ch ?c = (?c\<lparr>parser := ?q\<rparr>, Next)"
    using q Cons.prems(2) url_char_plain[OF ch(1)] o(2)
    by (simp add: dispatch_origin do_req_url_def url_step_def set_state_def Let_def)
  from goes_stands_next[OF Cons.prems(1) _ _ this] o(1) Cons.prems(4) q(2,3)
  have g: "goes hc [ch] q u ?q (flushed [ch] (?c\<lparr>parser := ?q, pos := 1\<rparr>))" "stands ?s m t (n + 1) ?q"
    by (simp_all add: kept_def)
  have f: "flushed [ch] (?c\<lparr>parser := ?q, pos := 1\<rparr>) = u @ [Byte Url ch]"
    using o(1) q(1) by (intro flushed_url) auto
  obtain q' s' where "goes hc v ?q (u @ [Byte Url ch]) q' ((u @ [Byte Url ch]) @ List.map (Byte Url) v)"
      "s' \<in> origin_states" "stands s' m t (n + 1 + length v) q'"
    using Cons.IH[OF g(2) ch(2), of "u @ [Byte Url ch]"] Cons.prems(3,4) by auto
  with goes_Cons[OF g(1)[unfolded f]] show ?case by (auto intro!: exI)
qed

lemma goes_url_start:
  assumes "stands s_req_spaces_before_url m v n q" "m \<noteq> HTTP_CONNECT" "n < unat HTTP_MAX_HEADER_SIZE"
  shows "\<exists>q'. goes hc ''/'' q u q' (u @ [Byte Url (CHR ''/'')]) \<and> stands s_req_path m v (n + 1) q'"
proof -
  let ?c = "enter (counted q) u"
  have q: "hp_state (counted q) = s_req_spaces_before_url" "hp_method (counted q) = m" "told q = v"
    using assms(1) by (simp_all add: stands_def)
  note e = enter_unmarked[of "counted q" u, unfolded q(1), simplified url_states_def, simplified]
  let ?d = "set_state s_req_path (?c\<lparr>url_mark := Some 0\<rparr>)"
  have "parse_url_char s_req_spaces_before_url (CHR ''/'') = s_req_path" by code_simp
  then have "dispatch (recorder hc ''/'') 1 (CHR ''/'') ?c = (?d, Next)"
    using q assms(2) e by (simp add: dispatch_def do_req_spaces_before_url_def url_step_def MARK_def
        set_state_def Let_def no_marks_def)
  from goes_stands_next[OF assms(1) PARSING_HEADER_states(2) assms(3) this] q(2,3)
  have "goes hc ''/'' q u (parser ?d) (flushed ''/'' (?d\<lparr>pos := 1\<rparr>)) \<and> stands s_req_path m v (n + 1) (parser ?d)"
    by (simp add: kept_def set_state_def)
  moreover have "flushed ''/'' (?d\<lparr>pos := 1\<rparr>) = u @ [Byte Url (CHR ''/'')]"
    using e by (simp add: flushed_def set_state_def no_marks_def pending_def span_def)
  ultimately show ?thesis by auto
qed

lemma goes_url_end:
  assumes "stands s m v n q" "s \<in> origin_states" "n < unat HTTP_MAX_HEADER_SIZE"
  shows "\<exists>q'. goes hc '' '' q u q' u \<and> stands s_req_http_start m v (n + 1) q'"
proof -
  let ?c = "enter (counted q) u"
  note o = origin_url[OF assms(2)]
  have q: "hp_state (counted q) = s" "hp_method (counted q) = m" "told q = v" "hp_errno (counted q) = HPE_OK"
    using assms(1) by (simp_all add: stands_def counted_def)
  let ?d = "(set_state s_req_http_start ?c)\<lparr>url_mark := None\<rparr>"
  have e: "header_field_mark ?c = None" "header_value_mark ?c = None" "body_mark ?c = None"
      "status_mark ?c = None" "url_mark ?c = Some 0" "pos ?c = 0" "udata ?c = u"
    using q(1) o url_state_facts[of s] by (simp_all add: enter_def)
  have "dispatch (recorder hc '' '') 1 (CHR '' '') ?c = (?d, Next)"
    using q assms(2) e by (simp add: dispatch_origin do_req_url_def recorder_data set_state_def)
  from goes_stands_next[OF assms(1) _ assms(3) this] o q(2,3)
  have "goes hc '' '' q u (parser ?d) (flushed '' '' (?d\<lparr>pos := 1\<rparr>)) \<and> stands s_req_http_start m v (n + 1) (parser ?d)"
    by (simp add: kept_def set_state_def)
  moreover have "flushed '' '' (?d\<lparr>pos := 1\<rparr>) = u"
    using e by (simp add: flushed_def set_state_def)
  ultimately show ?thesis by auto
qed

subsection \<open>The version\<close>

text \<open>Bytes that are not reported and lead from one state to another; \<open>g\<close> says how they change what is told.\<close>

definition silent ::
  "(http_parser \<Rightarrow> int) \<Rightarrow> string \<Rightarrow> state \<Rightarrow> state \<Rightarrow> (told \<Rightarrow> told) \<Rightarrow> bool" where
  "silent hc w s s' g \<longleftrightarrow> (\<forall>q u m v n. stands s m v n q \<longrightarrow> n + length w \<le> unat HTTP_MAX_HEADER_SIZE \<longrightarrow>
     (\<exists>q'. goes hc w q u q' u \<and> stands s' m (g v) (n + length w) q'))"

lemma silentD:
  assumes "silent hc w s s' g" "stands s m v n q" "n + length w \<le> unat HTTP_MAX_HEADER_SIZE"
  shows "\<exists>q'. goes hc w q u q' u \<and> stands s' m (g v) (n + length w) q'"
  using assms unfolding silent_def by blast

lemma silent_Cons:
  assumes "silent hc [ch] s s1 g" "silent hc w s1 s2 h"
  shows "silent hc (ch # w) s s2 (h \<circ> g)"
  unfolding silent_def
proof (intro allI impI)
  fix q u m v n
  assume q: "stands s m v n q" "n + length (ch # w) \<le> unat HTTP_MAX_HEADER_SIZE"
  then obtain q1 where q1: "goes hc [ch] q u q1 u" "stands s1 m (g v) (n + 1) q1"
    using silentD[OF assms(1) q(1)] by auto
  then obtain q2 where "goes hc w q1 u q2 u" "stands s2 m (h (g v)) (n + 1 + length w) q2"
    using silentD[OF assms(2) q1(2)] q(2) by auto
  with goes_Cons[OF q1(1)] show "\<exists>q'. goes hc (ch # w) q u q' u \<and> stands s2 m ((h \<circ> g) v) (n + length (ch # w)) q'"
    by auto
qed

lemma silent_byte:
  assumes "\<And>c :: event list exec_ctx. hp_state (parser c) = s \<Longrightarrow>
      dispatch (recorder hc [ch]) 1 ch c = (upd_parser f c, Next)"
    and "PARSING_HEADER s" "s \<in> unmarked_states"
    and "\<And>q. kept q (f q) \<and> hp_state (f q) = s' \<and> hp_method (f q) = hp_method q \<and> told (f q) = g (told q)"
  shows "silent hc [ch] s s' g"
  unfolding silent_def
proof (intro allI impI)
  fix q u m v n
  assume q: "stands s m v n q" "n + length [ch] \<le> unat HTTP_MAX_HEADER_SIZE"
  have c: "hp_state (counted q) = s" "hp_method (counted q) = m" "told (counted q) = v" "n < unat HTTP_MAX_HEADER_SIZE"
    using q by (simp_all add: stands_def)
  have "dispatch (recorder hc [ch]) 1 ch (enter (counted q) u) =
      ((enter (counted q) u)\<lparr>parser := f (counted q)\<rparr>, Next)"
    using assms(1)[of "enter (counted q) u"] c(1) by simp
  then have "goes hc [ch] q u (f (counted q)) u \<and> stands s' m (g v) (n + 1) (f (counted q))"
    using assms(4)[of "counted q"] c by (intro goes_quiet[OF q(1) assms(2) c(4) assms(3)]) simp_all
  then show "\<exists>q'. goes hc [ch] q u q' u \<and> stands s' m (g v) (n + length [ch]) q'" by auto
qed

lemmas silent_simps = dispatch_def handler_defs STRICT_CHECK_def Let_def set_state_def kept_def told_def unmarked_simps
  PARSING_HEADER_states digit_val_def byte_val_def IS_NUM_def less_eq_char_def less_char_def CR_def LF_def

lemma silent_literals:
  "silent hc ''H'' s_req_http_start s_req_http_H id" "silent hc ''T'' s_req_http_H s_req_http_HT id"
  "silent hc ''T'' s_req_http_HT s_req_http_HTT id" "silent hc ''P'' s_req_http_HTT s_req_http_HTTP id"
  "silent hc ''/'' s_req_http_HTTP s_req_first_http_major id"
  by (rule silent_byte[where f = "\<lambda>q. q\<lparr>hp_state := _\<rparr>"]; simp add: silent_simps)+

lemma silent_major: "silent hc ''1'' s_req_first_http_major s_req_http_major (\<lambda>(a, b, c). (1, b, c))"
  by (rule silent_byte[where f = "\<lambda>q. q\<lparr>hp_http_major := 1, hp_state := s_req_http_major\<rparr>"]; simp add: silent_simps)

lemma silent_dot: "silent hc ''.'' s_req_http_major s_req_first_http_minor id"
  by (rule silent_byte[where f = "\<lambda>q. q\<lparr>hp_state := s_req_first_http_minor\<rparr>"]; simp add: silent_simps)

lemma silent_minor: "silent hc ''1'' s_req_first_http_minor s_req_http_minor (\<lambda>(a, b, c). (a, 1, c))"
  by (rule silent_byte[where f = "\<lambda>q. q\<lparr>hp_http_minor := 1, hp_state := s_req_http_minor\<rparr>"]; simp add: silent_simps)

lemma silent_line_end:
  "silent hc [CR] s_req_http_minor s_req_line_almost_done id"
  "silent hc [LF] s_req_line_almost_done s_header_field_start id"
  by (rule silent_byte[where f = "\<lambda>q. q\<lparr>hp_state := _\<rparr>"]; simp add: silent_simps)+

definition HTTP_1_1 :: string where "HTTP_1_1 = ''HTTP/1.1'' @ [CR, LF]"

lemma goes_version:
  assumes "stands s_req_http_start m v n q" "n + 10 \<le> unat HTTP_MAX_HEADER_SIZE"
  shows "\<exists>q'. goes hc HTTP_1_1 q u q' u \<and> stands s_header_field_start m (1, 1, snd (snd v)) (n + 10) q'"
proof -
  note chain = silent_literals silent_major silent_dot silent_minor silent_line_end
  have "silent hc HTTP_1_1 s_req_http_start s_header_field_start
      (id \<circ> id \<circ> (\<lambda>(a, b, c). (a, 1, c)) \<circ> id \<circ> (\<lambda>(a, b, c). (1, b, c)) \<circ> id \<circ> id \<circ> id \<circ> id \<circ> id)"
    unfolding HTTP_1_1_def by (simp only: append.simps, (rule silent_Cons chain)+)
  from silentD[OF this assms(1), of u] assms(2) show ?thesis
    by (cases v) (simp add: HTTP_1_1_def eval_nat_numeral)
qed

section \<open>The headers\<close>

text \<open>A header begins after the request line or after the line of another header.\<close>

definition line_states :: "state set" where
  "line_states = {s_header_field_start, s_header_value_lws}"

lemma set_state_same: "hp_state (parser c) = s \<Longrightarrow> set_state s c = c"
  by (cases c) (simp add: set_state_def)

lemma run_byte_line:
  assumes "hp_state (parser c) \<in> line_states" "ch \<noteq> CHR '' ''" "ch \<noteq> HT"
    "dispatch S len ch (set_state s_header_field_start c) = (c', Next)"
  shows "run_byte 5 S len ch c = (c', Next)"
proof -
  consider "hp_state (parser c) = s_header_field_start" | "hp_state (parser c) = s_header_value_lws"
    using assms(1) by (auto simp: line_states_def)
  then show ?thesis
  proof cases
    case 1
    with assms(4) have "dispatch S len ch c = (c', Next)" by (simp add: set_state_same)
    from run_byte_next[OF this, of 4] show ?thesis by simp
  next
    case 2
    with assms(2,3) have "dispatch S len ch c = (set_state s_header_field_start c, Reexecute)"
      by (simp add: dispatch_def do_header_value_lws_def)
    from run_byte_again[OF this, of 4] run_byte_next[OF assms(4), of 3] show ?thesis
      by (simp add: eval_nat_numeral)
  qed
qed

lemma line_state: "s \<in> line_states \<Longrightarrow> PARSING_HEADER s \<and> s \<in> unmarked_states"
  by (auto simp: line_states_def PARSING_HEADER_states unmarked_simps)

subsection \<open>Names\<close>

definition in_name :: "string \<Rightarrow> http_parser \<Rightarrow> bool" where
  "in_name t q \<longleftrightarrow> t \<noteq> [] \<and> hp_header_state q = name_state t
     \<and> (following t \<longrightarrow> hp_index q = of_nat (length t - 1))"

lemma token_plain:
  assumes "TOKEN ch \<noteq> NUL"
  shows "ch \<noteq> CHR '' ''" "ch \<noteq> HT" "ch \<noteq> CR" "ch \<noteq> LF" "ch \<noteq> CHR '':''"
proof -
  have "TOKEN HT = NUL" by code_simp
  with assms TOKEN_space show "ch \<noteq> CHR '' ''" "ch \<noteq> HT" "ch \<noteq> CR" "ch \<noteq> LF" "ch \<noteq> CHR '':''" by metis+
qed

lemma goes_name_start:
  assumes "stands s m v n q" "s \<in> line_states" "TOKEN ch \<noteq> NUL" "n < unat HTTP_MAX_HEADER_SIZE"
  shows "\<exists>q'. goes hc [ch] q u q' (u @ [Byte Name ch]) \<and> stands s_header_field m v (n + 1) q' \<and>
     in_name [TOKEN ch] q'"
proof -
  let ?c = "enter (counted q) u" and ?t = "TOKEN ch"
  note ch = token_plain[OF assms(3)] and s = line_state[OF assms(2)]
  have q: "hp_state (counted q) = s" "hp_method (counted q) = m" "told q = v"
    using assms(1) by (simp_all add: stands_def)
  have e: "no_marks ?c" "pos ?c = 0" "udata ?c = u"
    using s q(1) by (auto simp: unmarked_states_def intro!: enter_unmarked)
  let ?d = "set_header_state (name_state [?t]) (set_state s_header_field (set_index 0
        ((set_state s_header_field_start ?c)\<lparr>header_field_mark := Some 0\<rparr>)))"
  have "name_state [?t] = (if ?t = CHR ''c'' then h_C
      else if ?t = CHR ''p'' then h_matching_proxy_connection
      else if ?t = CHR ''t'' then h_matching_transfer_encoding
      else if ?t = CHR ''u'' then h_matching_upgrade else h_general)"
    by (simp add: name_state_simps)
  then have "dispatch (recorder hc [ch]) 1 ch (set_state s_header_field_start ?c) = (?d, Next)"
    using assms(3) ch e
    by (simp add: dispatch_def do_header_field_start_def Let_def MARK_def set_state_def no_marks_def)
  then have "run_byte 5 (recorder hc [ch]) 1 ch ?c = (?d, Next)"
    using run_byte_line[of ?c ch] ch(1,2) assms(2) q(1) by simp
  from goes_stands[OF assms(1) _ assms(4) this, of s_header_field m v] s q
  have "goes hc [ch] q u (parser ?d) (flushed [ch] (?d\<lparr>pos := 1\<rparr>)) \<and> stands s_header_field m v (n + 1) (parser ?d)"
    by (simp add: kept_def set_state_def set_index_def set_header_state_def)
  moreover have "flushed [ch] (?d\<lparr>pos := 1\<rparr>) = u @ [Byte Name ch]"
    using e by (simp add: flushed_def set_state_def set_index_def set_header_state_def no_marks_def pending_def span_def)
  moreover have "in_name [?t] (parser ?d)" by (simp add: in_name_def set_header_state_def set_index_def set_state_def)
  ultimately show ?thesis by auto
qed

lemma flushed_name:
  assumes "hp_state q = s_header_field"
  shows "flushed [ch] ((enter q u)\<lparr>parser := q', pos := 1\<rparr>) = u @ [Byte Name ch]"
  using assms by (simp add: flushed_def enter_def pending_def span_def url_states_def)

lemma goes_name:
  assumes "stands s_header_field m v n q" "in_name t q" "\<forall>ch \<in> set w. TOKEN ch \<noteq> NUL"
    "n + length w \<le> unat HTTP_MAX_HEADER_SIZE"
  shows "\<exists>q'. goes hc w q u q' (u @ List.map (Byte Name) w) \<and> stands s_header_field m v (n + length w) q' \<and>
     in_name (t @ List.map TOKEN w) q'"
  using assms
proof (induction w arbitrary: n q u t)
  case Nil
  then show ?case using goes_Nil by (auto simp: stands_def)
next
  case (Cons ch w)
  let ?c = "enter (counted q) u"
  have ch: "TOKEN ch \<noteq> NUL" using Cons.prems(3) by simp
  have q: "hp_state (counted q) = s_header_field" "hp_method (counted q) = m" "told q = v"
    using Cons.prems(1) by (simp_all add: stands_def)
  have t: "t \<noteq> []" "hp_header_state q = name_state t" "following t \<longrightarrow> hp_index q = of_nat (length t - 1)"
    using Cons.prems(2) by (simp_all add: in_name_def)
  from name_step[OF t(1,3) token_plain(1)[OF ch], of "TOKEN ch"] obtain i' where
    i': "header_name_step (name_state t) (hp_index q) (TOKEN ch) ch = Some (name_state (t @ [TOKEN ch]), i')"
      "following (t @ [TOKEN ch]) \<longrightarrow> i' = of_nat (length (t @ [TOKEN ch]) - 1)" by blast
  let ?q = "(counted q)\<lparr>hp_index := i', hp_header_state := name_state (t @ [TOKEN ch])\<rparr>"
  have "dispatch (recorder hc [ch]) 1 ch ?c = (?c\<lparr>parser := ?q\<rparr>, Next)"
    using q ch i'(1) t(2)
    by (simp add: dispatch_def do_header_field_def set_index_def set_header_state_def)
  from goes_stands_next[OF Cons.prems(1) PARSING_HEADER_states(19) _ this, of s_header_field m v] Cons.prems(4) q
  have g: "goes hc [ch] q u ?q (flushed [ch] (?c\<lparr>parser := ?q, pos := 1\<rparr>))" "stands s_header_field m v (n + 1) ?q"
    by (simp_all add: kept_def)
  have "in_name (t @ [TOKEN ch]) ?q" using i'(2) by (simp add: in_name_def)
  from Cons.IH[OF g(2) this, of "u @ [Byte Name ch]"] Cons.prems(3,4) obtain q' where
    "goes hc w ?q (u @ [Byte Name ch]) q' ((u @ [Byte Name ch]) @ List.map (Byte Name) w)"
    "stands s_header_field m v (n + 1 + length w) q'" "in_name ((t @ [TOKEN ch]) @ List.map TOKEN w) q'"
    by auto
  with goes_Cons[OF g(1)[unfolded flushed_name[OF q(1)]]] show ?case by (auto intro!: exI)
qed

lemma goes_colon:
  assumes "stands s_header_field m v n q" "in_name t q" "n < unat HTTP_MAX_HEADER_SIZE"
  shows "\<exists>q'. goes hc '':'' q u q' u \<and> stands s_header_value_start m v (n + 1) q' \<and> hp_header_state q' = name_state t"
proof -
  let ?c = "enter (counted q) u"
  have q: "hp_state (counted q) = s_header_field" "hp_method (counted q) = m" "told q = v"
      "hp_errno (counted q) = HPE_OK" "hp_header_state q = name_state t"
    using assms(1,2) by (simp_all add: stands_def in_name_def counted_def)
  let ?d = "(set_state s_header_value_start ?c)\<lparr>header_field_mark := None\<rparr>"
  have e: "header_field_mark ?c = Some 0" "header_value_mark ?c = None" "body_mark ?c = None"
      "status_mark ?c = None" "url_mark ?c = None" "pos ?c = 0" "udata ?c = u"
    using q(1) by (simp_all add: enter_def url_states_def)
  have "dispatch (recorder hc '':'') 1 (CHR '':'') ?c = (?d, Next)"
    using q e by (simp add: dispatch_def do_header_field_def TOKEN_space recorder_data set_state_def)
  from goes_stands_next[OF assms(1) PARSING_HEADER_states(19) assms(3) this, of s_header_value_start m v] q(2,3)
  have "goes hc '':'' q u (parser ?d) (flushed '':'' (?d\<lparr>pos := 1\<rparr>)) \<and>
      stands s_header_value_start m v (n + 1) (parser ?d)"
    by (simp add: kept_def set_state_def)
  moreover have "flushed '':'' (?d\<lparr>pos := 1\<rparr>) = u" using e by (simp add: flushed_def set_state_def)
  moreover have "hp_header_state (parser ?d) = name_state t" using q(5) by (simp add: set_state_def)
  ultimately show ?thesis by auto
qed

lemma goes_value_space:
  assumes "stands s_header_value_start m v n q" "n < unat HTTP_MAX_HEADER_SIZE"
  shows "\<exists>q'. goes hc '' '' q u q' u \<and> stands s_header_value_start m v (n + 1) q' \<and>
     hp_header_state q' = hp_header_state q"
proof -
  let ?c = "enter (counted q) u"
  have q: "hp_state (counted q) = s_header_value_start" "hp_method (counted q) = m" "told q = v"
    using assms(1) by (simp_all add: stands_def)
  have "dispatch (recorder hc '' '') 1 (CHR '' '') ?c = (?c\<lparr>parser := counted q\<rparr>, Next)"
    using q by (simp add: dispatch_def do_header_value_start_def enter_def)
  from goes_quiet[OF assms(1) PARSING_HEADER_states(20) assms(2) _ this, of s_header_value_start v] q
  show ?thesis by (auto simp: unmarked_simps)
qed

lemma goes_field:
  assumes "stands s m v n q" "s \<in> line_states" "name \<noteq> []" "\<forall>ch \<in> set name. TOKEN ch \<noteq> NUL"
    "n + length name + 2 \<le> unat HTTP_MAX_HEADER_SIZE"
  shows "\<exists>q'. goes hc (name @ '': '') q u q' (u @ List.map (Byte Name) name) \<and>
     stands s_header_value_start m v (n + length name + 2) q' \<and>
     hp_header_state q' = name_state (List.map TOKEN name)"
proof -
  obtain ch w where name: "name = ch # w" using assms(3) by (cases name) auto
  obtain q1 where q1: "goes hc [ch] q u q1 (u @ [Byte Name ch])" "stands s_header_field m v (n + 1) q1"
      "in_name [TOKEN ch] q1"
    using goes_name_start[OF assms(1,2), of ch hc u] assms(4,5) name by auto
  obtain q2 where q2: "goes hc w q1 (u @ [Byte Name ch]) q2 (u @ List.map (Byte Name) name)"
      "stands s_header_field m v (n + length name) q2" "in_name (List.map TOKEN name) q2"
    using goes_name[OF q1(2,3), of w hc "u @ [Byte Name ch]"] assms(4,5) name by auto
  let ?u = "u @ List.map (Byte Name) name"
  obtain q3 where q3: "goes hc '':'' q2 ?u q3 ?u" "stands s_header_value_start m v (n + length name + 1) q3"
      "hp_header_state q3 = name_state (List.map TOKEN name)"
    using goes_colon[OF q2(2,3), of hc ?u] assms(5) by auto
  obtain q4 where q4: "goes hc '' '' q3 ?u q4 ?u" "stands s_header_value_start m v (n + length name + 2) q4"
      "hp_header_state q4 = name_state (List.map TOKEN name)"
    using goes_value_space[OF q3(2), of hc ?u] assms(5) q3(3) by auto
  show ?thesis
    using goes_append[OF goes_Cons[OF q1(1) q2(1)] goes_Cons[OF q3(1) q4(1)]] q4(2,3) name by auto
qed

subsection \<open>Values\<close>

lemma goes_value_start:
  assumes "stands s_header_value_start m v n q" "n < unat HTTP_MAX_HEADER_SIZE"
    "ch \<notin> {CHR '' '', HT, CR, LF}"
    "do_header_value_start (recorder hc [ch]) ch (enter (counted q) u) =
       (((enter (counted q) u)\<lparr>header_value_mark := Some 0\<rparr>)\<lparr>parser := q'\<rparr>, Next)"
    "kept (counted q) q'" "hp_state q' = s_header_value" "hp_method q' = m" "told q' = v'"
  shows "goes hc [ch] q u q' (u @ [Byte Value ch]) \<and> stands s_header_value m v' (n + 1) q'"
proof -
  let ?d = "((enter (counted q) u)\<lparr>header_value_mark := Some 0\<rparr>)\<lparr>parser := q'\<rparr>"
  have q: "hp_state (counted q) = s_header_value_start" using assms(1) by (simp add: stands_def)
  then have d: "dispatch (recorder hc [ch]) 1 ch (enter (counted q) u) = (?d, Next)"
    using assms(4) by (simp add: dispatch_def)
  have "flushed [ch] (?d\<lparr>pos := 1\<rparr>) = u @ [Byte Value ch]"
    using q by (simp add: flushed_def enter_def pending_def span_def url_states_def)
  with goes_stands_next[OF assms(1) PARSING_HEADER_states(20) assms(2) d] assms(5-8) show ?thesis by simp
qed

lemma goes_value_byte:
  assumes "stands s_header_value m v n q" "n < unat HTTP_MAX_HEADER_SIZE"
    "do_header_value (recorder hc [ch]) ch (enter (counted q) u) = ((enter (counted q) u)\<lparr>parser := q'\<rparr>, Next)"
    "kept (counted q) q'" "hp_state q' = s_header_value" "hp_method q' = m" "told q' = v'"
  shows "goes hc [ch] q u q' (u @ [Byte Value ch]) \<and> stands s_header_value m v' (n + 1) q'"
proof -
  let ?d = "(enter (counted q) u)\<lparr>parser := q'\<rparr>"
  have q: "hp_state (counted q) = s_header_value" using assms(1) by (simp add: stands_def)
  then have d: "dispatch (recorder hc [ch]) 1 ch (enter (counted q) u) = (?d, Next)"
    using assms(3) by (simp add: dispatch_def)
  have "flushed [ch] (?d\<lparr>pos := 1\<rparr>) = u @ [Byte Value ch]"
    using q by (simp add: flushed_def enter_def pending_def span_def url_states_def)
  with goes_stands_next[OF assms(1) PARSING_HEADER_states(21) assms(2) d] assms(4-7) show ?thesis by simp
qed

lemma goes_value_end:
  assumes "stands s_header_value m v n q" "n < unat HTTP_MAX_HEADER_SIZE"
  shows "\<exists>q'. goes hc [CR] q u q' u \<and> stands s_header_almost_done m v (n + 1) q' \<and>
     hp_header_state q' = hp_header_state q"
proof -
  let ?c = "enter (counted q) u"
  have q: "hp_state (counted q) = s_header_value" "hp_method (counted q) = m" "told q = v"
      "hp_errno (counted q) = HPE_OK"
    using assms(1) by (simp_all add: stands_def counted_def)
  let ?d = "(set_state s_header_almost_done ?c)\<lparr>header_value_mark := None\<rparr>"
  have e: "header_field_mark ?c = None" "header_value_mark ?c = Some 0" "body_mark ?c = None"
      "status_mark ?c = None" "url_mark ?c = None" "pos ?c = 0" "udata ?c = u"
    using q(1) by (simp_all add: enter_def url_states_def)
  have "dispatch (recorder hc [CR]) 1 CR ?c = (?d, Next)"
    using q e by (simp add: dispatch_def do_header_value_def recorder_data set_state_def)
  from goes_stands_next[OF assms(1) PARSING_HEADER_states(21) assms(2) this, of s_header_almost_done m v] q(2,3)
  have "goes hc [CR] q u (parser ?d) (flushed [CR] (?d\<lparr>pos := 1\<rparr>)) \<and>
      stands s_header_almost_done m v (n + 1) (parser ?d)"
    by (simp add: kept_def set_state_def)
  moreover have "flushed [CR] (?d\<lparr>pos := 1\<rparr>) = u" using e by (simp add: flushed_def set_state_def)
  moreover have "hp_header_state (parser ?d) = hp_header_state q" by (simp add: set_state_def)
  ultimately show ?thesis by auto
qed

definition plain_states :: "header_states set" where
  "plain_states = - {h_connection_keep_alive, h_connection_close, h_transfer_encoding_chunked}"

lemma goes_line_end:
  assumes "stands s_header_almost_done m v n q" "n < unat HTTP_MAX_HEADER_SIZE"
    "hp_header_state q \<in> plain_states"
  shows "\<exists>q'. goes hc [LF] q u q' u \<and> stands s_header_value_lws m v (n + 1) q'"
proof -
  let ?c = "enter (counted q) u" and ?q = "(counted q)\<lparr>hp_state := s_header_value_lws\<rparr>"
  have q: "hp_state (counted q) = s_header_almost_done" "hp_method (counted q) = m" "told q = v"
    using assms(1) by (simp_all add: stands_def)
  have "dispatch (recorder hc [LF]) 1 LF ?c = (?c\<lparr>parser := ?q\<rparr>, Next)"
    using q assms(3)
    by (simp add: dispatch_def do_header_almost_done_def STRICT_CHECK_def Let_def set_state_def plain_states_def
        split: header_states.split)
  from goes_quiet[OF assms(1) PARSING_HEADER_states(22) assms(2) _ this, of s_header_value_lws v] q
  show ?thesis by (auto simp: unmarked_simps kept_def)
qed

lemma goes_value_line_end:
  assumes "stands s_header_value m v n q" "n + 2 \<le> unat HTTP_MAX_HEADER_SIZE"
    "hp_header_state q \<in> plain_states"
  shows "\<exists>q'. goes hc [CR, LF] q u q' u \<and> stands s_header_value_lws m v (n + 2) q'"
proof -
  obtain q1 where q1: "goes hc [CR] q u q1 u" "stands s_header_almost_done m v (n + 1) q1"
      "hp_header_state q1 = hp_header_state q"
    using goes_value_end[OF assms(1), of hc u] assms(2) by auto
  obtain q2 where "goes hc [LF] q1 u q2 u" "stands s_header_value_lws m v (n + 2) q2"
    using goes_line_end[OF q1(2), of hc u] q1(3) assms(2,3) by auto
  with goes_Cons[OF q1(1)] show ?thesis by blast
qed

text \<open>The value of a header that the parser does not interpret.\<close>

definition plain_value :: "string \<Rightarrow> bool" where
  "plain_value w \<longleftrightarrow> set w \<inter> {CR, LF} = {} \<and> (w \<noteq> [] \<longrightarrow> hd w \<notin> {CHR '' '', HT})"

lemma goes_plain_rest:
  assumes "stands s_header_value m v n q" "hp_header_state q = h_general" "set w \<inter> {CR, LF} = {}"
    "n + length w \<le> unat HTTP_MAX_HEADER_SIZE"
  shows "\<exists>q'. goes hc w q u q' (u @ List.map (Byte Value) w) \<and> stands s_header_value m v (n + length w) q' \<and>
     hp_header_state q' = h_general"
  using assms
proof (induction w arbitrary: n q u)
  case Nil
  then show ?case using goes_Nil by (auto simp: stands_def)
next
  case (Cons ch w)
  have q: "hp_state (counted q) = s_header_value" "hp_method (counted q) = m" "told q = v"
    using Cons.prems(1) by (simp_all add: stands_def)
  have "ch \<noteq> CR" "ch \<noteq> LF" using Cons.prems(3) by auto
  then have "do_header_value (recorder hc [ch]) ch (enter (counted q) u) =
      ((enter (counted q) u)\<lparr>parser := counted q\<rparr>, Next)"
    using Cons.prems(2) by (simp add: do_header_value_def)
  from goes_value_byte[OF Cons.prems(1) _ this _ _ _, of v] Cons.prems(4) q
  have g: "goes hc [ch] q u (counted q) (u @ [Byte Value ch])" "stands s_header_value m v (n + 1) (counted q)"
    by simp_all
  from Cons.IH[OF g(2), of "u @ [Byte Value ch]"] Cons.prems(2-4) obtain q' where
    "goes hc w (counted q) (u @ [Byte Value ch]) q' ((u @ [Byte Value ch]) @ List.map (Byte Value) w)"
    "stands s_header_value m v (n + 1 + length w) q'" "hp_header_state q' = h_general"
    by auto
  with goes_Cons[OF g(1)] show ?case by (auto intro!: exI)
qed

definition open_states :: "header_states set" where
  "open_states = - {h_connection, h_content_length, h_transfer_encoding, h_upgrade}"

lemma goes_empty_value:
  assumes "stands s_header_value_start m v n q" "n < unat HTTP_MAX_HEADER_SIZE"
  shows "\<exists>q'. goes hc [CR] q u q' u \<and> stands s_header_almost_done m v (n + 1) q' \<and>
     hp_header_state q' = h_general"
proof -
  let ?c = "enter (counted q) u"
  have q: "hp_state (counted q) = s_header_value_start" "hp_method (counted q) = m" "told q = v"
      "hp_errno (counted q) = HPE_OK"
    using assms(1) by (simp_all add: stands_def counted_def)
  have e: "no_marks ?c" "pos ?c = 0" "udata ?c = u"
    using q(1) by (auto simp: url_states_def intro!: enter_unmarked)
  let ?q = "(counted q)\<lparr>hp_state := s_header_almost_done, hp_index := 0, hp_header_state := h_general\<rparr>"
  have "dispatch (recorder hc [CR]) 1 CR ?c = (?c\<lparr>parser := ?q\<rparr>, Next)"
    using q e by (simp add: dispatch_def do_header_value_start_def recorder_data set_state_def set_index_def
        set_header_state_def Let_def MARK_def no_marks_def CR_def HT_def)
  from goes_quiet[OF assms(1) PARSING_HEADER_states(20) assms(2) _ this, of s_header_almost_done v] q
  show ?thesis by (auto simp: unmarked_simps kept_def intro!: exI[of _ ?q])
qed

lemma goes_plain_value:
  assumes "stands s_header_value_start m v n q" "hp_header_state q \<in> open_states" "plain_value w"
    "n + length w + 2 \<le> unat HTTP_MAX_HEADER_SIZE"
  shows "\<exists>q'. goes hc (w @ [CR, LF]) q u q' (u @ List.map (Byte Value) w) \<and>
     stands s_header_value_lws m v (n + length w + 2) q'"
proof (cases w)
  case Nil
  obtain q1 where q1: "goes hc [CR] q u q1 u" "stands s_header_almost_done m v (n + 1) q1"
      "hp_header_state q1 = h_general"
    using goes_empty_value[OF assms(1), of hc u] assms(4) by auto
  obtain q2 where "goes hc [LF] q1 u q2 u" "stands s_header_value_lws m v (n + 2) q2"
    using goes_line_end[OF q1(2), of hc u] q1(3) assms(4) by (auto simp: plain_states_def)
  with goes_Cons[OF q1(1)] Nil show ?thesis by auto
next
  case (Cons ch cs)
  let ?c = "enter (counted q) u"
  have ch: "ch \<notin> {CHR '' '', HT, CR, LF}" "set cs \<inter> {CR, LF} = {}"
    using assms(3) Cons by (auto simp: plain_value_def)
  have q: "hp_state (counted q) = s_header_value_start" "hp_method (counted q) = m" "told q = v"
    using assms(1) by (simp_all add: stands_def)
  have e: "header_value_mark ?c = None" "pos ?c = 0" using q(1) by (simp_all add: enter_def)
  let ?q = "(counted q)\<lparr>hp_state := s_header_value, hp_index := 0, hp_header_state := h_general\<rparr>"
  have "do_header_value_start (recorder hc [ch]) ch ?c = ((?c\<lparr>header_value_mark := Some 0\<rparr>)\<lparr>parser := ?q\<rparr>, Next)"
    using ch(1) assms(2) e
    by (simp add: do_header_value_start_def Let_def set_index_def set_state_def set_header_state_def MARK_def
        open_states_def split: header_states.split)
  from goes_value_start[OF assms(1) _ ch(1) this, of v] assms(4) Cons q
  have g: "goes hc [ch] q u ?q (u @ [Byte Value ch])" "stands s_header_value m v (n + 1) ?q"
    by (simp_all add: kept_def)
  from goes_plain_rest[OF g(2) _ ch(2), of hc "u @ [Byte Value ch]"] assms(4) Cons obtain q1 where
    q1: "goes hc cs ?q (u @ [Byte Value ch]) q1 (u @ List.map (Byte Value) w)"
      "stands s_header_value m v (n + length w) q1" "hp_header_state q1 = h_general" by auto
  from goes_value_line_end[OF q1(2), of hc "u @ List.map (Byte Value) w"] assms(4) q1(3) obtain q2 where
    "goes hc [CR, LF] q1 (u @ List.map (Byte Value) w) q2 (u @ List.map (Byte Value) w)"
    "stands s_header_value_lws m v (n + length w + 2) q2"
    by (auto simp: plain_states_def)
  with goes_append[OF goes_Cons[OF g(1) q1(1)]] Cons show ?thesis by auto
qed

text \<open>A \<open>Content-Length\<close>.\<close>

lemma goes_length_rest:
  assumes "stands s_header_value m (a, b, of_nat (dec_val ds)) n q" "hp_header_state q = h_content_length"
    "\<forall>ch \<in> set es. IS_NUM ch" "dec_val (ds @ es) \<le> content_length_limit"
    "n + length es \<le> unat HTTP_MAX_HEADER_SIZE"
  shows "\<exists>q'. goes hc es q u q' (u @ List.map (Byte Value) es) \<and>
     stands s_header_value m (a, b, of_nat (dec_val (ds @ es))) (n + length es) q' \<and>
     hp_header_state q' = h_content_length"
  using assms
proof (induction es arbitrary: ds n q u)
  case Nil
  then show ?case using goes_Nil by (auto simp: stands_def)
next
  case (Cons ch es)
  let ?c = "enter (counted q) u" and ?t = "of_nat (dec_val (ds @ [ch])) :: 64 word"
  have ch: "IS_NUM ch" using Cons.prems(3) by simp
  have q: "hp_state (counted q) = s_header_value" "hp_method (counted q) = m"
      "told q = (a, b, of_nat (dec_val ds))"
    using Cons.prems(1) by (simp_all add: stands_def)
  have le: "dec_val (ds @ [ch]) \<le> content_length_limit"
    using dec_val_append_ge[of "ds @ [ch]" es] Cons.prems(4) by simp
  then have l: "dec_val ds \<le> 1844674407370955160" using dec_val_limit[OF ch] by simp
  have cl: "hp_content_length q = of_nat (dec_val ds)" using q(3) by (simp add: told_def)
  have "\<not> (ULLONG_MAX - 10) div 10 < hp_content_length q"
    using l by (simp add: content_length_guard cl unat_of_nat)
  moreover have "hp_content_length q * 10 + of_nat (digit_val ch) = ?t"
    by (simp add: cl dec_val_snoc)
  ultimately have "do_header_value (recorder hc [ch]) ch ?c =
      (?c\<lparr>parser := (counted q)\<lparr>hp_content_length := ?t\<rparr>\<rparr>, Next)"
    using Cons.prems(2) IS_NUM_not_space[OF ch] ch
    by (simp add: do_header_value_def do_content_length_digit_def Let_def)
  from goes_value_byte[OF Cons.prems(1) _ this, of "(a, b, ?t)"] Cons.prems(5) q
  have g: "goes hc [ch] q u ((counted q)\<lparr>hp_content_length := ?t\<rparr>) (u @ [Byte Value ch])"
    "stands s_header_value m (a, b, ?t) (n + 1) ((counted q)\<lparr>hp_content_length := ?t\<rparr>)"
    by (simp_all add: kept_def told_def counted_def)
  from Cons.IH[OF g(2), of "u @ [Byte Value ch]"] Cons.prems(2-5) obtain q' where
    "goes hc es ((counted q)\<lparr>hp_content_length := ?t\<rparr>) (u @ [Byte Value ch]) q' ((u @ [Byte Value ch]) @ List.map (Byte Value) es)"
    "stands s_header_value m (a, b, of_nat (dec_val ((ds @ [ch]) @ es))) (n + 1 + length es) q'"
    "hp_header_state q' = h_content_length"
    by auto
  with goes_Cons[OF g(1)] show ?case by (auto intro!: exI)
qed

lemma goes_length_value:
  assumes "stands s_header_value_start m (a, b, c) n q" "hp_header_state q = h_content_length"
    "ds \<noteq> []" "\<forall>ch \<in> set ds. IS_NUM ch" "dec_val ds \<le> content_length_limit"
    "n + length ds + 2 \<le> unat HTTP_MAX_HEADER_SIZE"
  shows "\<exists>q'. goes hc (ds @ [CR, LF]) q u q' (u @ List.map (Byte Value) ds) \<and>
     stands s_header_value_lws m (a, b, of_nat (dec_val ds)) (n + length ds + 2) q'"
proof -
  obtain ch es where ds: "ds = ch # es" using assms(3) by (cases ds) auto
  let ?c = "enter (counted q) u"
  have ch: "IS_NUM ch" "ch \<notin> {CHR '' '', HT, CR, LF}" using assms(4) ds IS_NUM_not_space[of ch] by auto
  have q: "hp_state (counted q) = s_header_value_start" "hp_method (counted q) = m" "told q = (a, b, c)"
    using assms(1) by (simp_all add: stands_def)
  have e: "header_value_mark ?c = None" "pos ?c = 0" using q(1) by (simp_all add: enter_def)
  let ?q = "(counted q)\<lparr>hp_state := s_header_value, hp_index := 0, hp_content_length := of_nat (digit_val ch)\<rparr>"
  have "do_header_value_start (recorder hc [ch]) ch ?c = ((?c\<lparr>header_value_mark := Some 0\<rparr>)\<lparr>parser := ?q\<rparr>, Next)"
    using ch assms(2) e
    by (simp add: do_header_value_start_def Let_def set_index_def set_state_def MARK_def)
  from goes_value_start[OF assms(1) _ ch(2) this, of "(a, b, of_nat (dec_val [ch]))"] assms(6) ds q
  have g: "goes hc [ch] q u ?q (u @ [Byte Value ch])" "stands s_header_value m (a, b, of_nat (dec_val [ch])) (n + 1) ?q"
    by (simp_all add: kept_def told_def counted_def dec_val_def)
  from goes_length_rest[OF g(2), of es hc "u @ [Byte Value ch]"] assms ds obtain q1 where
    q1: "goes hc es ?q (u @ [Byte Value ch]) q1 (u @ List.map (Byte Value) ds)"
      "stands s_header_value m (a, b, of_nat (dec_val ds)) (n + length ds) q1" "hp_header_state q1 = h_content_length"
    by auto
  from goes_value_line_end[OF q1(2), of hc "u @ List.map (Byte Value) ds"] assms(6) q1(3) obtain q2 where
    "goes hc [CR, LF] q1 (u @ List.map (Byte Value) ds) q2 (u @ List.map (Byte Value) ds)"
    "stands s_header_value_lws m (a, b, of_nat (dec_val ds)) (n + length ds + 2) q2"
    by (auto simp: plain_states_def)
  with goes_append[OF goes_Cons[OF g(1) q1(1)]] ds show ?thesis by auto
qed

section \<open>The end of the headers and the body\<close>

lemma goes_blank:
  assumes "stands s m v n q" "s \<in> line_states" "n < unat HTTP_MAX_HEADER_SIZE"
  shows "\<exists>q'. goes hc [CR] q u q' u \<and> stands s_headers_almost_done m v (n + 1) q'"
proof -
  let ?c = "enter (counted q) u"
  note s = line_state[OF assms(2)]
  have q: "hp_state (counted q) = s" "hp_method (counted q) = m" "told q = v"
    using assms(1) by (simp_all add: stands_def)
  have e: "no_marks ?c" "udata ?c = u"
    using s q(1) by (auto simp: unmarked_states_def intro!: enter_unmarked)
  let ?d = "set_state s_headers_almost_done ?c"
  have "dispatch (recorder hc [CR]) 1 CR (set_state s_header_field_start ?c) = (?d, Next)"
    by (simp add: dispatch_def do_header_field_start_def set_state_def)
  then have "run_byte 5 (recorder hc [CR]) 1 CR ?c = (?d, Next)"
    using run_byte_line[of ?c CR] assms(2) q(1) by (simp add: CR_def HT_def)
  from goes_stands[OF assms(1) _ assms(3) this, of s_headers_almost_done m v] s q
  have "goes hc [CR] q u (parser ?d) (flushed [CR] (?d\<lparr>pos := 1\<rparr>)) \<and>
      stands s_headers_almost_done m v (n + 1) (parser ?d)"
    by (simp add: kept_def set_state_def)
  moreover have "flushed [CR] (?d\<lparr>pos := 1\<rparr>) = u"
    using e by (simp add: flushed_unmarked no_marks_def set_state_def)
  ultimately show ?thesis by auto
qed

text \<open>The end of the headers, and what the parser expects next.\<close>

definition ended :: "state \<Rightarrow> http_method \<Rightarrow> told \<Rightarrow> http_parser \<Rightarrow> bool" where
  "ended s m v q \<longleftrightarrow> hp_state q = s \<and> hp_method q = m \<and> told q = v \<and> hp_type q = HTTP_REQUEST \<and> hp_flags q = 0"

lemma NEW_MESSAGE_request:
  "hp_type q = HTTP_REQUEST \<Longrightarrow> hp_flags q = 0 \<Longrightarrow> hp_http_major q = 1 \<Longrightarrow> hp_http_minor q = 1 \<Longrightarrow>
     NEW_MESSAGE q = s_start_req"
  by (simp add: NEW_MESSAGE_def http_should_keep_alive_def flag_set_def http_message_needs_eof_def start_state_def)

definition headers_end :: "64 word \<Rightarrow> state" where
  "headers_end L = (if L = 0 \<or> L = ULLONG_MAX then s_start_req else s_body_identity)"

definition end_events :: "64 word \<Rightarrow> event list" where
  "end_events L = Headers_complete # (if L = 0 \<or> L = ULLONG_MAX then [Message_complete] else [])"

lemma goes_headers_end:
  assumes "stands s_headers_almost_done m (1, 1, L) n q" "n < unat HTTP_MAX_HEADER_SIZE" "m \<noteq> HTTP_CONNECT"
  shows "\<exists>q'. goes (\<lambda>_. 0) [LF] q u q' (u @ end_events L) \<and> ended (headers_end L) m (1, 1, L) q'"
proof -
  let ?S = "recorder (\<lambda>_. 0) [LF]" and ?c = "enter (counted q) u"
  let ?q1 = "(counted q)\<lparr>hp_state := s_headers_done, hp_upgrade := False\<rparr>"
  let ?c1 = "?c\<lparr>parser := ?q1, udata := u @ [Headers_complete]\<rparr>"
  have q: "hp_state (counted q) = s_headers_almost_done" "hp_method (counted q) = m" "hp_errno (counted q) = HPE_OK"
      "hp_flags (counted q) = 0" "hp_type (counted q) = HTTP_REQUEST"
      "hp_http_major (counted q) = 1" "hp_http_minor (counted q) = 1" "hp_content_length (counted q) = L"
    using assms(1) by (simp_all add: stands_def told_def) (simp_all add: counted_def)
  have e: "no_marks ?c" "udata ?c = u" "pos ?c = 0"
    using q(1) by (auto simp: url_states_def intro!: enter_unmarked)
  have d1: "dispatch ?S 1 LF ?c = (?c1, Reexecute)"
    using q e assms(3)
    by (simp add: dispatch_def do_headers_almost_done_def STRICT_CHECK_def flag_set_def set_state_def
        call_headers_complete_def)
  let ?q2 = "?q1\<lparr>hp_nread := 0, hp_state := headers_end L\<rparr>"
  let ?c2 = "?c\<lparr>parser := ?q2, udata := u @ end_events L\<rparr>"
  have d2: "dispatch ?S 1 LF ?c1 = (?c2, Next)"
    using q by (auto simp: dispatch_def do_headers_done_def STRICT_CHECK_def Let_def flag_set_def set_state_def
        recorder_notify NEW_MESSAGE_request headers_end_def end_events_def)
  have "run_byte 5 ?S 1 LF ?c = (?c2, Next)"
    using run_byte_again[OF d1, of 4] run_byte_next[OF d2, of 3] by (simp add: eval_nat_numeral)
  from goes_byte[OF stands_in_header[OF assms(1) PARSING_HEADER_states(24) assms(2)] this]
  have "goes (\<lambda>_. 0) [LF] q u ?q2 (flushed [LF] (?c2\<lparr>pos := 1\<rparr>))" by simp
  moreover have "flushed [LF] (?c2\<lparr>pos := 1\<rparr>) = u @ end_events L"
    using e by (simp add: flushed_unmarked no_marks_def)
  moreover have "ended (headers_end L) m (1, 1, L) ?q2" using q by (simp add: ended_def told_def)
  ultimately show ?thesis by auto
qed

text \<open>A byte of the body.\<close>

lemma goes_body_byte:
  assumes "wf_parser q" "hp_errno q = HPE_OK" "\<not> hp_upgrade q" "hp_state q = s_body_identity"
    "run_byte 5 (recorder hc [ch]) 1 ch (enter q u) = (c', Next)" "\<not> hp_upgrade (parser c')"
  shows "goes hc [ch] q u (parser c') (flushed [ch] (c'\<lparr>pos := 1\<rparr>))"
proof -
  have "\<not> PARSING_HEADER s_body_identity" by code_simp
  then have "\<not> header_overflow (enter q u)" "count_byte (enter q u) = enter q u"
    using assms(4) by (simp_all add: header_overflow_def count_byte_def)
  with assms show ?thesis by (intro goes_run) simp_all
qed

lemma recorder_last_body:
  "hp_errno (parser c) = HPE_OK \<Longrightarrow> body_mark c = Some i \<Longrightarrow> data_body (recorder hc data) 1 ret c =
     (c\<lparr>body_mark := None, udata := udata c @ List.map (Byte Body) (span i (pos c - i + 1) data)\<rparr>, Next)"
  by (simp add: data_body_def CALLBACK_DATA_def recorder_def record_data_def)

definition good :: "http_parser \<Rightarrow> bool" where
  "good q \<longleftrightarrow> wf_parser q \<and> hp_errno q = HPE_OK \<and> \<not> hp_upgrade q"

lemma goes_good: "goes hc w q u q' u' \<Longrightarrow> good q'"
  by (simp add: goes_def good_def)

lemma body_context:
  assumes "hp_state q = s_body_identity" "hp_content_length q = of_nat (Suc k)" "Suc k < 2 ^ 64"
  shows "no_marks (enter q u)" "pos (enter q u) = 0" "udata (enter q u) = u"
    "take_body 1 (enter q u) = (enter q u)\<lparr>parser := q\<lparr>hp_content_length := of_nat k\<rparr>, body_mark := Some 0\<rparr>"
proof -
  show e: "no_marks (enter q u)" "pos (enter q u) = 0" "udata (enter q u) = u"
    using assms(1) by (auto simp: url_states_def intro!: enter_unmarked)
  have "unat (hp_content_length q) = Suc k"
    using assms(2,3) by (simp only: unat_of_nat) simp
  then show "take_body 1 (enter q u) = (enter q u)\<lparr>parser := q\<lparr>hp_content_length := of_nat k\<rparr>, body_mark := Some 0\<rparr>"
    using e assms(2) by (simp add: take_body_def to_read_def Let_def MARK_def no_marks_def)
qed

lemma length_words:
  "Suc k \<le> content_length_limit \<Longrightarrow> (of_nat (Suc k) :: 64 word) \<noteq> 0 \<and> (of_nat (Suc k) :: 64 word) \<noteq> ULLONG_MAX"
proof -
  assume "Suc k \<le> content_length_limit"
  then have "unat (of_nat (Suc k) :: 64 word) = Suc k" "Suc k < 18446744073709551615"
    by (simp_all add: unat_of_nat content_length_limit_def del: of_nat_Suc)
  moreover have "unat ULLONG_MAX = 18446744073709551615" by (simp add: ULLONG_MAX_def unsigned_minus_1_eq_mask mask_eq_exp_minus_1)
  ultimately show ?thesis by (metis nat.distinct(1) less_irrefl unat_0)
qed

lemma goes_body_more:
  assumes "good q" "ended s_body_identity m (1, 1, of_nat (Suc (Suc k))) q" "Suc (Suc k) \<le> content_length_limit"
  shows "\<exists>q'. goes hc [ch] q u q' (u @ [Byte Body ch]) \<and> ended s_body_identity m (1, 1, of_nat (Suc k)) q'"
proof -
  let ?c = "enter q u" and ?q = "q\<lparr>hp_content_length := of_nat (Suc k)\<rparr>"
  let ?d = "?c\<lparr>parser := ?q, body_mark := Some 0\<rparr>"
  have q: "hp_state q = s_body_identity" "hp_content_length q = of_nat (Suc (Suc k))"
    using assms(2) by (simp_all add: ended_def told_def)
  have "Suc (Suc k) < 2 ^ 64" using assms(3) by (simp add: content_length_limit_def)
  note b = body_context[OF q this, of u] and w = length_words[OF assms(3)] length_words[of k]
  have "dispatch (recorder hc [ch]) 1 ch ?c = (?d, Next)"
    using q b w assms(3)
    by (simp add: dispatch_def do_body_identity_def Let_def content_length_limit_def del: of_nat_Suc)
  from run_byte_next[OF this, of 4] assms(1) q(1)
  have "goes hc [ch] q u ?q (flushed [ch] (?d\<lparr>pos := 1\<rparr>))"
    using goes_body_byte[of q hc ch u ?d] by (simp add: good_def)
  moreover have "flushed [ch] (?d\<lparr>pos := 1\<rparr>) = u @ [Byte Body ch]"
    using b by (simp add: flushed_def no_marks_def pending_def span_def)
  moreover have "ended s_body_identity m (1, 1, of_nat (Suc k)) ?q"
    using assms(2) by (simp add: ended_def told_def)
  ultimately show ?thesis by auto
qed

lemma goes_body_last:
  assumes "good q" "ended s_body_identity m (1, 1, 1) q"
  shows "\<exists>q'. goes hc [ch] q u q' (u @ [Byte Body ch, Message_complete]) \<and> ended s_start_req m (1, 1, 0) q'"
proof -
  let ?S = "recorder hc [ch]" and ?c = "enter q u" and ?q = "q\<lparr>hp_content_length := 0, hp_state := s_message_done\<rparr>"
  let ?c1 = "?c\<lparr>parser := ?q, udata := u @ [Byte Body ch]\<rparr>"
  let ?c2 = "?c1\<lparr>parser := ?q\<lparr>hp_state := s_start_req\<rparr>, udata := u @ [Byte Body ch, Message_complete]\<rparr>"
  have q: "hp_state q = s_body_identity" "hp_content_length q = of_nat (Suc 0)" "hp_errno q = HPE_OK"
      "hp_type q = HTTP_REQUEST" "hp_flags q = 0" "hp_http_major q = 1" "hp_http_minor q = 1"
    using assms by (simp_all add: ended_def told_def good_def)
  note b = body_context[OF q(1,2), of u] and w = length_words[of 0]
  have d1: "dispatch ?S 1 ch ?c = (?c1, Reexecute)"
    using q b w
    by (simp add: dispatch_def do_body_identity_def Let_def content_length_limit_def set_state_def
        recorder_last_body[unfolded One_nat_def] span_def no_marks_def)
  have d2: "dispatch ?S 1 ch ?c1 = (?c2, Next)"
    using q by (simp add: dispatch_def do_message_done_def recorder_notify NEW_MESSAGE_request set_state_def)
  have "run_byte 5 ?S 1 ch ?c = (?c2, Next)"
    using run_byte_again[OF d1, of 4] run_byte_next[OF d2, of 3] by (simp add: eval_nat_numeral)
  then have "goes hc [ch] q u (parser ?c2) (flushed [ch] (?c2\<lparr>pos := 1\<rparr>))"
    using goes_body_byte[of q hc ch u ?c2] assms(1) q(1) by (simp add: good_def)
  moreover have "flushed [ch] (?c2\<lparr>pos := 1\<rparr>) = u @ [Byte Body ch, Message_complete]"
    using b by (simp add: flushed_unmarked no_marks_def)
  moreover have "ended s_start_req m (1, 1, 0) (parser ?c2)"
    using assms(2) by (simp add: ended_def told_def)
  ultimately show ?thesis by auto
qed

lemma goes_body:
  assumes "good q" "ended s_body_identity m (1, 1, of_nat (length b)) q" "b \<noteq> []" "length b \<le> content_length_limit"
  shows "\<exists>q'. goes hc b q u q' (u @ List.map (Byte Body) b @ [Message_complete]) \<and> ended s_start_req m (1, 1, 0) q'"
  using assms(3,1,2,4)
proof (induction b arbitrary: q u rule: list_nonempty_induct)
  case (single ch)
  then show ?case using goes_body_last by simp
next
  case (cons ch b)
  obtain k where k: "length b = Suc k" using cons.hyps by (cases b) auto
  obtain q1 where q1: "goes hc [ch] q u q1 (u @ [Byte Body ch])" "ended s_body_identity m (1, 1, of_nat (length b)) q1"
    using goes_body_more[OF cons.prems(1), of m k hc ch u] cons.prems(2,3) k by auto
  from cons.IH[OF goes_good[OF q1(1)] q1(2), of "u @ [Byte Body ch]"] cons.hyps cons.prems(3)
  show ?case using goes_Cons[OF q1(1)] by fastforce
qed

section \<open>Printing a request\<close>

text \<open>
  The text of a request: its body, if there is one, is announced by a \<open>Content-Length\<close>, whose digits are
  given next to it.
\<close>

record request =
  rq_method :: http_method
  rq_url :: string
  rq_headers :: "(string \<times> string) list"
  rq_body :: "(string \<times> string) option"

fun print_header :: "string \<times> string \<Rightarrow> string" where
  "print_header (name, val) = name @ '': '' @ val @ [CR, LF]"

definition all_headers :: "request \<Rightarrow> (string \<times> string) list" where
  "all_headers r = rq_headers r @ (case rq_body r of None \<Rightarrow> [] | Some (ds, b) \<Rightarrow> [(''Content-Length'', ds)])"

definition body_of :: "request \<Rightarrow> string" where
  "body_of r = (case rq_body r of None \<Rightarrow> [] | Some (ds, b) \<Rightarrow> b)"

definition print_head :: "request \<Rightarrow> string" where
  "print_head r = method_strings (rq_method r) @ '' '' @ rq_url r @ '' '' @ HTTP_1_1 @
     concat (List.map print_header (all_headers r)) @ [CR, LF]"

definition print_request :: "request \<Rightarrow> string" where
  "print_request r = print_head r @ body_of r"

text \<open>What the parser should report of it.\<close>

fun header_events :: "string \<times> string \<Rightarrow> event list" where
  "header_events (name, val) = List.map (Byte Name) name @ List.map (Byte Value) val"

definition request_events :: "request \<Rightarrow> event list" where
  "request_events r = Message_begin # List.map (Byte Url) (rq_url r) @
     concat (List.map header_events (all_headers r)) @ [Headers_complete] @
     List.map (Byte Body) (body_of r) @ [Message_complete]"

definition valid_header :: "string \<times> string \<Rightarrow> bool" where
  "valid_header h \<longleftrightarrow> fst h \<noteq> [] \<and> list_all (\<lambda>ch. TOKEN ch \<noteq> NUL) (fst h) \<and>
     List.map TOKEN (fst h) \<notin> header_names \<and> plain_value (snd h)"

definition valid_request :: "request \<Rightarrow> bool" where
  "valid_request r \<longleftrightarrow> rq_method r \<noteq> HTTP_CONNECT \<and>
     rq_url r \<noteq> [] \<and> hd (rq_url r) = CHR ''/'' \<and> list_all url_char (rq_url r) \<and>
     list_all valid_header (rq_headers r) \<and>
     (case rq_body r of None \<Rightarrow> True
      | Some (ds, b) \<Rightarrow> ds \<noteq> [] \<and> list_all IS_NUM ds \<and> dec_val ds = length b \<and> length b \<le> content_length_limit) \<and>
     length (print_head r) \<le> unat HTTP_MAX_HEADER_SIZE"

subsection \<open>The phases put together\<close>

lemma goes_header:
  assumes "stands s m v n q" "s \<in> line_states" "valid_header h"
    "n + length (print_header h) \<le> unat HTTP_MAX_HEADER_SIZE"
  shows "\<exists>q'. goes hc (print_header h) q u q' (u @ header_events h) \<and>
     stands s_header_value_lws m v (n + length (print_header h)) q'"
proof -
  obtain name val where h: "h = (name, val)" by (cases h)
  have v: "name \<noteq> []" "\<forall>ch \<in> set name. TOKEN ch \<noteq> NUL" "List.map TOKEN name \<notin> header_names" "plain_value val"
    using assms(3) h by (simp_all add: valid_header_def list_all_iff)
  obtain q1 where q1: "goes hc (name @ '': '') q u q1 (u @ List.map (Byte Name) name)"
      "stands s_header_value_start m v (n + length name + 2) q1" "hp_header_state q1 = name_state (List.map TOKEN name)"
    using goes_field[OF assms(1,2) v(1,2), of hc u] assms(4) h by auto
  have "hp_header_state q1 \<in> open_states" using q1(3) name_state_other[OF v(3)] by (simp add: open_states_def)
  then obtain q2 where "goes hc (val @ [CR, LF]) q1 (u @ List.map (Byte Name) name) q2 (u @ header_events h)"
      "stands s_header_value_lws m v (n + length (print_header h)) q2"
    using goes_plain_value[OF q1(2) _ v(4), of hc "u @ List.map (Byte Name) name"] assms(4) h
    by (auto simp: add.assoc)
  with goes_append[OF q1(1)] h show ?thesis by fastforce
qed

lemma goes_headers:
  assumes "stands s m v n q" "s \<in> line_states" "list_all valid_header hs"
    "n + length (concat (List.map print_header hs)) \<le> unat HTTP_MAX_HEADER_SIZE"
  shows "\<exists>q' s'. goes hc (concat (List.map print_header hs)) q u q' (u @ concat (List.map header_events hs)) \<and>
     s' \<in> line_states \<and> stands s' m v (n + length (concat (List.map print_header hs))) q'"
  using assms
proof (induction hs arbitrary: s n q u)
  case Nil
  then show ?case using goes_Nil by (auto simp: stands_def)
next
  case (Cons h hs)
  obtain q1 where q1: "goes hc (print_header h) q u q1 (u @ header_events h)"
      "stands s_header_value_lws m v (n + length (print_header h)) q1"
    using goes_header[OF Cons.prems(1,2), of h hc u] Cons.prems(3,4) by auto
  obtain q2 s2 where "goes hc (concat (List.map print_header hs)) q1 (u @ header_events h) q2
        ((u @ header_events h) @ concat (List.map header_events hs))" "s2 \<in> line_states"
      "stands s2 m v (n + length (print_header h) + length (concat (List.map print_header hs))) q2"
    using Cons.IH[OF q1(2), of "u @ header_events h"] Cons.prems(3,4) by (auto simp: line_states_def)
  with goes_append[OF q1(1)] show ?case by (auto simp: add.assoc intro!: exI)
qed

lemma goes_content_length:
  assumes "stands s m (a, b, c) n q" "s \<in> line_states" "ds \<noteq> []" "list_all IS_NUM ds"
    "dec_val ds \<le> content_length_limit"
    "n + length (print_header (''Content-Length'', ds)) \<le> unat HTTP_MAX_HEADER_SIZE"
  shows "\<exists>q'. goes hc (print_header (''Content-Length'', ds)) q u q' (u @ header_events (''Content-Length'', ds)) \<and>
     stands s_header_value_lws m (a, b, of_nat (dec_val ds)) (n + length (print_header (''Content-Length'', ds))) q'"
proof -
  let ?n = "''Content-Length''"
  have t: "\<forall>ch \<in> set ?n. TOKEN ch \<noteq> NUL" "List.map TOKEN ?n = CONTENT_LENGTH" by code_simp+
  obtain q1 where q1: "goes hc (?n @ '': '') q u q1 (u @ List.map (Byte Name) ?n)"
      "stands s_header_value_start m (a, b, c) (n + length ?n + 2) q1" "hp_header_state q1 = h_content_length"
    using goes_field[OF assms(1,2) _ t(1), of hc u] assms(6) t(2) by (auto simp: name_state_known)
  obtain q2 where "goes hc (ds @ [CR, LF]) q1 (u @ List.map (Byte Name) ?n) q2
        ((u @ List.map (Byte Name) ?n) @ List.map (Byte Value) ds)"
      "stands s_header_value_lws m (a, b, of_nat (dec_val ds)) (n + length ?n + 2 + length ds + 2) q2"
    using goes_length_value[OF q1(2,3) assms(3) _ assms(5), of hc "u @ List.map (Byte Name) ?n"] assms(4,6)
    by (auto simp: list_all_iff)
  with goes_append[OF q1(1)] show ?thesis by fastforce
qed

lemma goes_request_line:
  assumes "m \<noteq> HTTP_CONNECT" "list_all url_char w"
    "length (method_strings m) + length w + 13 \<le> unat HTTP_MAX_HEADER_SIZE"
  shows "\<exists>q. goes hc (method_strings m @ '' '' @ (CHR ''/'' # w) @ '' '' @ HTTP_1_1) (http_parser_init HTTP_REQUEST) u
       q (u @ Message_begin # List.map (Byte Url) (CHR ''/'' # w)) \<and>
     stands s_header_field_start m (1, 1, ULLONG_MAX) (length (method_strings m) + length w + 13) q"
proof -
  let ?k = "length (method_strings m)" and ?u = "u @ [Message_begin]"
  let ?u1 = "?u @ [Byte Url (CHR ''/'')]"
  let ?u2 = "?u1 @ List.map (Byte Url) w"
  obtain q1 where q1: "goes hc (method_strings m @ '' '') (http_parser_init HTTP_REQUEST) u q1 ?u"
      "stands s_req_spaces_before_url m (0, 0, ULLONG_MAX) (?k + 1) q1"
    using goes_method_line by blast
  obtain q2 where q2: "goes hc ''/'' q1 ?u q2 ?u1" "stands s_req_path m (0, 0, ULLONG_MAX) (?k + 2) q2"
    using goes_url_start[OF q1(2) assms(1), of hc ?u] assms(3) by auto
  obtain q3 s3 where q3: "goes hc w q2 ?u1 q3 ?u2" "s3 \<in> origin_states"
      "stands s3 m (0, 0, ULLONG_MAX) (?k + 2 + length w) q3"
    using goes_url[OF q2(2), of w hc ?u1] assms(2,3) by (auto simp: origin_states_def list_all_iff)
  obtain q4 where q4: "goes hc '' '' q3 ?u2 q4 ?u2" "stands s_req_http_start m (0, 0, ULLONG_MAX) (?k + length w + 3) q4"
    using goes_url_end[OF q3(3,2), of hc ?u2] assms(3) by (auto simp: numeral_3_eq_3)
  obtain q5 where q5: "goes hc HTTP_1_1 q4 ?u2 q5 ?u2"
      "stands s_header_field_start m (1, 1, ULLONG_MAX) (?k + length w + 13) q5"
    using goes_version[OF q4(2), of hc ?u2] assms(3) by (auto simp: add.assoc)
  show ?thesis
    using goes_append[OF q1(1) goes_append[OF q2(1) goes_append[OF q3(1) goes_append[OF q4(1) q5(1)]]]] q5(2)
    by auto
qed

text \<open>The length that the headers announce; without a body the parser keeps \<open>ULLONG_MAX\<close>.\<close>

definition told_length :: "request \<Rightarrow> 64 word" where
  "told_length r = (case rq_body r of None \<Rightarrow> ULLONG_MAX | Some (ds, b) \<Rightarrow> of_nat (length b))"

lemma goes_all_headers:
  assumes "valid_request r" "stands s_header_field_start m (1, 1, ULLONG_MAX) n q"
    "n + length (concat (List.map print_header (all_headers r))) \<le> unat HTTP_MAX_HEADER_SIZE"
  shows "\<exists>q' s'. goes hc (concat (List.map print_header (all_headers r))) q u q'
       (u @ concat (List.map header_events (all_headers r))) \<and> s' \<in> line_states \<and>
     stands s' m (1, 1, told_length r) (n + length (concat (List.map print_header (all_headers r)))) q'"
proof -
  let ?hs = "rq_headers r"
  let ?u = "u @ concat (List.map header_events ?hs)"
  have "list_all valid_header ?hs" using assms(1) by (simp add: valid_request_def)
  moreover have "s_header_field_start \<in> line_states" by (simp add: line_states_def)
  ultimately obtain q1 s1 where q1: "goes hc (concat (List.map print_header ?hs)) q u q1 ?u" "s1 \<in> line_states"
      "stands s1 m (1, 1, ULLONG_MAX) (n + length (concat (List.map print_header ?hs))) q1"
    using goes_headers[OF assms(2), of ?hs hc u] assms(3) by (auto simp: all_headers_def)
  show ?thesis
  proof (cases "rq_body r")
    case None
    with q1 show ?thesis by (auto simp: all_headers_def told_length_def)
  next
    case (Some p)
    obtain ds b where p: "p = (ds, b)" by (cases p)
    have d: "ds \<noteq> []" "list_all IS_NUM ds" "dec_val ds = length b" "length b \<le> content_length_limit"
      using assms(1) Some p by (simp_all add: valid_request_def)
    define h where "h = (''Content-Length'', ds)"
    have hs: "all_headers r = ?hs @ [h]" using Some p by (simp add: all_headers_def h_def)
    obtain q2 where q2: "goes hc (print_header h) q1 ?u q2 (?u @ header_events h)"
        "stands s_header_value_lws m (1, 1, of_nat (length b)) (n + length (concat (List.map print_header ?hs)) +
           length (print_header h)) q2"
      using goes_content_length[OF q1(3,2) d(1,2), of hc ?u, folded h_def] d(3,4) assms(3) hs by auto
    have "told_length r = of_nat (length b)" using Some p by (simp add: told_length_def)
    with goes_append[OF q1(1) q2(1)] q2(2) hs show ?thesis
      by (intro exI[of _ q2] exI[of _ s_header_value_lws]) (simp add: line_states_def add.assoc)
  qed
qed

lemma goes_head:
  assumes "valid_request r"
  shows "\<exists>q. goes (\<lambda>_. 0) (print_head r) (http_parser_init HTTP_REQUEST) u
       q (u @ Message_begin # List.map (Byte Url) (rq_url r) @ concat (List.map header_events (all_headers r)) @
          end_events (told_length r)) \<and>
     ended (headers_end (told_length r)) (rq_method r) (1, 1, told_length r) q"
proof -
  let ?m = "rq_method r" and ?H = "concat (List.map print_header (all_headers r))"
  let ?E = "concat (List.map header_events (all_headers r))"
  obtain w where w: "rq_url r = CHR ''/'' # w" using assms by (cases "rq_url r") (simp_all add: valid_request_def)
  have v: "?m \<noteq> HTTP_CONNECT" "list_all url_char w" using assms w by (simp_all add: valid_request_def)
  let ?n = "length (method_strings ?m) + length w + 13"
  have len: "?n + length ?H + 2 \<le> unat HTTP_MAX_HEADER_SIZE"
    using assms w by (simp add: valid_request_def print_head_def HTTP_1_1_def)
  let ?u1 = "u @ Message_begin # List.map (Byte Url) (rq_url r)"
  obtain q1 where q1: "goes (\<lambda>_. 0) (method_strings ?m @ '' '' @ rq_url r @ '' '' @ HTTP_1_1) (http_parser_init HTTP_REQUEST) u q1 ?u1"
      "stands s_header_field_start ?m (1, 1, ULLONG_MAX) ?n q1"
    using goes_request_line[OF v, of "\<lambda>_. 0" u] len w by auto
  obtain q2 s2 where q2: "goes (\<lambda>_. 0) ?H q1 ?u1 q2 (?u1 @ ?E)" "s2 \<in> line_states"
      "stands s2 ?m (1, 1, told_length r) (?n + length ?H) q2"
    using goes_all_headers[OF assms q1(2), of "\<lambda>_. 0" ?u1] len by auto
  obtain q3 where q3: "goes (\<lambda>_. 0) [CR] q2 (?u1 @ ?E) q3 (?u1 @ ?E)"
      "stands s_headers_almost_done ?m (1, 1, told_length r) (?n + length ?H + 1) q3"
    using goes_blank[OF q2(3,2), of "\<lambda>_. 0" "?u1 @ ?E"] len by auto
  obtain q4 where q4: "goes (\<lambda>_. 0) [LF] q3 (?u1 @ ?E) q4 ((?u1 @ ?E) @ end_events (told_length r))"
      "ended (headers_end (told_length r)) ?m (1, 1, told_length r) q4"
    using goes_headers_end[OF q3(2) _ v(1), of "?u1 @ ?E"] len by auto
  from goes_append[OF q1(1) goes_append[OF q2(1) goes_Cons[OF q3(1) q4(1)]]] q4(2) show ?thesis
    by (auto simp: print_head_def intro!: exI)
qed

lemma goes_request:
  assumes "valid_request r"
  shows "\<exists>q. goes (\<lambda>_. 0) (print_request r) (http_parser_init HTTP_REQUEST) u q (u @ request_events r) \<and>
     hp_state q = s_start_req \<and> hp_method q = rq_method r \<and> hp_http_major q = 1 \<and> hp_http_minor q = 1"
proof -
  let ?L = "told_length r"
  let ?v = "u @ Message_begin # List.map (Byte Url) (rq_url r) @ concat (List.map header_events (all_headers r)) @
     end_events ?L"
  obtain q where q: "goes (\<lambda>_. 0) (print_head r) (http_parser_init HTTP_REQUEST) u q ?v"
      "ended (headers_end ?L) (rq_method r) (1, 1, ?L) q"
    using goes_head[OF assms] by blast
  show ?thesis
  proof (cases "body_of r = []")
    case True
    then have "?L = 0 \<or> ?L = ULLONG_MAX" by (auto simp: told_length_def body_of_def split: option.splits)
    with q True show ?thesis
      by (auto simp: print_request_def request_events_def headers_end_def end_events_def ended_def told_def intro!: exI)
  next
    case False
    then obtain ds where b: "rq_body r = Some (ds, body_of r)" by (auto simp: body_of_def split: option.splits)
    have le: "length (body_of r) \<le> content_length_limit" using assms b by (simp add: valid_request_def)
    obtain k where k: "length (body_of r) = Suc k" using False by (cases "body_of r") auto
    have L: "?L = of_nat (length (body_of r))" "?L \<noteq> 0" "?L \<noteq> ULLONG_MAX"
      using b length_words[of k] le k by (simp_all add: told_length_def del: of_nat_Suc)
    then have "ended s_body_identity (rq_method r) (1, 1, of_nat (length (body_of r))) q"
      using q(2) by (simp add: headers_end_def)
    from goes_body[OF goes_good[OF q(1)] this False le] obtain q' where
      "goes (\<lambda>_. 0) (body_of r) q ?v q' (?v @ List.map (Byte Body) (body_of r) @ [Message_complete])"
      "ended s_start_req (rq_method r) (1, 1, 0) q'" by blast
    with goes_append[OF q(1)] L show ?thesis
      by (auto simp: print_request_def request_events_def end_events_def ended_def told_def intro!: exI)
  qed
qed

section \<open>Properties\<close>

text \<open>
  C5 Printing and parsing: for a request with any method but \<open>CONNECT\<close>, a path, any headers that the parser
  does not interpret and a body that a \<open>Content-Length\<close> announces, one call of \<open>http_parser_execute\<close> on the
  printed text takes all of it without an error and reports the URL, the names and values of the headers
  and the body, byte for byte and in order, between \<open>on_message_begin\<close> and \<open>on_message_complete\<close>. The
  parser then knows the method and the version and is ready for the next request.
\<close>

theorem request_round_trip:
  assumes "valid_request r"
  shows "case http_parser_execute (recorder (\<lambda>_. 0) (print_request r)) (http_parser_init HTTP_REQUEST) u (print_request r)
     of (q, log, e) \<Rightarrow> log = u @ request_events r \<and> e = Parsed (length (print_request r)) \<and> hp_errno q = HPE_OK \<and>
       hp_method q = rq_method r \<and> hp_http_major q = 1 \<and> hp_http_minor q = 1 \<and> hp_state q = s_start_req"
proof -
  let ?d = "print_request r"
  obtain q where q: "goes (\<lambda>_. 0) ?d (http_parser_init HTTP_REQUEST) u q (u @ request_events r)"
      "hp_state q = s_start_req" "hp_method q = rq_method r" "hp_http_major q = 1" "hp_http_minor q = 1"
    using goes_request[OF assms] by blast
  have "?d \<noteq> []" by (simp add: print_request_def print_head_def)
  then have "agree 0 (http_parser_execute (recorder (\<lambda>_. 0) ?d) (http_parser_init HTTP_REQUEST) u ?d)
      (feed (\<lambda>_. 0) (http_parser_init HTTP_REQUEST) u ?d)"
    using init_in_header[of HTTP_REQUEST] by (intro execute_agrees) (simp_all add: in_header_def)
  with q show ?thesis
    by (cases "http_parser_execute (recorder (\<lambda>_. 0) ?d) (http_parser_init HTTP_REQUEST) u ?d")
      (auto simp: goes_def split: exec_end.splits)
qed

definition sample_request :: request where
  "sample_request = \<lparr>rq_method = HTTP_POST, rq_url = ''/a?b=1'',
     rq_headers = [(''Host'', ''luaw''), (''Accept'', ''*'')], rq_body = Some (''05'', ''hello'')\<rparr>"

lemma sample_valid: "valid_request sample_request"
proof -
  have "list_all url_char (rq_url sample_request)" "list_all IS_NUM ''05''" by code_simp+
  moreover have "list_all valid_header (rq_headers sample_request)" by code_simp
  moreover have "length (print_head sample_request) = 67"
    by (simp add: print_head_def sample_request_def all_headers_def HTTP_1_1_def)
  ultimately show ?thesis
    by (simp add: valid_request_def HTTP_MAX_HEADER_SIZE_def)
      (simp add: sample_request_def dec_val_def digit_val_def byte_val_def content_length_limit_def)
qed

theorem request_round_trip_witness:
  "case http_parser_execute (recorder (\<lambda>_. 0) (print_request sample_request)) (http_parser_init HTTP_REQUEST) [] (print_request sample_request)
     of (q, log, e) \<Rightarrow> log = [] @ request_events sample_request \<and> e = Parsed (length (print_request sample_request)) \<and> hp_errno q = HPE_OK \<and>
       hp_method q = rq_method sample_request \<and> hp_http_major q = 1 \<and> hp_http_minor q = 1 \<and> hp_state q = s_start_req"
  by (rule request_round_trip[OF sample_valid])

end
