(* ===== verification/Luaw_Stream.thy ===== *)
theory Luaw_Stream
  imports Luaw_Suspend Http_Roundtrip
begin

text \<open>
  A stream through \<open>parse_http\<close>. \<open>tracks\<close> says that a call with suspending callbacks reports a first part of
  what the recorder would log, and that the suspended parser, resumed, logs the rest. By induction the calls that
  use up a buffer report everything, so that Lua sees what was sent.
\<close>

section \<open>A call that suspends, and the rest of the stream\<close>

lemma first_byte_as_rec: "first_byte (as_rec u c) = as_rec u (first_byte c)"
  by (simp add: first_byte_def as_rec_def)

text \<open>Inside a body the suspending parser, too, may take the first byte alone.\<close>

lemma luaw_body_dispatch:
  assumes "hp_errno (parser c) = HPE_OK" "hp_state (parser c) \<in> body_states"
  shows "snd (dispatch parser_settings len ch c) \<noteq> Reexecute"
proof -
  let ?c = "set_state s_message_done (take_body len c)"
  have "body_mark ?c \<noteq> None" by (cases "body_mark c") (auto simp: take_body_def Let_def MARK_def
      set_state_def)
  with assms show ?thesis
    by (auto simp: body_states_def dispatch_def do_body_identity_def do_body_identity_eof_def do_chunk_data_def
        ASSERT_def Let_def luaw_data report_def take_body_fields split: if_splits)
qed

lemma run_byte_once: "snd (dispatch S len ch c) \<noteq> Reexecute \<Longrightarrow> run_byte (Suc n) S len ch c
    = dispatch S len ch c"
  by (auto split: prod.split ctl.split)

lemma luaw_exec_loop_first:
  assumes "fine 0 c" "hp_state (parser c) \<in> body_states" "pos c < length data" "\<not> one_byte (length data) c"
  shows "exec_loop parser_settings data c = exec_loop parser_settings data (first_byte c)"
proof -
  have ok: "hp_errno (parser c) = HPE_OK" "hp_errno (parser (first_byte c)) = HPE_OK"
    using assms(1) by (simp_all add: ctx_ok_def first_byte_def)
  have f: "hp_state (parser (first_byte c)) \<in> body_states" "pos (first_byte c) = pos c + 1"
    using assms(2) by (auto simp: first_byte_def)
  have "run_byte reexecute_bound parser_settings (length data) ch' (first_byte c)
      = run_byte reexecute_bound parser_settings (length data) ch c" for ch ch'
    using run_byte_once[OF luaw_body_dispatch[OF ok(1) assms(2)], where n = 4]
      run_byte_once[OF luaw_body_dispatch[OF ok(2) f(1)], where n = 4] dispatch_first(1)[OF assms]
    by (simp add: reexecute_bound_def del: run_byte.simps)
  from this[of "data ! pos (first_byte c)" "data ! pos c"] show ?thesis
    using body_not_counted[OF assms(2)] body_not_counted[OF f(1)] dispatch_first(2)[OF assms] f(2) assms(3)
    by (simp add: exec_loop_round)
qed

text \<open>At the end of the buffer an unfinished item is reported.\<close>

lemma luaw_after_loop:
  assumes "fine 0 c" "pos c = len" "cb_type (udata c) = http_cb_none"
  shows "\<exists>q i. after_loop parser_settings len c = (q, i, Parsed len) \<and> hp_errno q \<in> {HPE_OK,
      HPE_PAUSED} \<and>
    q\<lparr>hp_errno := HPE_OK\<rparr> = parser c \<and> u @ told_by data i = flushed data (as_rec u c)"
proof -
  have ok: "hp_errno (parser c) = HPE_OK" "marks_ok c" using assms(1) by (simp_all add: ctx_ok_def)
  have e: "(parser c)\<lparr>hp_errno := HPE_OK\<rparr> = parser c" using ok(1) by (metis http_parser.surjective
      http_parser.update_convs(12) http_parser.select_convs(12))
  consider "no_marks c" | "no_marks (c\<lparr>header_field_mark := None\<rparr>)" | "no_marks
      (c\<lparr>header_value_mark := None\<rparr>)"
    | "no_marks (c\<lparr>url_mark := None\<rparr>)" | "no_marks (c\<lparr>body_mark := None\<rparr>)"
    | "no_marks (c\<lparr>status_mark := None\<rparr>)"
    using marks_by_state[OF ok(2)] by blast
  then show ?thesis
    using ok(1) assms(2,3) one_mark[OF assms(1)] e
    by cases (auto simp: no_marks_def after_loop_def ASSERT_def luaw_data report_def finish_def flushed_def
        told_by_def
        pending_def suspend_def split: option.split)
qed

text \<open>
  A call from the context \<open>c\<close>, with the events \<open>u\<close> reported before it, in a run that
      the recorder ends with the
  parser \<open>q1\<close> and the log \<open>u1\<close>: it ends suspended or at the end of the buffer, and
      what it reports and what
  is then logged from its end on make up \<open>u1\<close>.
\<close>

definition tracks :: "string \<Rightarrow> event list \<Rightarrow> callback_info exec_ctx \<Rightarrow>
    http_parser \<Rightarrow> event list \<Rightarrow> callback_info exec_result \<Rightarrow> bool" where
  "tracks data u c q1 u1 res \<longleftrightarrow> (\<exists>q i n. res = (q, i, Parsed n) \<and> pos c \<le> n
      \<and> n \<le> length data \<and>
     (hp_errno q = HPE_OK \<and> n = length data \<or> hp_errno q = HPE_PAUSED) \<and> \<not> hp_upgrade q \<and>
     unat (hp_nread q) + pos c \<le> unat (hp_nread (parser c)) + n + (if settled (hp_state q) then 1 else 0) \<and>
     (\<exists>q2 e. feed0 (q\<lparr>hp_errno := HPE_OK\<rparr>) (u @ told_by data i) (drop n data) = (q2, u1,
         e) \<and> nread_at 0 q2 = nread_at 0 q1))"

lemma tracks_later:
  "tracks data u d q1 u1 res \<Longrightarrow> pos d = Suc (pos c) \<Longrightarrow> unat (hp_nread (parser d))
      \<le> unat (hp_nread (parser c)) + 1 \<Longrightarrow>
     tracks data u c q1 u1 res"
  unfolding tracks_def by (elim exE) (rule exI, rule exI, rule exI, auto)

lemma count_byte_nread:
  "unat (hp_nread (parser c)) < unat HTTP_MAX_HEADER_SIZE \<Longrightarrow>
     unat (hp_nread (parser (count_byte c))) \<le> unat (hp_nread (parser c)) + 1 \<and> \<not> header_overflow c"
  by (auto simp: count_byte_def header_overflow_def HTTP_MAX_HEADER_SIZE_def unat_word_ariths word_less_nat_alt)

text \<open>In such a run no byte stops the recorder.\<close>

lemma feed_single_stop:
  assumes "step_ok len (\<lambda>_. True) 0 (d, k)" "flow_ok (d, k)" "k \<noteq> Next"
    "http_parser_execute (rec [ch]) q u [ch] = continue (rec [ch]) data' (proj data d, proj_ctl (pos d) k)"
    "feed0 q u (ch # cs) = (q1, u1, e)" "hp_errno q1 = HPE_OK" "\<not> hp_upgrade q1"
  shows False
proof -
  obtain q2 u2 e2 where one: "http_parser_execute (rec [ch]) q u [ch] = (q2, u2, e2)" by (cases
      "http_parser_execute (rec [ch]) q u [ch]")
  have "agree (pos d) (finish (d, k)) (q2, u2, e2)"
    unfolding one[symmetric] assms(4) by (rule single_stop(1)[OF assms(1-3)])
  then have "q2 = fst (finish (d, k))" by (cases "finish (d, k)") simp
  with single_stop(2)[OF assms(1-3)] one feed_Cons(2)[OF one] assms(5-7) show False by auto
qed

lemma no_marks_flushed: "no_marks c \<Longrightarrow> flushed data (c\<lparr>pos := p\<rparr>) = udata c"
  by (simp add: no_marks_def flushed_def)

text \<open>The byte was reported before it was used: the next call sees it again.\<close>

lemma byte_again:
  assumes "fine 1 e" "settled (hp_state (parser e))" "no_marks e" "pos e < length data"
    "flow_ok (dispatch (rec data) (length data) (data ! pos e) e)"
    "step_ok (length data) (\<lambda>_. True) 0 (dispatch (rec data) (length data) (data ! pos e) e)"
    "http_parser_execute (rec [data ! pos e]) q v [data ! pos e] =
       (case dispatch (rec data) (length data) (data ! pos e) e of
          (d, k) \<Rightarrow> continue (rec [data ! pos e]) [data ! pos e] (proj data d, proj_ctl (pos e) k))"
    "feed0 q v (data ! pos e # cs) = (q1, u1, m)" "hp_errno q1 = HPE_OK" "\<not> hp_upgrade q1"
    "unat (hp_nread (parser e)) + length cs + 1 \<le> unat HTTP_MAX_HEADER_SIZE"
  shows "\<not> hp_upgrade (parser e)" "\<exists>q2 m'. feed0 (parser e) (udata e) (data ! pos e # cs) = (q2,
      u1, m') \<and> nread_at 0 q2 = nread_at 0 q1"
proof -
  let ?ch = "data ! pos e" and ?n = "length data"
  obtain d k where d: "dispatch (rec data) ?n ?ch e = (d, k)" by fastforce
  have ok: "hp_errno (parser e) = HPE_OK" using assms(1) by (simp add: ctx_ok_def)
  have b: "hp_state (parser e) \<notin> body_states" "hp_state (parser e) \<noteq> s_chunk_size_start"
    using assms(2) by (auto simp: settled_def body_states_def)
  have p: "pos d = pos e" using pos_dispatch_header[OF b(1), of "rec data" ?n ?ch] d by simp
  have k: "k = Next"
    using feed_single_stop[of ?n d k ?ch q v "[?ch]" data cs q1 u1 m] assms(5-10) d p by (cases "k = Next") simp_all
  show up: "\<not> hp_upgrade (parser e)"
  proof
    assume a: "hp_upgrade (parser e)"
    have "\<not> hp_upgrade (parser d)" using assms(5) d k by simp
    moreover have "hp_upgrade (parser d)"
      using assms(2) a d k ok by (auto simp: settled_def dispatch_def do_header_almost_done_def
          do_headers_done_def do_message_done_def
          STRICT_CHECK_def fail_def Let_def recorder_notify set_state_def add_flag_def split: if_splits
              header_states.splits)
    ultimately show False by simp
  qed
  have fd: "fine 0 d" using assms(6) d k by simp
  have fe: "fine 0 e" "marks_set e" "one_byte ?n e"
    using assms(1-3) b by (auto simp: ctx_ok_def wf_at_def marks_set_def no_marks_def settled_def url_states_def
        one_byte_def)
  have cb: "unat (hp_nread (parser (count_byte e))) \<le> unat (hp_nread (parser e)) + 1" "\<not> header_overflow e"
    using count_byte_nread[of e] assms(11) by simp_all
  let ?c = "count_byte e"
  have fc: "fine 1 ?c" using recorder.count_byte_ok[OF fe(1) cb(2)] .
  obtain d' k' where d': "run_byte reexecute_bound (rec data) ?n ?ch ?c = (d', k')" by fastforce
  have "run_byte reexecute_bound (rec data) ?n ?ch ?c = dispatch (rec data) ?n ?ch ?c"
    using settled_dispatch(2)[of ?c 4 data ?n ?ch] assms(2) ok by (simp add: reexecute_bound_def count_byte_def)
  then have s: "count_at 0 d' = count_at 0 d" "k' = Next"
    using same_dispatch[OF at_count_byte fc assms(1), of data ?n ?ch] d d' k by (simp_all add: eq_commute[of
        "(d', k')"])
  note r = single_round[OF fe(1,2) up assms(4) fe(3) cb(2) d'[unfolded s(2)]]
  have fd': "fine 0 d'" using r(4) by simp
  have one': "http_parser_execute (rec [?ch]) (parser e) (udata e) [?ch] = (parser d', flushed data
      (d'\<lparr>pos := pos e + 1\<rparr>), Parsed 1)"
    using r(1) single_next[OF fd', of data "\<lambda>_. 0"] r(3) assms(3,4) no_marks_flushed[OF assms(3), of
        data "pos e"] by simp
  have one: "http_parser_execute (rec [?ch]) q v [?ch] = (parser d, flushed data (d\<lparr>pos := pos e +
      1\<rparr>), Parsed 1)"
    using assms(7) single_next[OF fd, of data "\<lambda>_. 0"] d k p assms(4) by simp
  have fl: "flushed data (d'\<lparr>pos := pos e + 1\<rparr>) = flushed data (d\<lparr>pos := pos e + 1\<rparr>)"
    by (rule same_flushed) (use s(1) in simp)
  have okd: "hp_errno (parser d) = HPE_OK" "\<not> hp_upgrade (parser d)" "wf_parser (parser d)"
    "hp_errno (parser d') = HPE_OK" "\<not> hp_upgrade (parser d')" "wf_parser (parser d')"
    using fd fd' assms(5) r(2) d k by (simp_all add: ctx_ok_def)
  obtain m2 where f: "feed0 (parser d) (flushed data (d\<lparr>pos := pos e + 1\<rparr>)) cs = (q1, u1, m2)"
    using feed_stops[OF assms(8-10)] one by (metis prod.inject)
  have "unat (hp_nread (parser d')) \<le> unat (hp_nread (parser ?c))"
    using nread_run_byte[of reexecute_bound data ?n ?ch ?c] d' by simp
  then have "unat (hp_nread (parser d')) + length cs \<le> unat HTTP_MAX_HEADER_SIZE" using cb(1) assms(11) by simp
  from feed_count[OF f assms(9,10) same_fields(8)[OF s(1), symmetric] okd(3,6,1) this] obtain q2 where
    "feed0 (parser d') (flushed data (d\<lparr>pos := pos e + 1\<rparr>)) cs = (q2, u1, m2)" "nread_at 0 q2 =
        nread_at 0 q1" by blast
  with feed_Cons(1)[OF one' okd(4,5)] fl show "\<exists>q2 m'. feed0 (parser e) (udata e) (?ch # cs) = (q2, u1,
      m') \<and> nread_at 0 q2 = nread_at 0 q1"
    by (cases m2) auto
qed

lemma flushed_as_rec [simp]: "udata c = u \<Longrightarrow> flushed data (as_rec u' c) = u' @ drop (length u)
    (flushed data c)"
  by (simp add: flushed_def)

lemma errno_ok_id: "hp_errno q = HPE_OK \<Longrightarrow> q\<lparr>hp_errno := HPE_OK\<rparr> = q"
  by (metis http_parser.surjective http_parser.update_convs(12) http_parser.select_convs(12))

text \<open>One byte of a call that is not in the bulk of a body.\<close>

lemma tracks_round:
  assumes "fine 0 c" "marks_set c" "\<not> hp_upgrade (parser c)" "pos c < length data" "one_byte (length data) c"
    "unat (hp_nread (parser c)) + (length data - pos c) + 1 \<le> unat HTTP_MAX_HEADER_SIZE"
    "feed0 (parser c) (flushed data (as_rec u c)) (drop (pos c) data) = (q1, u1, m)"
    "hp_errno q1 = HPE_OK" "\<not> hp_upgrade q1"
  obtains (stop) "tracks data u c q1 u1 (exec_loop parser_settings data c)"
  | (go) d m' where "exec_loop parser_settings data c = exec_loop parser_settings data d" "fine 0 d" "marks_set d"
      "\<not> hp_upgrade (parser d)" "pos d = Suc (pos c)" "udata d = udata c"
      "unat (hp_nread (parser d)) \<le> unat (hp_nread (parser c)) + 1"
      "feed0 (parser d) (flushed data (as_rec u d)) (drop (pos d) data) = (q1, u1, m')"
proof -
  let ?n = "length data" and ?ch = "data ! pos c" and ?c = "count_byte c"
  let ?cs = "drop (Suc (pos c)) data"
  have cb: "unat (hp_nread (parser ?c)) \<le> unat (hp_nread (parser c)) + 1" "\<not> header_overflow c"
    using count_byte_nread[of c] assms(6) by simp_all
  have fc: "fine 1 ?c" using recorder.count_byte_ok[of "as_rec u c"] assms(1) cb(2) by (simp flip: as_rec_count)
  obtain d k where d: "run_byte reexecute_bound parser_settings ?n ?ch ?c = (d, k)" by fastforce
  obtain e l where e: "run_byte reexecute_bound (rec data) ?n ?ch (count_byte (as_rec u c)) = (e, l)" by fastforce
  have p: "byte_pair data u ?c ?ch (d, k) (e, l)"
    using pair_run_byte[OF fc _ reexec_rank_bound, of data u ?ch] assms(4) d e by (simp add: as_rec_count)
  note r = single_round[where c = "as_rec u c" and hc = "\<lambda>_. 0" and data = data, simplified, OF
      assms(1-5) cb(2) e]
  have f: "feed0 (parser c) (flushed data (as_rec u c)) (?ch # ?cs) = (q1, u1, m)"
    using assms(4,7) by (simp add: Cons_nth_drop_Suc)
  have nd: "unat (hp_nread (parser d)) \<le> unat (hp_nread (parser c)) + 1" using p cb(1) by (simp add:
      byte_pair_def)
  have bad: False if "l \<noteq> Next"
    using feed_single_stop[OF r(4,2) that _ f assms(8,9), of "[?ch]" data] r(1,3) by simp
  show ?thesis
  proof (cases "hp_errno (parser d) = HPE_PAUSED")
    case False
    with p have q: "e = as_rec u d" "l = k" "udata d = udata c" by (simp_all add: byte_pair_def) (simp_all add:
        count_byte_def)
    have k: "k = Next" using bad q(2) by blast
    let ?d = "d\<lparr>pos := pos d + 1\<rparr>"
    have fe: "fine 0 e" "marks_set d" "\<not> hp_upgrade (parser d)" "pos d = pos c" using r(2-4) q k by simp_all
    have one: "http_parser_execute (rec [?ch]) (parser c) (flushed data (as_rec u c)) [?ch] =
        (parser d, flushed data (as_rec u ?d), Parsed 1)"
      using r(1) single_next[OF fe(1), of data "\<lambda>_. 0"] q k fe(4) assms(4) by simp
    obtain m' where "feed0 (parser d) (flushed data (as_rec u ?d)) ?cs = (q1, u1, m')"
      by (rule feed_stops[OF f assms(8,9)]) (use one in auto)
    moreover have "fine 0 d" using fe(1) q(1) by simp
    then have "fine 0 ?d" by (rule ctx_ok_advance)
    moreover have "exec_loop parser_settings data c = exec_loop parser_settings data ?d"
      using exec_loop_next[OF assms(4) cb(2) d[unfolded k]] .
    ultimately show ?thesis
      using go[of ?d m'] fe(2-4) q(3) nd by (simp add: marks_set_def)
  next
    case True
    with p obtain e' ret where q: "k = Return ret" "parser e' = (parser d)\<lparr>hp_errno := HPE_OK\<rparr>"
        "no_marks e'" "pos e' = pos d"
        "udata e' = u @ told_by data (udata d)"
      and c: "ret = pos d + 1 \<and> (e, l) = (e', Next) \<or> ret = pos d \<and> settled (hp_state (parser e'))
          \<and> fine 1 e' \<and>
         (e, l) = dispatch (rec data) ?n ?ch e' \<or> (\<exists>n. l = Return n)"
      by (auto simp: byte_pair_def)
    have x: "exec_loop parser_settings data c = (parser d, udata d, Parsed ret)"
      using exec_loop_stop[OF assms(4) cb(2) d] q(1) by (simp add: finish_def)
    from c consider "ret = pos d + 1" "e = e'" "l = Next" | "ret = pos d" "settled (hp_state (parser e'))" "fine
        1 e'"
        "dispatch (rec data) ?n ?ch e' = (e, l)"
      using bad by (metis ctl.distinct(5) prod.inject)
    then show ?thesis
    proof cases
      case 1
      then have pd: "pos d = pos c" "pos e' = pos c" using r(3) q(4) by simp_all
      have one: "http_parser_execute (rec [?ch]) (parser c) (flushed data (as_rec u c)) [?ch] = (parser e',
          udata e', Parsed 1)"
        using r(1,4) single_next[of e' data "\<lambda>_. 0"] 1 pd assms(4) no_marks_flushed[OF q(3)] by simp
      obtain m' where "feed0 (parser e') (udata e') ?cs = (q1, u1, m')"
        by (rule feed_stops[OF f assms(8,9)]) (use one in auto)
      with x 1 pd q nd True r(2) assms(4) show ?thesis
        by (intro stop) (simp add: tracks_def)
    next
      case 2
      then have "pos e = pos e'" using pos_dispatch_header[of e' "rec data" ?n ?ch] by (auto simp: settled_def
          body_states_def)
      then have pd: "pos d = pos c" "pos e' = pos c" using r(3) q(4) by simp_all
      have "unat (hp_nread (parser e')) + length ?cs + 1 \<le> unat HTTP_MAX_HEADER_SIZE"
        using nd q(2) assms(4,6) by simp
      note a = byte_again[OF 2(3,2) q(3), of data "parser c" "flushed data (as_rec u c)" ?cs q1 u1 m, OF _ _ _ _
          _ assms(8,9) this]
      have "\<not> hp_upgrade (parser e') \<and> (\<exists>q2 m'. feed0 (parser e') (udata e') (?ch # ?cs) =
          (q2, u1, m') \<and> nread_at 0 q2 = nread_at 0 q1)"
        using a assms(4) r(1,2,4) 2(4) pd f by simp
      with x 2 pd q nd True assms(4) show ?thesis
        by (intro stop) (auto simp: tracks_def Cons_nth_drop_Suc)
    qed
  qed
qed

lemma tracks_exec_loop:
  "fine 0 c \<Longrightarrow> marks_set c \<Longrightarrow> \<not> hp_upgrade (parser c) \<Longrightarrow> pos c
      \<le> length data \<Longrightarrow> cb_type (udata c) = http_cb_none \<Longrightarrow>
    unat (hp_nread (parser c)) + (length data - pos c) + 1 \<le> unat HTTP_MAX_HEADER_SIZE \<Longrightarrow>
    feed0 (parser c) (flushed data (as_rec u c)) (drop (pos c) data) = (q1, u1, m) \<Longrightarrow>
    hp_errno q1 = HPE_OK \<Longrightarrow> \<not> hp_upgrade q1 \<Longrightarrow> tracks data u c q1 u1
        (exec_loop parser_settings data c)"
proof (induction "length data - pos c" arbitrary: c m rule: less_induct)
  case less
  let ?n = "length data"
  note c = less.prems(1-3)
  consider "pos c = ?n" | "pos c < ?n" "\<not> one_byte ?n c" | "pos c < ?n" "one_byte ?n c"
    using less.prems(4) by linarith
  then show ?case
  proof cases
    case 1
    from luaw_after_loop[OF c(1) 1 less.prems(5), of u data] obtain q i where
      "after_loop parser_settings ?n c = (q, i, Parsed ?n)" "hp_errno q \<in> {HPE_OK, HPE_PAUSED}"
      "q\<lparr>hp_errno := HPE_OK\<rparr> = parser c" "u @ told_by data i = flushed data (as_rec u c)" by blast
    moreover from this(3) have "hp_nread q = hp_nread (parser c)" "hp_upgrade q = hp_upgrade (parser c)"
      by (metis http_parser.select_convs(6,13) http_parser.surjective http_parser.update_convs(12))+
    ultimately show ?thesis using 1 c(3) less.prems(7) by (auto simp: exec_loop_end tracks_def)
  next
    case 2
    then have b: "hp_state (parser c) \<in> body_states" by (auto simp: one_byte_def body_states_def)
    have p: "pos (first_byte c) = Suc (pos c)" by (simp add: first_byte_def)
    note f = first_byte_fine[OF c(1) b 2 c(2,3)]
    have i: "udata (first_byte c) = udata c" "hp_nread (parser (first_byte c)) = hp_nread (parser c)"
      by (simp_all add: first_byte_def)
    have one: "http_parser_execute (rec [data ! pos c]) (parser c) (flushed data (as_rec u c)) [data ! pos c] =
        (parser (first_byte c), flushed data (as_rec u (first_byte c)), Parsed 1)"
      using single_first[of "as_rec u c" data "\<lambda>_. 0"] c b 2 by (simp add: first_byte_as_rec)
    have "feed0 (parser c) (flushed data (as_rec u c)) (data ! pos c # drop (Suc (pos c)) data) = (q1, u1, m)"
      using less.prems(7) 2(1) by (simp add: Cons_nth_drop_Suc)
    from feed_stops[OF this less.prems(8,9)] one obtain m' where
      "feed0 (parser (first_byte c)) (flushed data (as_rec u (first_byte c))) (drop (Suc (pos c)) data) = (q1,
          u1, m')"
      by (metis prod.inject)
    then have "tracks data u (first_byte c) q1 u1 (exec_loop parser_settings data (first_byte c))"
      using less.prems(4-6,8,9) 2(1) i p by (intro less.hyps[OF _ f]) simp_all
    from tracks_later[OF this p] i luaw_exec_loop_first[OF c(1) b 2] show ?thesis by simp
  next
    case 3
    from tracks_round[OF c 3 less.prems(6-9)] show ?thesis
    proof cases
      case 1
      then show ?thesis .
    next
      case go: (2 d m')
      have "tracks data u d q1 u1 (exec_loop parser_settings data d)"
        by (rule less.hyps[OF _ go(2-4) _ _ _ go(8)]) (use go(5-7) 3(1) less.prems(5,6,8,9) in simp_all)
      from tracks_later[OF this go(5,7)] go(1) show ?thesis by simp
    qed
  qed
qed

text \<open>What Lua learns from a result of \<open>parse_http\<close>.\<close>

fun reported :: "parse_result \<Rightarrow> event list" where
  "reported (parse_result.Headers_complete off ka ma mi m st) = [event.Headers_complete]"
| "reported (parse_result.Message_complete off ka) = [event.Message_complete]"
| "reported (Part cb off s) = (case cb of
     http_cb_on_message_begin \<Rightarrow> [Message_begin]
   | http_cb_on_status \<Rightarrow> map (Byte Status) s
   | http_cb_on_url \<Rightarrow> map (Byte Url) s
   | http_cb_on_header_field \<Rightarrow> map (Byte Name) s
   | http_cb_on_header_value \<Rightarrow> map (Byte Value) s
   | http_cb_on_body \<Rightarrow> map (Byte Body) s
   | _ \<Rightarrow> [])"
| "reported _ = []"

lemma push_results_reported:
  assumes "push_results lp data off = Some r"
  shows "reported r = told_by data (lh_info lp)" "result_offset r = Some off"
  using assms by (auto simp: push_results_def told_by_def Let_def split: http_parser_cb_type.splits
      option.splits if_splits)

lemma parse_http_tracks:
  assumes "lp_ok lp" "0 \<le> offset" "offset < int (length buff)" "\<not> hp_upgrade (lh_parser lp)"
    "unat (hp_nread (lh_parser lp)) + work lp buff offset \<le> unat HTTP_MAX_HEADER_SIZE"
    "feed0 (lh_parser lp) u (drop (nat offset) buff) = (q1, u1, m)" "hp_errno q1 = HPE_OK" "\<not> hp_upgrade q1"
    "parse_http lp buff offset = (lp', r)"
  shows "\<exists>off q2 m'. result_offset r = Some off \<and> offset \<le> off \<and> off \<le> int (length
      buff) \<and> lp_ok lp' \<and>
    work lp' buff off < work lp buff offset \<and> \<not> hp_upgrade (lh_parser lp') \<and>
    unat (hp_nread (lh_parser lp')) + work lp' buff off \<le> unat HTTP_MAX_HEADER_SIZE \<and>
    feed0 (lh_parser lp') (u @ reported r) (drop (nat off) buff) = (q2, u1, m') \<and> nread_at 0 q2 = nread_at
        0 q1"
proof -
  let ?data = "drop (nat offset) buff" and ?info = "(lh_info lp)\<lparr>cb_type := http_cb_none\<rparr>" and ?q
      = "lh_parser lp"
  let ?c = "enter ?q ?info"
  have ne: "?data \<noteq> []" using assms(2,3) by auto
  have ok: "wf_parser ?q" "hp_errno ?q = HPE_OK" using assms(1) by (simp_all add: lp_ok_def)
  have "fine 0 ?c" using enter_ok[where Q = "\<lambda>_. True"] ok by simp
  moreover have "marks_set ?c" "parser ?c = ?q" "pos ?c = 0" "udata ?c = ?info" "flushed ?data (as_rec u ?c) = u"
    by (simp_all add: enter_def marks_set_def flushed_def pending_def as_rec_def)
  ultimately have c: "fine 0 ?c" "marks_set ?c" "parser ?c = ?q" "pos ?c = 0" "udata ?c = ?info"
      "flushed ?data (as_rec u ?c) = u" by blast+
  have "unat (hp_nread ?q) + length ?data + 1 \<le> unat HTTP_MAX_HEADER_SIZE"
    using assms(2,3,5) by (simp add: work_def split: if_splits)
  then have "tracks ?data u ?c q1 u1 (exec_loop parser_settings ?data ?c)"
    using c assms(4,6-8) by (intro tracks_exec_loop) simp_all
  then obtain q i n q2 m' where x: "http_parser_execute parser_settings ?q ?info ?data = (q, i, Parsed n)" "n
      \<le> length ?data"
      "hp_errno q = HPE_OK \<and> n = length ?data \<or> hp_errno q = HPE_PAUSED" "\<not> hp_upgrade q"
      "unat (hp_nread q) \<le> unat (hp_nread ?q) + n + (if settled (hp_state q) then 1 else 0)"
      "feed0 (q\<lparr>hp_errno := HPE_OK\<rparr>) (u @ told_by ?data i) (drop n ?data) = (q2, u1, m')"
          "nread_at 0 q2 = nread_at 0 q1"
    using ok ne c by (auto simp: tracks_def http_parser_execute_def)
  from parse_http_ok[OF assms(1-3,9)] show ?thesis
  proof (elim disjE exE conjE)
    fix e k assume "r = Parse_error e k" "e \<notin> {HPE_OK, HPE_PAUSED}"
    with assms(2,3,9) x(1,3) show ?thesis
      by (auto simp: parse_http_def Let_def dest!: push_results_reported(2) split: if_splits option.splits)
  next
    fix off assume o: "result_offset r = Some off" "offset \<le> off" "off \<le> int (length buff)" "lp_ok lp'"
        "work lp' buff off < work lp buff offset"
    have r: "off = offset + int n \<and> lh_parser lp' = q\<lparr>hp_errno := HPE_OK\<rparr> \<and> reported r =
        told_by ?data i"
    proof -
      let ?lp = "\<lparr>lh_parser = q, lh_info = i\<rparr>"
      have ab: "\<not> cb_abort i" using o(1) assms(2,3,9) x(1) by (auto simp: parse_http_def Let_def)
      have rem: "\<not> (int (length buff) - (offset + int n) > 0 \<and> hp_errno q \<noteq> HPE_PAUSED)"
        using o(1) assms(2,3,9) x(1) ab by (auto simp: parse_http_def Let_def split: if_splits)
      have p: "http_parser_pause q False = Some (q\<lparr>hp_errno := HPE_OK\<rparr>)"
        using x(3) by (auto simp: http_parser_pause_def)
      obtain r' where r': "push_results ?lp ?data (offset + int n) = Some r'" "r = r'" "lh_parser lp' =
          q\<lparr>hp_errno := HPE_OK\<rparr>"
        using o(1) assms(2,3,9) x(1) ab rem p by (auto simp: parse_http_def Let_def split: option.splits)
      from push_results_reported[OF r'(1)] r'(2,3) o(1) show ?thesis by simp
    qed
    have s: "nat off = n + nat offset" using r assms(2) by simp
    have w: "unat (hp_nread q) + work lp' buff off \<le> unat (hp_nread ?q) + work lp buff offset"
      using o(3,5) x(2,5) r assms(2,3) by (auto simp: work_def split: if_splits)
    with o x(4,6,7) r assms(5) s show ?thesis by (simp add: add.commute)
  qed
qed


lemma drain_tracks:
  "lp_ok lp \<Longrightarrow> 0 \<le> offset \<Longrightarrow> offset \<le> int (length buff) \<Longrightarrow>
      \<not> hp_upgrade (lh_parser lp) \<Longrightarrow> work lp buff offset < k \<Longrightarrow>
    unat (hp_nread (lh_parser lp)) + work lp buff offset \<le> unat HTTP_MAX_HEADER_SIZE \<Longrightarrow>
    feed0 (lh_parser lp) u (drop (nat offset) buff) = (q1, u1, m) \<Longrightarrow> hp_errno q1 = HPE_OK
        \<Longrightarrow> \<not> hp_upgrade q1 \<Longrightarrow>
    \<exists>lp' rs. drain k lp buff offset = Some (lp', rs) \<and> u1 = u @ concat (map reported rs) \<and>
      nread_at 0 (lh_parser lp') = nread_at 0 q1 \<and> lp_ok lp' \<and> (\<forall>r \<in> set rs. result_offset
          r \<noteq> None)"
proof (induction k arbitrary: lp offset u q1 m)
  case (Suc k)
  show ?case
  proof (cases "offset < int (length buff)")
    case True
    obtain lp' r where p: "parse_http lp buff offset = (lp', r)" by fastforce
    from parse_http_tracks[OF Suc.prems(1,2) True Suc.prems(4,6-9) p] obtain off q2 m' where o:
      "result_offset r = Some off" "offset \<le> off" "off \<le> int (length buff)" "lp_ok lp'" "work lp' buff
          off < work lp buff offset"
      "\<not> hp_upgrade (lh_parser lp')" "unat (hp_nread (lh_parser lp')) + work lp' buff off \<le> unat
          HTTP_MAX_HEADER_SIZE"
      "feed0 (lh_parser lp') (u @ reported r) (drop (nat off) buff) = (q2, u1, m')" and q2: "nread_at 0 q2 =
          nread_at 0 q1"
      by blast
    have e: "hp_errno q2 = HPE_OK" "\<not> hp_upgrade q2"
      using arg_cong[OF q2, of hp_errno] arg_cong[OF q2, of hp_upgrade] Suc.prems(8,9) by simp_all
    have "0 \<le> off" "work lp' buff off < k" using o(2,5) Suc.prems(2,5) by simp_all
    from Suc.IH[OF o(4) this(1) o(3,6) this(2) o(7,8) e] q2 o(1) True p show ?thesis by auto
  next
    case False
    with Suc.prems show ?thesis by auto
  qed
qed simp

lemma drain_all:
  assumes "lp_ok lp" "\<not> hp_upgrade (lh_parser lp)"
    "unat (hp_nread (lh_parser lp)) + 2 * length buff + 1 \<le> unat HTTP_MAX_HEADER_SIZE"
    "feed0 (lh_parser lp) [] buff = (q, log, m)" "hp_errno q = HPE_OK" "\<not> hp_upgrade q"
  shows "\<exists>lp' rs. drain (2 * length buff + 2) lp buff 0 = Some (lp', rs) \<and> concat (List.map
      reported rs) = log \<and>
    (lh_parser lp')\<lparr>hp_nread := hp_nread q\<rparr> = q \<and> lp_ok lp' \<and> (\<forall>r \<in> set rs.
        result_offset r \<noteq> None)"
proof -
  have w: "work lp buff 0 \<le> 2 * length buff + 1" by (simp add: work_def)
  have "\<exists>lp' rs. drain (2 * length buff + 2) lp buff 0 = Some (lp', rs) \<and> log = [] @ concat
      (List.map reported rs) \<and>
      nread_at 0 (lh_parser lp') = nread_at 0 q \<and> lp_ok lp' \<and> (\<forall>r \<in> set rs. result_offset
          r \<noteq> None)"
    by (rule drain_tracks[OF assms(1) _ _ assms(2) _ _ _ assms(5,6)]) (use w assms(3,4) in simp_all)
  then obtain lp' rs where d: "drain (2 * length buff + 2) lp buff 0 = Some (lp', rs)" "log = concat (List.map
      reported rs)"
      "nread_at 0 (lh_parser lp') = nread_at 0 q" "lp_ok lp'" "\<forall>r \<in> set rs. result_offset r \<noteq>
          None"
    by auto
  have "nread_at (hp_nread q) (nread_at 0 (lh_parser lp')) = nread_at (hp_nread q) (nread_at 0 q)" using d(3) by
      simp
  then have "(lh_parser lp')\<lparr>hp_nread := hp_nread q\<rparr> = q" by (simp add: nread_at_def)
  with d show ?thesis by blast
qed

text \<open>
  C6 Pausing at every callback loses nothing: if one call of \<open>http_parser_execute\<close> with an
      application that
  only records takes a whole buffer without an error or an upgrade, then the calls of \<open>parse_http\<close>,
      each of which
  returns to Lua at the first callback, report together exactly what was recorded, in order and byte for
  byte, and leave the same parser, but for the count of header bytes (a byte that ends a header value is
  counted twice). The buffer is short enough that this count stays below its limit.
\<close>

theorem parse_http_transparent:
  assumes "lp_ok lp" "\<not> hp_upgrade (lh_parser lp)" "buff \<noteq> []"
    "unat (hp_nread (lh_parser lp)) + 2 * length buff + 1 \<le> unat HTTP_MAX_HEADER_SIZE"
    "http_parser_execute (recorder (\<lambda>_. 0) buff) (lh_parser lp) [] buff = (q, log, e)" "hp_errno q =
        HPE_OK" "\<not> hp_upgrade q"
  shows "\<exists>lp' rs. drain (2 * length buff + 2) lp buff 0 = Some (lp', rs) \<and> concat (List.map
      reported rs) = log \<and>
    (lh_parser lp')\<lparr>hp_nread := hp_nread q\<rparr> = q \<and> lp_ok lp' \<and> (\<forall>r \<in> set rs.
        result_offset r \<noteq> None)"
proof -
  have a: "agree 0 (q, log, e) (feed0 (lh_parser lp) [] buff)"
    using execute_agrees[of "lh_parser lp" buff "\<lambda>_. 0" "[]"] assms by (simp add: lp_ok_def)
  obtain n where f: "feed0 (lh_parser lp) [] buff = (q, log, Parsed n)"
    by (rule agree_finished[OF a assms(6)])
  from drain_all[OF assms(1,2,4) f assms(6,7)] show ?thesis by simp
qed

lemma short_request_recorded:
  "case http_parser_execute (recorder (\<lambda>_. 0) ''GET /a HTTP'') (http_parser_init HTTP_REQUEST) []
      ''GET /a HTTP'' of
     (q, log, e) \<Rightarrow> hp_errno q = HPE_OK \<and> \<not> hp_upgrade q \<and> log = Message_begin #
         List.map (Byte Url) ''/a''"
  by code_simp

theorem parse_http_transparent_witness:
  "\<exists>lp' rs. drain 24 (luaw_new_http_request_parser fresh_info) ''GET /a HTTP'' 0 = Some (lp', rs) \<and>
     concat (List.map reported rs) = Message_begin # List.map (Byte Url) ''/a''"
proof -
  let ?lp = "luaw_new_http_request_parser fresh_info" and ?w = "''GET /a HTTP''"
  have p: "lh_parser ?lp = http_parser_init HTTP_REQUEST" by (simp add: luaw_new_http_request_parser_def
      new_lhttp_parser_def)
  obtain q log e where x: "http_parser_execute (recorder (\<lambda>_. 0) ?w) (lh_parser ?lp) [] ?w = (q, log, e)"
      "hp_errno q = HPE_OK" "\<not> hp_upgrade q" "log = Message_begin # List.map (Byte Url) ''/a''"
    using short_request_recorded by (auto simp: p split: prod.splits)
  have "lp_ok ?lp" by (simp add: luaw_new_http_request_parser_def fresh_parser_ok fresh_info_def)
  moreover have "\<not> hp_upgrade (lh_parser ?lp)" "?w \<noteq> []"
    "unat (hp_nread (lh_parser ?lp)) + 2 * length ?w + 1 \<le> unat HTTP_MAX_HEADER_SIZE"
    by (simp_all add: p http_parser_init_def HTTP_MAX_HEADER_SIZE_def)
  ultimately show ?thesis using parse_http_transparent[OF _ _ _ _ x(1-3)] x(4) by auto
qed

text \<open>
  C7 A request reaches Lua intact: a printed request (any method but \<open>CONNECT\<close>, a path, headers
      that the parser
  does not interpret, a body with its \<open>Content-Length\<close>) that fits into the limit is handed to Lua
      by repeated
  calls of \<open>parse_http\<close>, without an error: the URL, the names and values of the headers and the body,
  byte for byte and in order, between the start and the end of the message, with the method and the version
  in the parser, which is ready for the next request.
\<close>

theorem request_reaches_lua:
  assumes "valid_request r" "2 * length (print_request r) + 1 \<le> unat HTTP_MAX_HEADER_SIZE" "\<not> cb_abort
      info"
  shows "\<exists>lp rs. drain (2 * length (print_request r) + 2) (luaw_new_http_request_parser info)
      (print_request r) 0 = Some (lp, rs) \<and>
     concat (List.map reported rs) = request_events r \<and> lp_ok lp \<and> (\<forall>x \<in> set rs.
         result_offset x \<noteq> None) \<and>
     hp_method (lh_parser lp) = rq_method r \<and> hp_http_major (lh_parser lp) = 1 \<and> hp_http_minor
         (lh_parser lp) = 1 \<and>
     hp_state (lh_parser lp) = s_start_req"
proof -
  let ?lp = "luaw_new_http_request_parser info"
  have p: "lh_parser ?lp = http_parser_init HTTP_REQUEST" by (simp add: luaw_new_http_request_parser_def
      new_lhttp_parser_def)
  have i: "\<not> hp_upgrade (lh_parser ?lp)" "unat (hp_nread (lh_parser ?lp)) = 0" "lp_ok ?lp"
    using fresh_parser_ok[OF assms(3)] unfolding p by (simp_all add: luaw_new_http_request_parser_def
        http_parser_init_def)
  from goes_request[OF assms(1), of "[]"] obtain q where q: "goes (\<lambda>_. 0) (print_request r) (lh_parser
      ?lp) [] q (request_events r)"
      "hp_state q = s_start_req" "hp_method q = rq_method r" "hp_http_major q = 1" "hp_http_minor q = 1"
    by (auto simp: p)
  have f: "feed0 (lh_parser ?lp) [] (print_request r) = (q, request_events r, Parsed (length (print_request r)))"
      "hp_errno q = HPE_OK" "\<not> hp_upgrade q"
    using q(1) by (simp_all add: goes_def)
  have "unat (hp_nread (lh_parser ?lp)) + 2 * length (print_request r) + 1 \<le> unat HTTP_MAX_HEADER_SIZE"
    using assms(2) i(2) by simp
  from drain_all[OF i(3,1) this f] obtain lp rs where
    d: "drain (2 * length (print_request r) + 2) ?lp (print_request r) 0 = Some (lp, rs)" "concat (List.map
        reported rs) = request_events r"
      "(lh_parser lp)\<lparr>hp_nread := hp_nread q\<rparr> = q" "lp_ok lp" "\<forall>x \<in> set rs.
          result_offset x \<noteq> None"
    by blast
  have "hp_method (lh_parser lp) = hp_method q" "hp_http_major (lh_parser lp) = hp_http_major q"
    "hp_http_minor (lh_parser lp) = hp_http_minor q" "hp_state (lh_parser lp) = hp_state q"
    by (subst d(3)[symmetric], simp)+
  with d q show ?thesis by auto
qed

theorem request_reaches_lua_witness:
  "\<exists>lp rs. drain (2 * length (print_request sample_request) + 2) (luaw_new_http_request_parser fresh_info)
       (print_request sample_request) 0 = Some (lp, rs) \<and> concat (List.map reported rs) = request_events
           sample_request"
proof -
  have "2 * length (print_request sample_request) + 1 \<le> unat HTTP_MAX_HEADER_SIZE"
    by (simp add: print_request_def print_head_def sample_request_def all_headers_def HTTP_1_1_def
        HTTP_MAX_HEADER_SIZE_def body_of_def)
  from request_reaches_lua[OF sample_valid this, of fresh_info] show ?thesis by (auto simp: fresh_info_def)
qed

end
