(* ===== verification/Luaw_Url_Decode.thy ===== *)
theory Luaw_Url_Decode
  imports Http_Types
begin

text \<open>
  \<open>luaw_url_decode\<close> of \<^verbatim>\<open>src/src/luaw_http_parser.c\<close> with its helpers \<open>handle_name_value_pair\<close> and
  \<open>decode_hex_str\<close>: the decoder of query strings and form bodies. It works in place, so the model
  keeps the buffer and reads and writes it by index. The in-place percent decoder is shown equal to
  a functional specification, and the result of the whole decoder on form-encoded data is given for every
  list of parameters.
\<close>

section \<open>Percent decoding\<close>

text \<open>White space as \<open>sscanf\<close> skips it, and hexadecimal digits.\<close>

definition is_space :: "char \<Rightarrow> bool" where
  "is_space c \<longleftrightarrow> c \<in> set [CHR '' '', HT, LF, CHR 0x0B, FF, CR]"

definition hex_digit :: "char \<Rightarrow> nat option" where
  "hex_digit c =
     (if CHR ''0'' \<le> c \<and> c \<le> CHR ''9'' then Some (byte_val c - byte_val (CHR ''0''))
      else if CHR ''a'' \<le> c \<and> c \<le> CHR ''f'' then Some (byte_val c - byte_val (CHR ''a'') + 10)
      else if CHR ''A'' \<le> c \<and> c \<le> CHR ''F'' then Some (byte_val c - byte_val (CHR ''A'') + 10)
      else None)"

text \<open>
  \<open>sscanf(s, "%2x", &v)\<close>: leading white space is skipped and does not count, then at most two
  characters of an optionally signed hexadecimal number are read. \<^const>\<open>None\<close>: no conversion, \<open>v\<close>
  keeps its value. A digit before another character counts alone; so does the zero of \<open>0x\<close>, where the C library
  (glibc) drops a prefix without digits.
\<close>

definition sscanf_2x :: "string \<Rightarrow> int option" where
  "sscanf_2x s = (case dropWhile is_space s of
     [] \<Rightarrow> None
   | a # rest \<Rightarrow>
       if a = CHR ''+'' \<or> a = CHR ''-'' then
         (case rest of
            [] \<Rightarrow> None
          | b # _ \<Rightarrow> (case hex_digit b of
              None \<Rightarrow> None
            | Some d \<Rightarrow> Some (if a = CHR ''-'' then - int d else int d)))
       else (case hex_digit a of
            None \<Rightarrow> None
          | Some d \<Rightarrow> (case rest of
              [] \<Rightarrow> Some (int d)
            | b # _ \<Rightarrow> (case hex_digit b of
                Some e \<Rightarrow> Some (int (16 * d + e))
              | None \<Rightarrow> Some (int d)))))"

text \<open>\<open>(char) v\<close>.\<close>

definition char_of_int :: "int \<Rightarrow> char" where
  "char_of_int v = char_of (nat (v mod 256))"

text \<open>
  \<open>decode_hex_str\<close> decodes in place: \<open>r\<close> and \<open>w\<close> are the read and write pointers as indices of the
  buffer, \<open>hex\<close> is \<open>hex_ch\<close>, which the C function does not initialise.
\<close>

function decode_hex_loop :: "string \<Rightarrow> nat \<Rightarrow> nat \<Rightarrow> nat \<Rightarrow> int \<Rightarrow> string \<times> nat" where
  "decode_hex_loop buf r w len hex =
     (if len = 0 then (buf, w)
      else let ch = buf ! r in
        if ch = CHR ''%'' \<and> len > 2 then
          let hex' = (case sscanf_2x (drop (r + 1) buf) of Some v \<Rightarrow> v | None \<Rightarrow> hex)
          in decode_hex_loop (buf[w := char_of_int hex']) (r + 3) (w + 1) (len - 3) hex'
        else decode_hex_loop (buf[w := ch]) (r + 1) (w + 1) (len - 1) hex)"
  by pat_completeness auto
termination by (relation "measure (\<lambda>(buf, r, w, len, hex). len)") auto

declare decode_hex_loop.simps [simp del]

definition decode_hex_str :: "int \<Rightarrow> string \<Rightarrow> nat \<Rightarrow> nat \<Rightarrow> string \<times> nat" where
  "decode_hex_str junk buf str len =
     (case decode_hex_loop buf str str len junk of (buf', w) \<Rightarrow> (buf', w - str))"

section \<open>URL decoding\<close>

datatype decoder_state = starting_name | in_name | starting_value | in_value

text \<open>
  The local variables of \<open>luaw_url_decode\<close>; a pointer into the string is an index, \<^const>\<open>None\<close> is
  \<open>NULL\<close>. \<open>stored\<close> lists the calls of \<open>storeHttpParam\<close> in the order they were made.
\<close>

record url_decoder =
  ud_data :: string
  ud_name :: "nat option"
  ud_value :: "nat option"
  ud_hex_name :: bool
  ud_hex_value :: bool
  ud_name_len :: nat
  ud_value_len :: nat
  ud_ds :: decoder_state
  ud_stored :: "(string \<times> string) list"

datatype url_decode_error =
    Bad_name_start nat | Bad_name nat | Bad_value_start nat | Bad_value nat | Empty_name
  | No_lib_table | No_store_function

text \<open>An error comes with the parameters that had been stored before it.\<close>

type_synonym 'a decoding = "(url_decode_error \<times> (string \<times> string) list) + 'a"

definition bad :: "url_decode_error \<Rightarrow> url_decoder \<Rightarrow> 'a decoding" where
  "bad e d = Inl (e, ud_stored d)"

text \<open>\<open>if (hex) len = decode_hex_str(str, len)\<close>.\<close>

definition decode_if :: "bool \<Rightarrow> int \<Rightarrow> string \<Rightarrow> nat \<Rightarrow> nat \<Rightarrow> string \<times> nat" where
  "decode_if hex junk buf str len = (if hex then decode_hex_str junk buf str len else (buf, len))"

text \<open>
  \<open>junk\<close> gives, for the pointer that \<open>decode_hex_str\<close> is called with, the indeterminate first value of
  \<open>hex_ch\<close>; \<open>store_fn\<close> tells whether the library table has a function \<open>storeHttpParam\<close>.
\<close>

definition handle_name_value_pair ::
  "(nat \<Rightarrow> int) \<Rightarrow> bool \<Rightarrow> url_decoder \<Rightarrow> url_decoder decoding" where
  "handle_name_value_pair junk store_fn d =
     (case (ud_name d, ud_value d) of
        (Some name, Some value) \<Rightarrow>
          if ud_name_len d > 0 \<and> ud_value_len d > 0 then
            let (b1, nl) = decode_if (ud_hex_name d) (junk name) (ud_data d) name (ud_name_len d);
                (b2, vl) = decode_if (ud_hex_value d) (junk value) b1 value (ud_value_len d)
            in if \<not> store_fn then bad No_store_function d
               else Inr (d\<lparr>ud_data := b2,
                          ud_stored := ud_stored d @ [(span name nl b2, span value vl b2)]\<rparr>)
          else if ud_name_len d = 0 \<and> ud_value_len d > 0 then bad Empty_name d
          else Inr d
      | _ \<Rightarrow> if ud_name_len d = 0 \<and> ud_value_len d > 0 then bad Empty_name d else Inr d)"

definition reset_pair :: "url_decoder \<Rightarrow> url_decoder" where
  "reset_pair d = d\<lparr>ud_name_len := 0, ud_hex_name := False, ud_value_len := 0, ud_hex_value := False\<rparr>"

text \<open>The \<open>switch\<close> on the decoder state, for the byte \<open>ch\<close> at \<open>i\<close>.\<close>

definition url_decode_switch ::
  "(nat \<Rightarrow> int) \<Rightarrow> bool \<Rightarrow> nat \<Rightarrow> char \<Rightarrow> url_decoder \<Rightarrow> url_decoder decoding" where
  "url_decode_switch junk store_fn i ch d = (case ud_ds d of
     starting_name \<Rightarrow>
       (case handle_name_value_pair junk store_fn d of
          Inl e \<Rightarrow> Inl e
        | Inr d1 \<Rightarrow>
            let d2 = reset_pair d1 in
            if ch = CHR ''&'' \<or> ch = CHR ''='' then bad (Bad_name_start i) d2
            else Inr (d2\<lparr>ud_hex_name := (ch = CHR ''%''), ud_ds := in_name, ud_name := Some i,
                         ud_name_len := 1\<rparr>))
   | in_name \<Rightarrow>
       if ch = CHR ''&'' then bad (Bad_name i) d
       else if ch = CHR ''='' then Inr (d\<lparr>ud_ds := starting_value\<rparr>)
       else Inr (d\<lparr>ud_hex_name := (ch = CHR ''%'' \<or> ud_hex_name d), ud_name_len := ud_name_len d + 1\<rparr>)
   | starting_value \<Rightarrow>
       if ch = CHR ''&'' \<or> ch = CHR ''='' then bad (Bad_value_start i) d
       else Inr (d\<lparr>ud_hex_value := (ch = CHR ''%'' \<or> ud_hex_value d), ud_ds := in_value,
                   ud_value := Some i, ud_value_len := 1\<rparr>)
   | in_value \<Rightarrow>
       if ch = CHR ''&'' then Inr (d\<lparr>ud_ds := starting_name\<rparr>)
       else if ch = CHR ''='' then bad (Bad_value i) d
       else Inr (d\<lparr>ud_hex_value := (ch = CHR ''%'' \<or> ud_hex_value d),
                   ud_value_len := ud_value_len d + 1\<rparr>))"

definition url_decode_byte ::
  "(nat \<Rightarrow> int) \<Rightarrow> bool \<Rightarrow> nat \<Rightarrow> url_decoder \<Rightarrow> url_decoder decoding" where
  "url_decode_byte junk store_fn i d =
     (let ch = ud_data d ! i in
      case url_decode_switch junk store_fn i ch d of
        Inl e \<Rightarrow> Inl e
      | Inr d1 \<Rightarrow> Inr (if ch = CHR ''+'' then d1\<lparr>ud_data := (ud_data d1)[i := CHR '' '']\<rparr> else d1))"

text \<open>The loop \<open>while (length--)\<close>: \<open>n\<close> bytes are left, \<open>i\<close> is \<open>read_ptr\<close>.\<close>

fun url_decode_loop ::
  "(nat \<Rightarrow> int) \<Rightarrow> bool \<Rightarrow> nat \<Rightarrow> nat \<Rightarrow> url_decoder \<Rightarrow> url_decoder decoding" where
  "url_decode_loop junk store_fn 0 i d = handle_name_value_pair junk store_fn d"
| "url_decode_loop junk store_fn (Suc n) i d =
     (case url_decode_byte junk store_fn i d of
        Inl e \<Rightarrow> Inl e
      | Inr d' \<Rightarrow> url_decode_loop junk store_fn n (i + 1) d')"

definition url_decoder_init :: "string \<Rightarrow> url_decoder" where
  "url_decoder_init data =
     \<lparr> ud_data = data, ud_name = None, ud_value = None, ud_hex_name = False, ud_hex_value = False,
       ud_name_len = 0, ud_value_len = 0, ud_ds = starting_name, ud_stored = [] \<rparr>"

text \<open>The result is the list of stored parameters, or the error.\<close>

definition luaw_url_decode ::
  "(nat \<Rightarrow> int) \<Rightarrow> bool \<Rightarrow> bool \<Rightarrow> string \<Rightarrow> (string \<times> string) list decoding" where
  "luaw_url_decode junk lib_table store_fn data =
     (if \<not> lib_table then Inl (No_lib_table, [])
      else map_sum id ud_stored
             (url_decode_loop junk store_fn (length data) 0 (url_decoder_init data)))"


section \<open>Percent decoding: the in-place loop and its specification\<close>

fun percent_decode :: "string \<Rightarrow> string" where
  "percent_decode [] = []"
| "percent_decode (c # s) =
     (if c = CHR ''%'' then
        (case s of
           a # b # t \<Rightarrow> (case (hex_digit a, hex_digit b) of
              (Some d, Some e) \<Rightarrow> char_of (16 * d + e) # percent_decode t
            | _ \<Rightarrow> c # percent_decode s)
         | _ \<Rightarrow> c # percent_decode s)
      else c # percent_decode s)"

text \<open>
  What the loop computes, as a function: \<open>v\<close> is the value of \<open>hex_ch\<close>, which a conversion that fails leaves as
  it is, and \<open>B\<close> the string behind the part that is decoded, which \<open>sscanf\<close> may read.
\<close>

fun hex_decode :: "int \<Rightarrow> string \<Rightarrow> string \<Rightarrow> string" where
  "hex_decode v B [] = []"
| "hex_decode v B (c # s) =
     (if c = CHR ''%'' \<and> 2 \<le> length s then
        let v' = (case sscanf_2x (s @ B) of Some x \<Rightarrow> x | None \<Rightarrow> v)
        in char_of_int v' # hex_decode v' B (drop 2 s)
      else c # hex_decode v B s)"

text \<open>Every percent sign that the loop would expand is followed by two hexadecimal digits.\<close>

fun percent_ok :: "string \<Rightarrow> bool" where
  "percent_ok [] = True"
| "percent_ok (c # s) =
     (if c = CHR ''%'' then
        (case s of
           a # b # t \<Rightarrow> hex_digit a \<noteq> None \<and> hex_digit b \<noteq> None \<and> percent_ok t
         | _ \<Rightarrow> True)
      else percent_ok s)"

lemma percent_id: "CHR ''%'' \<notin> set s \<Longrightarrow> percent_decode s = s"
  by (induction s) auto

lemma hex_digit_less: "hex_digit c = Some d \<Longrightarrow> d < 16"
  by (auto simp: hex_digit_def byte_val_def less_eq_char_def split: if_splits)

lemma hex_digit_facts:
  "hex_digit c = Some d \<Longrightarrow> \<not> is_space c \<and> c \<noteq> CHR ''+'' \<and> c \<noteq> CHR ''-''"
  by (auto simp: hex_digit_def is_space_def HT_def LF_def FF_def CR_def less_eq_char_def split: if_splits)

lemma sscanf_two_digits:
  "hex_digit a = Some d \<Longrightarrow> hex_digit b = Some e \<Longrightarrow> sscanf_2x (a # b # s) = Some (int (16 * d + e))"
  by (auto simp: sscanf_2x_def dest: hex_digit_facts)

lemma char_of_int_of_nat: "char_of_int (int n) = char_of n"
proof -
  have "nat (int n mod 256) = take_bit 8 n"
    by (simp add: take_bit_eq_mod nat_mod_distrib)
  then show ?thesis by (simp add: char_of_int_def char_of_take_bit_eq)
qed

lemma decode_hex_loop_0 [simp]: "decode_hex_loop buf r w 0 hex = (buf, w)"
  by (simp add: decode_hex_loop.simps)

text \<open>
  The buffer is \<open>P @ M @ s @ B\<close>: what was written, what was read and not overwritten, what is
  left to read, and what lies behind. One round moves a byte to \<open>P\<close> and shortens \<open>s\<close>.
\<close>

lemma decode_hex_loop_round:
  assumes "M @ u = m # R" "length u \<le> n" "0 < length u"
    "decode_hex_loop (P @ M @ u @ s @ B) (length P + length M) (length P) (length u + length s) hex =
       decode_hex_loop ((P @ M @ u @ s @ B)[length P := x]) (length P + length M + length u)
         (length P + 1) (length s) hex'"
    "\<exists>M'. decode_hex_loop ((P @ [x]) @ R @ s @ B) (length (P @ [x]) + length R) (length (P @ [x]))
        (length s) hex' = ((P @ [x]) @ D @ M' @ B, length (P @ [x]) + length D)
        \<and> length D + length M' = length R + length s"
  shows "\<exists>M'. decode_hex_loop (P @ M @ u @ s @ B) (length P + length M) (length P)
        (length u + length s) hex = (P @ (x # D) @ M' @ B, length P + length (x # D))
        \<and> length (x # D) + length M' = length M + length u + length s"
proof -
  have "(P @ M @ u @ s @ B)[length P := x] = P @ x # R @ s @ B"
    using assms(1) by (simp flip: append_assoc add: list_update_append)
  moreover have "length M + length u = Suc (length R)"
    using arg_cong[OF assms(1), of length] by simp
  ultimately show ?thesis using assms(4,5) by (simp add: add.assoc)
qed

lemma hex_decode_ok: "percent_ok s \<Longrightarrow> hex_decode v B s = percent_decode s"
proof (induction v B s rule: hex_decode.induct)
  case (2 v B c s)
  show ?case
  proof (cases "c = CHR ''%'' \<and> 2 \<le> length s")
    case True
    then obtain a b t where s: "s = a # b # t" by (cases s; cases "tl s") auto
    then obtain d e where h: "hex_digit a = Some d" "hex_digit b = Some e" and t: "percent_ok t"
      using 2(3) True by auto
    let ?v = "int (16 * d + e)"
    have x: "sscanf_2x (s @ B) = Some ?v" using sscanf_two_digits[OF h, of "t @ B"] s by simp
    then have "hex_decode ?v B (drop 2 s) = percent_decode (drop 2 s)" using 2(1)[OF True refl] t s by simp
    moreover have "hex_decode v B (c # s) = char_of_int ?v # hex_decode ?v B (drop 2 s)" using True x by (simp add: Let_def)
    moreover have "percent_decode (c # s) = char_of (16 * d + e) # percent_decode t" using True s h by simp
    ultimately show ?thesis using s by (simp only: char_of_int_of_nat) simp
  next
    case False
    then have "percent_ok s \<and> percent_decode (c # s) = c # percent_decode s"
      using 2(3) by (cases s; cases "tl s") auto
    then show ?thesis using 2(2)[OF False] False by auto
  qed
qed simp

lemma decode_hex_loop_spec:
  "\<exists>M'. decode_hex_loop (P @ M @ s @ B) (length P + length M) (length P) (length s) hex =
     (P @ hex_decode hex B s @ M' @ B, length P + length (hex_decode hex B s))
     \<and> length (hex_decode hex B s) + length M' = length M + length s"
proof (induction s arbitrary: P M hex rule: length_induct)
  case (1 s)
  have plain: ?case if "s = c # t" "\<not> (c = CHR ''%'' \<and> length s > 2)" for c t
  proof -
    obtain m R where R: "M @ [c] = m # R" by (cases "M @ [c]") auto
    have "decode_hex_loop (P @ M @ [c] @ t @ B) (length P + length M) (length P) (length [c] + length t) hex =
       decode_hex_loop ((P @ M @ [c] @ t @ B)[length P := c]) (length P + length M + length [c])
         (length P + 1) (length t) hex"
      by (subst decode_hex_loop.simps) (use that in \<open>auto simp: nth_append\<close>)
    moreover have "hex_decode hex B s = c # hex_decode hex B t" using that by auto
    ultimately show ?thesis
      using decode_hex_loop_round[OF R order_refl _] 1[rule_format, of t "P @ [c]" R hex] that by fastforce
  qed
  show ?case
  proof (cases s)
    case Nil
    then show ?thesis by simp
  next
    case (Cons c t)
    show ?thesis
    proof (cases "c = CHR ''%'' \<and> length s > 2")
      case True
      then obtain a b u where t: "t = a # b # u" using Cons by (cases t; cases "tl t") auto
      define v where "v = (case sscanf_2x (a # b # u @ B) of Some v \<Rightarrow> v | None \<Rightarrow> hex)"
      obtain m R where R: "M @ [c, a, b] = m # R" by (cases "M @ [c, a, b]") auto
      have "drop (Suc (length P + length M)) (P @ M @ [c, a, b] @ u @ B) = a # b # u @ B" by simp
      then have "decode_hex_loop (P @ M @ [c, a, b] @ u @ B) (length P + length M) (length P)
            (length [c, a, b] + length u) hex =
         decode_hex_loop ((P @ M @ [c, a, b] @ u @ B)[length P := char_of_int v])
            (length P + length M + length [c, a, b]) (length P + 1) (length u) v"
        by (subst decode_hex_loop.simps)
           (use True in \<open>simp add: nth_append numeral_3_eq_3 Let_def v_def\<close>)
      moreover have "hex_decode hex B s = char_of_int v # hex_decode v B u"
        using True Cons t by (simp add: Let_def v_def)
      ultimately show ?thesis
        using decode_hex_loop_round[OF R order_refl _] 1[rule_format, of u "P @ [char_of_int v]" R v] Cons t
        by fastforce
    next
      case False
      with plain Cons show ?thesis by blast
    qed
  qed
qed

lemma decode_hex_str_all:
  "\<exists>M. decode_hex_str junk (A @ s @ B) (length A) (length s) =
     (A @ hex_decode junk B s @ M @ B, length (hex_decode junk B s))
     \<and> length (hex_decode junk B s) + length M = length s"
  using decode_hex_loop_spec[of A "[]" s B junk] by (auto simp: decode_hex_str_def)

lemma decode_hex_str_spec:
  assumes "percent_ok s"
  shows "\<exists>M. decode_hex_str junk (A @ s @ B) (length A) (length s) =
     (A @ percent_decode s @ M @ B, length (percent_decode s))
     \<and> length (percent_decode s) + length M = length s"
  using decode_hex_str_all[of junk A s B] hex_decode_ok[OF assms, of junk B] by simp


section \<open>Form encoding and its decoding\<close>

definition plus_space :: "char \<Rightarrow> char" where
  "plus_space c = (if c = CHR ''+'' then CHR '' '' else c)"

definition no_delim :: "string \<Rightarrow> bool" where
  "no_delim s \<longleftrightarrow> CHR ''&'' \<notin> set s \<and> CHR ''='' \<notin> set s"

lemma url_decode_in_name:
  assumes "ud_ds d = in_name" "ud_data d = A @ s @ B" "no_delim s"
  shows "url_decode_loop junk f (length s + m) (length A) d =
     url_decode_loop junk f m (length A + length s)
       (d\<lparr>ud_data := A @ map plus_space s @ B, ud_name_len := ud_name_len d + length s,
          ud_hex_name := (CHR ''%'' \<in> set s \<or> ud_hex_name d)\<rparr>)"
  using assms
proof (induction s arbitrary: A d)
  case (Cons c s)
  let ?d = "d\<lparr>ud_data := (A @ [plus_space c]) @ s @ B, ud_name_len := ud_name_len d + 1,
      ud_hex_name := (c = CHR ''%'' \<or> ud_hex_name d)\<rparr>"
  have "url_decode_byte junk f (length A) d = Inr ?d"
    using Cons.prems
    by (auto simp: url_decode_byte_def url_decode_switch_def nth_append plus_space_def no_delim_def
        list_update_append)
  with Cons.IH[of ?d "A @ [plus_space c]"] Cons.prems show ?case
    by (simp add: no_delim_def disj_ac eq_commute[of _ c])
next
  case Nil
  then show ?case by (cases d) simp
qed

lemma url_decode_in_value:
  assumes "ud_ds d = in_value" "ud_data d = A @ s @ B" "no_delim s"
  shows "url_decode_loop junk f (length s + m) (length A) d =
     url_decode_loop junk f m (length A + length s)
       (d\<lparr>ud_data := A @ map plus_space s @ B, ud_value_len := ud_value_len d + length s,
          ud_hex_value := (CHR ''%'' \<in> set s \<or> ud_hex_value d)\<rparr>)"
  using assms
proof (induction s arbitrary: A d)
  case (Cons c s)
  let ?d = "d\<lparr>ud_data := (A @ [plus_space c]) @ s @ B, ud_value_len := ud_value_len d + 1,
      ud_hex_value := (c = CHR ''%'' \<or> ud_hex_value d)\<rparr>"
  have "url_decode_byte junk f (length A) d = Inr ?d"
    using Cons.prems
    by (auto simp: url_decode_byte_def url_decode_switch_def nth_append plus_space_def no_delim_def
        list_update_append)
  with Cons.IH[of ?d "A @ [plus_space c]"] Cons.prems show ?case
    by (simp add: no_delim_def disj_ac eq_commute[of _ c])
next
  case Nil
  then show ?case by (cases d) simp
qed

text \<open>A name or value of at least one byte, from its first byte on.\<close>

lemma url_decode_name:
  assumes "ud_ds d = starting_name" "handle_name_value_pair junk f d = Inr d1" "ud_data d = A @ s @ B"
    "ud_data d1 = A' @ s @ B" "length A' = length A" "no_delim s" "s \<noteq> []"
  shows "url_decode_loop junk f (length s + m) (length A) d =
     url_decode_loop junk f m (length A + length s)
       ((reset_pair d1)\<lparr>ud_data := A' @ map plus_space s @ B, ud_name_len := length s,
          ud_hex_name := (CHR ''%'' \<in> set s), ud_name := Some (length A), ud_ds := in_name\<rparr>)"
proof (cases s)
  case (Cons c t)
  let ?d = "(reset_pair d1)\<lparr>ud_data := (A' @ [plus_space c]) @ t @ B, ud_hex_name := (c = CHR ''%''),
      ud_ds := in_name, ud_name := Some (length A), ud_name_len := 1\<rparr>"
  have "url_decode_byte junk f (length A) d = Inr ?d"
    using assms Cons
    by (auto simp: url_decode_byte_def url_decode_switch_def nth_append plus_space_def no_delim_def
        list_update_append reset_pair_def)
  moreover have "url_decode_loop junk f (length t + m) (length (A' @ [plus_space c])) ?d =
      url_decode_loop junk f m (length (A' @ [plus_space c]) + length t)
       (?d\<lparr>ud_data := (A' @ [plus_space c]) @ map plus_space t @ B, ud_name_len := ud_name_len ?d + length t,
          ud_hex_name := (CHR ''%'' \<in> set t \<or> ud_hex_name ?d)\<rparr>)"
    using assms Cons by (intro url_decode_in_name) (auto simp: no_delim_def)
  moreover have "?d\<lparr>ud_data := (A' @ [plus_space c]) @ map plus_space t @ B, ud_name_len := ud_name_len ?d + length t,
          ud_hex_name := (CHR ''%'' \<in> set t \<or> ud_hex_name ?d)\<rparr> =
       (reset_pair d1)\<lparr>ud_data := A' @ map plus_space s @ B, ud_name_len := length s,
          ud_hex_name := (CHR ''%'' \<in> set s), ud_name := Some (length A), ud_ds := in_name\<rparr>"
    using Cons by (simp add: reset_pair_def disj_ac eq_commute[of _ c])
  ultimately show ?thesis
    using assms(5) Cons by simp
qed (use assms in simp)

lemma url_decode_value:
  assumes "ud_ds d = starting_value" "ud_data d = A @ s @ B" "no_delim s" "s \<noteq> []" "ud_value_len d = 0"
    "\<not> ud_hex_value d"
  shows "url_decode_loop junk f (length s + m) (length A) d =
     url_decode_loop junk f m (length A + length s)
       (d\<lparr>ud_data := A @ map plus_space s @ B, ud_value_len := length s,
          ud_hex_value := (CHR ''%'' \<in> set s), ud_value := Some (length A), ud_ds := in_value\<rparr>)"
proof (cases s)
  case (Cons c t)
  let ?d = "d\<lparr>ud_data := (A @ [plus_space c]) @ t @ B, ud_hex_value := (c = CHR ''%''),
      ud_ds := in_value, ud_value := Some (length A), ud_value_len := 1\<rparr>"
  have "url_decode_byte junk f (length A) d = Inr ?d"
    using assms Cons
    by (auto simp: url_decode_byte_def url_decode_switch_def nth_append plus_space_def no_delim_def
        list_update_append)
  moreover have "url_decode_loop junk f (length t + m) (length (A @ [plus_space c])) ?d =
      url_decode_loop junk f m (length (A @ [plus_space c]) + length t)
       (?d\<lparr>ud_data := (A @ [plus_space c]) @ map plus_space t @ B, ud_value_len := ud_value_len ?d + length t,
          ud_hex_value := (CHR ''%'' \<in> set t \<or> ud_hex_value ?d)\<rparr>)"
    using assms Cons by (intro url_decode_in_value) (auto simp: no_delim_def)
  moreover have "?d\<lparr>ud_data := (A @ [plus_space c]) @ map plus_space t @ B, ud_value_len := ud_value_len ?d + length t,
          ud_hex_value := (CHR ''%'' \<in> set t \<or> ud_hex_value ?d)\<rparr> =
       d\<lparr>ud_data := A @ map plus_space s @ B, ud_value_len := length s,
          ud_hex_value := (CHR ''%'' \<in> set s), ud_value := Some (length A), ud_ds := in_value\<rparr>"
    using Cons by (simp add: disj_ac eq_commute[of _ c])
  ultimately show ?thesis
    using Cons by simp
qed (use assms in simp)


text \<open>Storing a complete pair.\<close>

lemma decode_part:
  assumes "percent_ok s" "hex \<longleftrightarrow> CHR ''%'' \<in> set s"
  shows "\<exists>M. decode_if hex junk (A @ s @ B) (length A) (length s) =
       (A @ percent_decode s @ M @ B, length (percent_decode s))
     \<and> length (percent_decode s) + length M = length s"
proof (cases hex)
  case True
  then show ?thesis using decode_hex_str_spec[OF assms(1)] by (simp add: decode_if_def)
next
  case False
  then show ?thesis using assms(2) percent_id[of s] by (simp add: decode_if_def)
qed

lemma span_middle: "span (length A) (length s) (A @ s @ B) = s"
  by (simp add: span_def)

lemma handle_pair:
  assumes "ud_data d = A @ n @ CHR ''='' # v @ B" "ud_name d = Some (length A)"
    "ud_value d = Some (length A + length n + 1)" "ud_name_len d = length n" "ud_value_len d = length v"
    "ud_hex_name d \<longleftrightarrow> CHR ''%'' \<in> set n" "ud_hex_value d \<longleftrightarrow> CHR ''%'' \<in> set v"
    "percent_ok n" "percent_ok v" "n \<noteq> []" "v \<noteq> []"
  shows "\<exists>A'. handle_name_value_pair junk True d = Inr (d\<lparr>ud_data := A' @ B,
       ud_stored := ud_stored d @ [(percent_decode n, percent_decode v)]\<rparr>)
     \<and> length A' = length A + length n + 1 + length v"
proof -
  let ?i = "length A + length n + 1"
  obtain M where M: "decode_if (ud_hex_name d) (junk (length A)) (ud_data d) (length A) (length n) =
      (A @ percent_decode n @ M @ CHR ''='' # v @ B, length (percent_decode n))"
    "length (percent_decode n) + length M = length n"
    using decode_part[OF assms(8,6), of "junk (length A)" A "CHR ''='' # v @ B"] assms(1) by auto
  define A1 where "A1 = A @ percent_decode n @ M @ [CHR ''='']"
  have l: "length A1 = ?i" using M(2) by (simp add: A1_def)
  obtain M2 where M2: "decode_if (ud_hex_value d) (junk ?i) (A1 @ v @ B) ?i (length v) =
      (A1 @ percent_decode v @ M2 @ B, length (percent_decode v))"
    "length (percent_decode v) + length M2 = length v"
    using decode_part[OF assms(9,7), of "junk ?i" A1 B] unfolding l by auto
  have s: "span (length A) (length (percent_decode n)) (A1 @ percent_decode v @ M2 @ B) = percent_decode n"
    "span ?i (length (percent_decode v)) (A1 @ percent_decode v @ M2 @ B) = percent_decode v"
    using span_middle[of A "percent_decode n"] span_middle[of A1 "percent_decode v" "M2 @ B"]
    unfolding l by (simp_all add: A1_def)
  have a: "A @ percent_decode n @ M @ CHR ''='' # v @ B = A1 @ v @ B" by (simp add: A1_def)
  have "handle_name_value_pair junk True d = Inr (d\<lparr>ud_data := (A1 @ percent_decode v @ M2) @ B,
       ud_stored := ud_stored d @ [(percent_decode n, percent_decode v)]\<rparr>)"
    unfolding handle_name_value_pair_def assms(2-5) option.case prod.case M(1) a Let_def M2(1) s
    using assms(10,11) by simp
  with l M2(2) show ?thesis by (intro exI[of _ "A1 @ percent_decode v @ M2"]) simp
qed

text \<open>
  One pair in the stream, from \<open>starting_name\<close>: the pending pair is stored first, then the new one
  becomes the pending one.
\<close>

definition pending :: "(nat \<Rightarrow> int) \<Rightarrow> string \<Rightarrow> (string \<times> string) list \<Rightarrow> nat \<Rightarrow> url_decoder \<Rightarrow> bool" where
  "pending junk B stored k d \<longleftrightarrow> (\<exists>d1 A' A. handle_name_value_pair junk True d = Inr d1 \<and> ud_stored d1 = stored
     \<and> ud_data d = A @ B \<and> ud_data d1 = A' @ B \<and> length A = k \<and> length A' = k)"

lemma pending_init: "pending junk data [] 0 (url_decoder_init data)"
  by (simp add: pending_def handle_name_value_pair_def url_decoder_init_def)

lemma handle_ds:
  "handle_name_value_pair junk f (d\<lparr>ud_ds := s\<rparr>) =
     map_sum id (\<lambda>d. d\<lparr>ud_ds := s\<rparr>) (handle_name_value_pair junk f d)"
  by (simp add: handle_name_value_pair_def bad_def split: option.split prod.split)

lemma pending_ds:
  assumes "pending junk (c # B) st k d"
  shows "pending junk B st (k + 1) (d\<lparr>ud_ds := s\<rparr>)"
proof -
  obtain d1 A' A where "handle_name_value_pair junk True d = Inr d1" "ud_stored d1 = st"
      "ud_data d = A @ c # B" "ud_data d1 = A' @ c # B" "length A = k" "length A' = k"
    using assms by (auto simp: pending_def)
  then show ?thesis unfolding pending_def
    by (intro exI[of _ "d1\<lparr>ud_ds := s\<rparr>"] exI[of _ "A' @ [c]"] exI[of _ "A @ [c]"])
       (simp add: handle_ds)
qed

lemma url_decode_pair:
  assumes "pending junk (n @ CHR ''='' # v @ B) st k d" "ud_ds d = starting_name"
    "no_delim n" "no_delim v" "n \<noteq> []" "v \<noteq> []"
    "percent_ok (map plus_space n)" "percent_ok (map plus_space v)"
  shows "\<exists>d'. url_decode_loop junk True (length n + 1 + length v + m) k d =
      url_decode_loop junk True m (k + length n + 1 + length v) d'
    \<and> ud_ds d' = in_value
    \<and> pending junk B (st @ [(percent_decode (map plus_space n), percent_decode (map plus_space v))])
        (k + length n + 1 + length v) d'"
proof -
  obtain d1 A A' where h: "handle_name_value_pair junk True d = Inr d1" "ud_stored d1 = st"
      "ud_data d = A @ n @ CHR ''='' # v @ B" "ud_data d1 = A' @ n @ CHR ''='' # v @ B"
      "length A = k" "length A' = k"
    using assms(1) by (auto simp: pending_def)
  let ?n = "map plus_space n" and ?v = "map plus_space v"
  let ?d2 = "(reset_pair d1)\<lparr>ud_data := A' @ ?n @ CHR ''='' # v @ B, ud_name_len := length n,
          ud_hex_name := (CHR ''%'' \<in> set n), ud_name := Some (length A), ud_ds := in_name\<rparr>"
  let ?d3 = "?d2\<lparr>ud_ds := starting_value\<rparr>"
  let ?A = "A' @ ?n @ [CHR ''='']"
  let ?d4 = "?d3\<lparr>ud_data := ?A @ ?v @ B, ud_value_len := length v,
          ud_hex_value := (CHR ''%'' \<in> set v), ud_value := Some (length ?A), ud_ds := in_value\<rparr>"
  have "url_decode_loop junk True (length n + (1 + length v + m)) k d =
      url_decode_loop junk True (1 + length v + m) (k + length n) ?d2"
    using url_decode_name[OF assms(2) h(1,3,4) _ assms(3,5), of "1 + length v + m"]
    unfolding h(5,6) by blast
  also have "url_decode_byte junk True (k + length n) ?d2 = Inr ?d3"
    using h(6) by (simp add: url_decode_byte_def url_decode_switch_def nth_append)
  then have "url_decode_loop junk True (1 + length v + m) (k + length n) ?d2 =
      url_decode_loop junk True (length v + m) (length ?A) ?d3"
    using h(6) by simp
  also have "\<dots> = url_decode_loop junk True m (length ?A + length v) ?d4"
    by (rule url_decode_value) (use assms in \<open>auto simp: reset_pair_def\<close>)
  finally have loop: "url_decode_loop junk True (length n + 1 + length v + m) k d =
      url_decode_loop junk True m (k + length n + 1 + length v) ?d4"
    using h(6) by (simp add: add.assoc)
  have pct: "CHR ''%'' \<in> set (map plus_space s) \<longleftrightarrow> CHR ''%'' \<in> set s" for s
    by (auto simp: plus_space_def)
  have "\<exists>A''. handle_name_value_pair junk True ?d4 = Inr (?d4\<lparr>ud_data := A'' @ B,
       ud_stored := ud_stored ?d4 @ [(percent_decode ?n, percent_decode ?v)]\<rparr>)
     \<and> length A'' = length A' + length ?n + 1 + length ?v"
    using assms h(5,6) pct by (intro handle_pair) (auto simp: reset_pair_def)
  then obtain A'' where "handle_name_value_pair junk True ?d4 = Inr (?d4\<lparr>ud_data := A'' @ B,
       ud_stored := ud_stored ?d4 @ [(percent_decode ?n, percent_decode ?v)]\<rparr>)"
     "length A'' = length A' + length ?n + 1 + length ?v" by blast
  then have "pending junk B (st @ [(percent_decode ?n, percent_decode ?v)]) (k + length n + 1 + length v) ?d4"
    using h(2,6) unfolding pending_def
    by (intro exI[of _ "?d4\<lparr>ud_data := A'' @ B,
         ud_stored := ud_stored ?d4 @ [(percent_decode ?n, percent_decode ?v)]\<rparr>"] exI[of _ A'']
         exI[of _ "?A @ ?v"]) (simp add: reset_pair_def)
  with loop show ?thesis by auto
qed


text \<open>The encoder of \<open>application/x-www-form-urlencoded\<close> data.\<close>

definition unreserved :: "char \<Rightarrow> bool" where
  "unreserved c \<longleftrightarrow>
     (let b = byte_val c
      in b \<in> {97..122} \<union> {65..90} \<union> {48..57} \<or> b \<in> {42, 45, 46, 95})"

definition hex_upper :: "nat \<Rightarrow> char" where
  "hex_upper n = ''0123456789ABCDEF'' ! n"

definition form_char :: "char \<Rightarrow> string" where
  "form_char c =
     (if unreserved c then [c]
      else if c = CHR '' '' then ''+''
      else [CHR ''%'', hex_upper (byte_val c div 16), hex_upper (byte_val c mod 16)])"

definition form_string :: "string \<Rightarrow> string" where
  "form_string s = concat (map form_char s)"

fun form_encode :: "(string \<times> string) list \<Rightarrow> string" where
  "form_encode [] = []"
| "form_encode ((n, v) # ps) = form_string n @ CHR ''='' # form_string v
     @ (if ps = [] then [] else CHR ''&'' # form_encode ps)"

lemma less_16: "n < 16 \<Longrightarrow> n \<in> {0,1,2,3,4,5,6,7,8,9,10,11,12,13,14,15}" for n :: nat
  by (simp, presburger)

lemma hex_upper: "n < 16 \<Longrightarrow> hex_digit (hex_upper n) = Some n \<and> hex_upper n \<noteq> CHR ''+''
    \<and> hex_upper n \<noteq> CHR ''&'' \<and> hex_upper n \<noteq> CHR ''=''"
  by (drule less_16)
     (auto simp: hex_upper_def hex_digit_def less_eq_char_def byte_val_def)

lemma byte_val_char [simp]: "char_of (byte_val c) = c"
  by (simp add: byte_val_def)

lemma nibbles: "byte_val c div 16 < 16" "byte_val c mod 16 < 16"
  using byte_val_less[of c] by (simp_all add: less_mult_imp_div_less)

lemma unreserved_facts:
  "unreserved c \<Longrightarrow> c \<noteq> CHR ''&'' \<and> c \<noteq> CHR ''='' \<and> c \<noteq> CHR ''%'' \<and> c \<noteq> CHR ''+''"
  by (auto simp: unreserved_def byte_val_def Let_def)

lemma form_char_decode:
  "percent_decode (map plus_space (form_char c) @ t) = c # percent_decode t"
  "percent_ok (map plus_space (form_char c) @ t) = percent_ok t"
  using unreserved_facts[of c] hex_upper[OF nibbles(1)[of c]] hex_upper[OF nibbles(2)[of c]]
  by (auto simp: form_char_def plus_space_def)

lemma form_string_decode:
  "percent_decode (map plus_space (form_string s)) = s"
  "percent_ok (map plus_space (form_string s))"
  by (induction s) (simp_all add: form_string_def form_char_decode)

lemma no_delim_form_string: "no_delim (form_string s)"
proof -
  have "no_delim (form_char c)" for c
    using unreserved_facts[of c] hex_upper[OF nibbles(1)[of c]] hex_upper[OF nibbles(2)[of c]]
    by (auto simp: form_char_def no_delim_def)
  then show ?thesis by (auto simp: form_string_def no_delim_def)
qed

lemma form_string_nonempty: "form_string s = [] \<longleftrightarrow> s = []"
  by (cases s) (simp_all add: form_string_def form_char_def)

lemma url_decode_form_encode:
  assumes "ps \<noteq> []" "\<forall>(n, v) \<in> set ps. n \<noteq> [] \<and> v \<noteq> []"
    "pending junk (form_encode ps) st k d" "ud_ds d = starting_name"
  shows "map_sum id ud_stored (url_decode_loop junk True (length (form_encode ps)) k d) = Inr (st @ ps)"
  using assms
proof (induction ps arbitrary: st k d)
  case (Cons p ps)
  obtain n v where p: "p = (n, v)" by fastforce
  define B where "B = (if ps = [] then [] else CHR ''&'' # form_encode ps)"
  let ?n = "form_string n" and ?v = "form_string v"
  have e: "form_encode (p # ps) = ?n @ CHR ''='' # ?v @ B" by (simp add: p B_def)
  have "?n \<noteq> []" "?v \<noteq> []" using Cons.prems(2) p by (auto simp: form_string_nonempty)
  from url_decode_pair[OF Cons.prems(3)[unfolded e] Cons.prems(4) no_delim_form_string
      no_delim_form_string this form_string_decode(2) form_string_decode(2), of "length B",
      unfolded form_string_decode(1)]
  obtain d' where d': "url_decode_loop junk True (length ?n + 1 + length ?v + length B) k d =
      url_decode_loop junk True (length B) (k + length ?n + 1 + length ?v) d'" "ud_ds d' = in_value"
    "pending junk B (st @ [(n, v)]) (k + length ?n + 1 + length ?v) d'" by blast
  then have l: "url_decode_loop junk True (length (form_encode (p # ps))) k d =
      url_decode_loop junk True (length B) (k + length ?n + 1 + length ?v) d'"
    unfolding e by (simp add: add.assoc)
  show ?case
  proof (cases "ps = []")
    case True
    with l d'(3) p show ?thesis by (auto simp: B_def pending_def)
  next
    case False
    let ?k = "k + length ?n + 1 + length ?v"
    let ?d = "d'\<lparr>ud_ds := starting_name\<rparr>"
    have "url_decode_byte junk True ?k d' = Inr ?d"
      using d'(2,3) False
      by (auto simp: url_decode_byte_def url_decode_switch_def B_def pending_def nth_append)
    moreover have "pending junk (form_encode ps) (st @ [(n, v)]) (?k + 1) ?d"
      using d'(3) False pending_ds by (auto simp: B_def)
    ultimately show ?thesis
      using l Cons.IH[OF False _ _, of "st @ [(n, v)]" "?k + 1" ?d] Cons.prems(2) False p
      by (simp add: B_def)
  qed
qed simp

text \<open>A prefix of complete pairs, with more behind it.\<close>

lemma form_encode_append:
  "qs \<noteq> [] \<Longrightarrow> form_encode (ps @ qs) = (if ps = [] then [] else form_encode ps @ ''&'') @ form_encode qs"
  by (induction ps rule: form_encode.induct) auto

lemma url_decode_prefix:
  assumes "\<forall>(n, v) \<in> set ps. n \<noteq> [] \<and> v \<noteq> []" "qs \<noteq> []"
    "pending junk (form_encode (ps @ qs)) st k d" "ud_ds d = starting_name"
  shows "\<exists>k' d'. url_decode_loop junk True (length (form_encode (ps @ qs))) k d =
      url_decode_loop junk True (length (form_encode qs)) k' d'
    \<and> k' + length (form_encode qs) = k + length (form_encode (ps @ qs))
    \<and> ud_ds d' = starting_name \<and> pending junk (form_encode qs) (st @ ps) k' d'"
  using assms
proof (induction ps arbitrary: st k d)
  case Nil
  then show ?case by auto
next
  case (Cons p ps)
  obtain n v where p: "p = (n, v)" by fastforce
  let ?n = "form_string n" and ?v = "form_string v" and ?B = "CHR ''&'' # form_encode (ps @ qs)"
  let ?k = "k + length ?n + 1 + length ?v"
  have e: "form_encode ((p # ps) @ qs) = ?n @ CHR ''='' # ?v @ ?B" using Cons.prems(2) by (simp add: p)
  have "?n \<noteq> []" "?v \<noteq> []" using Cons.prems(1) p by (auto simp: form_string_nonempty)
  from url_decode_pair[OF Cons.prems(3)[unfolded e] Cons.prems(4) no_delim_form_string
      no_delim_form_string this form_string_decode(2) form_string_decode(2), of "length ?B",
      unfolded form_string_decode(1)]
  obtain d' where d': "url_decode_loop junk True (length ?n + 1 + length ?v + length ?B) k d =
      url_decode_loop junk True (length ?B) ?k d'" "ud_ds d' = in_value" "pending junk ?B (st @ [(n, v)]) ?k d'"
    by blast
  let ?d = "d'\<lparr>ud_ds := starting_name\<rparr>"
  have "url_decode_byte junk True ?k d' = Inr ?d"
    using d'(2,3) by (auto simp: url_decode_byte_def url_decode_switch_def pending_def nth_append)
  moreover have L: "length (form_encode ((p # ps) @ qs)) = length ?n + 1 + length ?v + length ?B"
    by (simp only: e) simp
  ultimately have f: "url_decode_loop junk True (length (form_encode ((p # ps) @ qs))) k d =
      url_decode_loop junk True (length (form_encode (ps @ qs))) (?k + 1) ?d"
    using d'(1) unfolding L by simp
  have "pending junk (form_encode (ps @ qs)) (st @ [(n, v)]) (?k + 1) ?d"
    using pending_ds[OF d'(3)] by simp
  then obtain k' d'' where g: "url_decode_loop junk True (length (form_encode (ps @ qs))) (?k + 1) ?d =
      url_decode_loop junk True (length (form_encode qs)) k' d''"
    "k' + length (form_encode qs) = ?k + 1 + length (form_encode (ps @ qs))" "ud_ds d'' = starting_name"
    "pending junk (form_encode qs) ((st @ [(n, v)]) @ ps) k' d''"
    using Cons.IH[of "st @ [(n, v)]" "?k + 1" ?d] Cons.prems(1,2) by auto
  have "k' + length (form_encode qs) = k + length (form_encode ((p # ps) @ qs))" unfolding L using g(2) by simp
  moreover have "pending junk (form_encode qs) (st @ p # ps) k' d''" using g(4) p by simp
  ultimately show ?case using trans[OF f g(1)] g(3) by blast
qed

text \<open>A name with its equals sign and no value.\<close>

lemma url_decode_no_value:
  assumes "pending junk (form_string n @ CHR ''='' # B) st k d" "ud_ds d = starting_name" "n \<noteq> []"
  shows "\<exists>d' A. url_decode_loop junk True (length (form_string n) + (1 + m)) k d =
      url_decode_loop junk True m (k + length (form_string n) + 1) d'
    \<and> ud_ds d' = starting_value \<and> ud_value_len d' = 0 \<and> ud_name_len d' > 0 \<and> ud_stored d' = st
    \<and> ud_data d' = A @ B \<and> length A = k + length (form_string n) + 1"
proof -
  let ?n = "form_string n"
  obtain d1 A A' where h: "handle_name_value_pair junk True d = Inr d1" "ud_stored d1 = st"
      "ud_data d = A @ ?n @ CHR ''='' # B" "ud_data d1 = A' @ ?n @ CHR ''='' # B" "length A = k" "length A' = k"
    using assms(1) by (auto simp: pending_def)
  have n: "?n \<noteq> []" using assms(3) by (simp add: form_string_nonempty)
  let ?d2 = "(reset_pair d1)\<lparr>ud_data := A' @ map plus_space ?n @ CHR ''='' # B, ud_name_len := length ?n,
      ud_hex_name := (CHR ''%'' \<in> set ?n), ud_name := Some (length A), ud_ds := in_name\<rparr>"
  let ?d3 = "?d2\<lparr>ud_ds := starting_value\<rparr>"
  have "url_decode_loop junk True (length ?n + (1 + m)) k d = url_decode_loop junk True (1 + m) (k + length ?n) ?d2"
    using url_decode_name[OF assms(2) h(1,3,4) _ no_delim_form_string n, of "1 + m"] unfolding h(5,6) by blast
  also have "url_decode_byte junk True (k + length ?n) ?d2 = Inr ?d3"
    using h(6) by (simp add: url_decode_byte_def url_decode_switch_def nth_append)
  then have "url_decode_loop junk True (1 + m) (k + length ?n) ?d2 = url_decode_loop junk True m (k + length ?n + 1) ?d3"
    by simp
  finally show ?thesis
    using n h(2,6) by (intro exI[of _ ?d3] exI[of _ "A' @ map plus_space ?n @ ''=''"]) (simp add: reset_pair_def)
qed

text \<open>The first parameter that is not complete, after \<open>qs\<close>'s predecessors have been stored.\<close>

lemma url_decode_stop:
  assumes "pending junk (form_encode ((n, v) # ps)) st k d" "ud_ds d = starting_name" "n = [] \<or> v = []"
  shows "map_sum id ud_stored (url_decode_loop junk True (length (form_encode ((n, v) # ps))) k d) =
    (if n = [] then Inl (Bad_name_start k, st)
     else if ps = [] then Inr st else Inl (Bad_value_start (k + length (form_string n) + 1), st))"
proof (cases "n = []")
  case True
  obtain d1 A A' where "handle_name_value_pair junk True d = Inr d1" "ud_stored d1 = st"
      "ud_data d = A @ form_encode ((n, v) # ps)" "length A = k"
    using assms(1) by (auto simp: pending_def)
  then have "url_decode_byte junk True k d = Inl (Bad_name_start k, st)"
    using True assms(2)
    by (simp add: url_decode_byte_def url_decode_switch_def form_string_def nth_append bad_def reset_pair_def)
  moreover have "length (form_encode ((n, v) # ps)) = Suc (length (form_encode ((n, v) # ps)) - 1)" by simp
  ultimately have "url_decode_loop junk True (length (form_encode ((n, v) # ps))) k d = Inl (Bad_name_start k, st)"
    by (metis (no_types, lifting) sum.case(1) url_decode_loop.simps(2))
  with True show ?thesis by simp
next
  case False
  let ?B = "if ps = [] then [] else CHR ''&'' # form_encode ps"
  have v: "v = []" using assms(3) False by simp
  have e: "form_encode ((n, v) # ps) = form_string n @ CHR ''='' # ?B" by (simp add: v form_string_def)
  obtain d' A where d': "url_decode_loop junk True (length (form_string n) + (1 + length ?B)) k d =
      url_decode_loop junk True (length ?B) (k + length (form_string n) + 1) d'" "ud_ds d' = starting_value"
    "ud_value_len d' = 0" "ud_name_len d' > 0" "ud_stored d' = st" "ud_data d' = A @ ?B"
    "length A = k + length (form_string n) + 1"
    using url_decode_no_value[OF assms(1)[unfolded e] assms(2) False] by blast
  have l: "length (form_encode ((n, v) # ps)) = length (form_string n) + (1 + length ?B)" by (simp only: e) simp
  show ?thesis
  proof (cases "ps = []")
    case True
    then have "url_decode_loop junk True (length (form_encode ((n, v) # ps))) k d =
        handle_name_value_pair junk True d'" using d'(1) unfolding l by simp
    also have "\<dots> = Inr d'" using d'(3,4) by (simp add: handle_name_value_pair_def split: option.split)
    finally show ?thesis using d'(5) True False by simp
  next
    case more: False
    have "url_decode_byte junk True (k + length (form_string n) + 1) d' =
        Inl (Bad_value_start (k + length (form_string n) + 1), st)"
      using d'(2,5-7) more by (simp add: url_decode_byte_def url_decode_switch_def nth_append bad_def)
    then have "url_decode_loop junk True (length (form_encode ((n, v) # ps))) k d =
        Inl (Bad_value_start (k + length (form_string n) + 1), st)" using d'(1) more unfolding l by simp
    then show ?thesis using more False by simp
  qed
qed

section \<open>Properties\<close>

text \<open>The lengths of a pair are consistent with the decoder's state.\<close>

definition pair_inv :: "url_decoder \<Rightarrow> bool" where
  "pair_inv d \<longleftrightarrow> (ud_value_len d > 0 \<or> ud_ds d \<noteq> starting_name \<longrightarrow> ud_name_len d > 0)"

lemma handle_inv:
  assumes "pair_inv d"
  shows "handle_name_value_pair junk f d \<noteq> Inl (Empty_name, st)"
    and "handle_name_value_pair junk f d = Inr d' \<Longrightarrow> ud_ds d' = ud_ds d"
  using assms
  by (auto simp: handle_name_value_pair_def pair_inv_def bad_def split: option.splits prod.splits if_splits)

lemma url_decode_byte_inv:
  assumes "pair_inv d"
  shows "url_decode_byte junk f i d \<noteq> Inl (Empty_name, st)"
    and "url_decode_byte junk f i d = Inr d' \<Longrightarrow> pair_inv d'"
  using assms handle_inv[OF assms, of junk f]
  by (auto simp: url_decode_byte_def url_decode_switch_def Let_def pair_inv_def bad_def reset_pair_def
      split: sum.splits decoder_state.splits if_splits)

lemma url_decode_loop_inv:
  "pair_inv d \<Longrightarrow> url_decode_loop junk f n i d \<noteq> Inl (Empty_name, st)"
  using url_decode_byte_inv handle_inv
  by (induction n arbitrary: i d) (auto split: sum.split)

text \<open>
  C8 Form data: the decoder on the form encoding of any list of parameters, whatever the uninitialised \<open>hex_ch\<close>
  holds. Parameters with non-empty names and values come back exactly, in their order. The first parameter without
  a value is dropped when it is the last one and is otherwise an error at the byte after its equals sign, against
  the comment in \<open>handle_name_value_pair\<close> that it is ok; one without a name is an error at its equals sign. Either
  way the parameters before it have been stored.
\<close>

theorem form_round_trip:
  assumes "\<forall>(n, v) \<in> set ps. n \<noteq> [] \<and> v \<noteq> []"
  shows "luaw_url_decode junk True True (form_encode ps) = Inr ps \<and>
    (\<forall>n. n \<noteq> [] \<longrightarrow> luaw_url_decode junk True True (form_encode (ps @ [(n, [])])) = Inr ps) \<and>
    (\<forall>n q qs. n \<noteq> [] \<longrightarrow> luaw_url_decode junk True True (form_encode (ps @ (n, []) # q # qs)) =
       Inl (Bad_value_start (length (form_encode (ps @ [(n, [])]))), ps)) \<and>
    (\<forall>v qs. luaw_url_decode junk True True (form_encode (ps @ ([], v) # qs)) =
       Inl (Bad_name_start (length (form_encode (ps @ [([], [])])) - 1), ps))"
proof -
  have init: "ud_ds (url_decoder_init data) = starting_name" for data by (simp add: url_decoder_init_def)
  have stop: "luaw_url_decode junk True True (form_encode (ps @ (n, v) # qs)) =
      (let k = length (form_encode (ps @ (n, v) # qs)) - length (form_encode ((n, v) # qs)) in
       if n = [] then Inl (Bad_name_start k, ps)
       else if qs = [] then Inr ps else Inl (Bad_value_start (k + length (form_string n) + 1), ps))"
    if "n = [] \<or> v = []" for n v qs
  proof -
    let ?q = "(n, v) # qs" and ?d = "url_decoder_init (form_encode (ps @ (n, v) # qs))"
    obtain k' d' where k: "url_decode_loop junk True (length (form_encode (ps @ ?q))) 0 ?d =
        url_decode_loop junk True (length (form_encode ?q)) k' d'"
      "k' + length (form_encode ?q) = 0 + length (form_encode (ps @ ?q))" "ud_ds d' = starting_name"
      "pending junk (form_encode ?q) ([] @ ps) k' d'"
      using url_decode_prefix[OF assms _ pending_init init, of ?q junk] by blast
    have "k' = length (form_encode (ps @ ?q)) - length (form_encode ?q)" using k(2) by linarith
    then show ?thesis
      using url_decode_stop[OF k(4)[unfolded append_Nil] k(3) that] k(1) by (simp add: luaw_url_decode_def Let_def)
  qed
  have len: "length (form_encode (ps @ (n, v) # qs)) - length (form_encode ((n, v) # qs)) =
      (if ps = [] then 0 else length (form_encode ps) + 1)" for n v qs
    using form_encode_append[of "(n, v) # qs" ps] by simp
  have "luaw_url_decode junk True True (form_encode ps) = Inr ps"
    using url_decode_form_encode[OF _ assms pending_init init]
    by (cases "ps = []") (simp_all add: luaw_url_decode_def url_decoder_init_def handle_name_value_pair_def)
  moreover have "length (form_encode (ps @ [(n, [])])) =
      (if ps = [] then 0 else length (form_encode ps) + 1) + length (form_string n) + 1" for n
    using form_encode_append[of "[(n, [])]" ps] by (simp add: form_string_def)
  ultimately show ?thesis using stop unfolding len by (simp add: Let_def form_string_def)
qed

theorem form_round_trip_witness:
  "luaw_url_decode (\<lambda>_. 0) True True (form_encode [(''q'', ''a b&c''), (''x=y'', ''1'')]) =
     Inr [(''q'', ''a b&c''), (''x=y'', ''1'')] \<and>
   luaw_url_decode (\<lambda>_. 0) True True (form_encode ([(''q'', ''a b&c''), (''x=y'', ''1'')] @ [(''z'', [])])) =
     Inr [(''q'', ''a b&c''), (''x=y'', ''1'')]"
  using form_round_trip[of "[(''q'', ''a b&c''), (''x=y'', ''1'')]" "\<lambda>_. 0"] by simp

text \<open>
  C12 The in-place percent decoder computes a function of the bytes: for every part of the buffer it leaves the
  decoded bytes at the start of the part, reports their number and changes nothing outside the part. The function
  is \<open>hex_decode\<close>: of each percent sign with two more bytes in the part it makes the value that \<open>sscanf\<close> reads or,
  where there is no number to read, the value of the percent sign before it, which for the first one is what the
  uninitialised \<open>hex_ch\<close> holds (\<open>junk\<close>). Where two hexadecimal digits follow every such percent sign, this is the
  standard percent decoding, whatever \<open>hex_ch\<close> holds.
\<close>

theorem decode_hex_str_correct:
  "(case decode_hex_str junk (A @ s @ B) (length A) (length s) of (buf, n) \<Rightarrow>
    n = length (hex_decode junk B s) \<and> span (length A) n buf = hex_decode junk B s
    \<and> take (length A) buf = A \<and> drop (length A + length s) buf = B \<and> length buf = length (A @ s @ B)) \<and>
   (percent_ok s \<longrightarrow> hex_decode junk B s = percent_decode s)"
proof -
  obtain M where M: "decode_hex_str junk (A @ s @ B) (length A) (length s) =
      (A @ hex_decode junk B s @ M @ B, length (hex_decode junk B s))"
    "length (hex_decode junk B s) + length M = length s"
    using decode_hex_str_all by blast
  have "drop (length A + length s) (A @ hex_decode junk B s @ M @ B) = B"
    using M(2) by (simp flip: M(2))
  with M hex_decode_ok show ?thesis by (simp add: span_def)
qed

theorem decode_hex_str_correct_witness:
  "(case decode_hex_str 7 (''k='' @ ''a%41%2'' @ ''&'') (length ''k='') (length ''a%41%2'') of (buf, n) \<Rightarrow>
    span (length ''k='') n buf = ''aA%2'') \<and> percent_decode ''a%41%2'' = ''aA%2'' \<and>
   (case decode_hex_str 7 (''k='' @ ''%zz'' @ ''&'') (length ''k='') (length ''%zz'') of (buf, n) \<Rightarrow>
    span (length ''k='') n buf = [char_of_int 7])"
proof -
  have p: "percent_ok ''a%41%2''" "percent_decode ''a%41%2'' = ''aA%2''" by code_simp+
  have z: "hex_decode 7 ''&'' ''%zz'' = [char_of_int 7]"
    by (simp add: sscanf_2x_def is_space_def hex_digit_def less_eq_char_def HT_def LF_def FF_def CR_def)
  show ?thesis
    using decode_hex_str_correct[where junk = 7 and A = "''k=''" and s = "''a%41%2''" and B = "''&''"]
      decode_hex_str_correct[where junk = 7 and A = "''k=''" and s = "''%zz''" and B = "''&''"]
      p z by (auto split: prod.splits simp del: percent_ok.simps hex_decode.simps percent_decode.simps)
qed

text \<open>
  The error for an empty parameter name with a value is never reported: the decoder always has a
  name when it has a value.
\<close>

theorem empty_name_unreachable:
  "luaw_url_decode junk lib_table store_fn data \<noteq> Inl (Empty_name, st)"
proof -
  have "pair_inv (url_decoder_init data)" by (simp add: pair_inv_def url_decoder_init_def)
  from url_decode_loop_inv[OF this] show ?thesis
    by (auto simp: luaw_url_decode_def map_sum_def split: sum.splits)
qed

text \<open>
  A parameter without a value is an error unless it is the last one, although a comment of the
  sources calls it fine.
\<close>

theorem empty_value_rejected:
  assumes "no_delim n" "n \<noteq> []"
  shows "luaw_url_decode junk True f (n @ ''=&'' @ rest) = Inl (Bad_value_start (length n + 1), [])"
proof -
  let ?data = "n @ ''=&'' @ rest"
  let ?d = "url_decoder_init ?data"
  have h: "handle_name_value_pair junk f ?d = Inr ?d"
    by (simp add: handle_name_value_pair_def url_decoder_init_def)
  have "url_decode_loop junk f (length n + length (''=&'' @ rest)) (length ([] :: string)) ?d =
      url_decode_loop junk f (length (''=&'' @ rest)) (length ([] :: string) + length n)
       ((reset_pair ?d)\<lparr>ud_data := [] @ map plus_space n @ ''=&'' @ rest, ud_name_len := length n,
          ud_hex_name := (CHR ''%'' \<in> set n), ud_name := Some (length ([] :: string)), ud_ds := in_name\<rparr>)"
    by (rule url_decode_name[OF _ h]) (use assms in \<open>auto simp: url_decoder_init_def\<close>)
  then show ?thesis
    by (simp add: luaw_url_decode_def url_decode_byte_def url_decode_switch_def nth_append reset_pair_def
        bad_def url_decoder_init_def)
qed


theorem empty_value_rejected_witness:
  "luaw_url_decode (\<lambda>_. 0) True True (''foo'' @ ''=&'' @ ''bar=1'') = Inl (Bad_value_start 4, [])"
  using empty_value_rejected[of "''foo''" "\<lambda>_. 0" True "''bar=1''"] by (simp add: no_delim_def)

text \<open>
  A percent sign without hexadecimal digits decodes to whatever \<open>hex_ch\<close> held: the result depends
  on an uninitialised variable.
\<close>

theorem uninitialised_hex:
  "luaw_url_decode (\<lambda>_. v) True True ''a=%zz'' = Inr [(''a'', [char_of_int v])]"
  by (simp add: luaw_url_decode_def url_decoder_init_def url_decode_byte_def url_decode_switch_def
      handle_name_value_pair_def reset_pair_def decode_if_def decode_hex_str_def sscanf_2x_def
      is_space_def hex_digit_def less_eq_char_def HT_def LF_def FF_def CR_def decode_hex_loop.simps
      span_def numeral_eq_Suc Let_def)

end
