(* ===== verification/Lpack.thy ===== *)
theory Lpack
  imports Luaw_Prelude
begin

text \<open>
  The binary serialisation library of \<^verbatim>\<open>src/src/lua_lpack.c\<close>: byte order conversion, \<open>read_number\<close>,
  \<open>read_string\<close>, \<open>serialize_write_Q\<close> with its queue of Lua values, the table of types and \<open>to_hex\<close>.
  Lua strings are byte lists. The floating-point conversions of the hardware and the conversions of
  Lua itself are arguments (\<open>lua_env\<close>).
\<close>

section \<open>Type tags\<close>

datatype (plugins only: code size) type_tag =
    TYPE_MARKER
  | MAP_START | ARRAY_START | DICT_START | RECORD_END
  | NIL | BOOL_TRUE | BOOL_FALSE
  | UINT_8 | DICT_ENTRY | UINT_16 | BIG_DICT_ENTRY | UINT_32
  | INT_8 | INT_16 | INT_32 | INT_64 | FLOAT | DOUBLE
  | STRING | BIG_STRING | HUGE_STRING

fun tag_num :: "type_tag \<Rightarrow> int" where
  "tag_num TYPE_MARKER = 0"
| "tag_num MAP_START = 1" | "tag_num ARRAY_START = 2" | "tag_num DICT_START = 3"
| "tag_num RECORD_END = 4" | "tag_num NIL = 5" | "tag_num BOOL_TRUE = 6" | "tag_num BOOL_FALSE = 7"
| "tag_num UINT_8 = 8" | "tag_num DICT_ENTRY = 9" | "tag_num UINT_16 = 10"
| "tag_num BIG_DICT_ENTRY = 11" | "tag_num UINT_32 = 12" | "tag_num INT_8 = 13"
| "tag_num INT_16 = 14" | "tag_num INT_32 = 15" | "tag_num INT_64 = 16" | "tag_num FLOAT = 17"
| "tag_num DOUBLE = 18" | "tag_num STRING = 19" | "tag_num BIG_STRING = 20"
| "tag_num HUGE_STRING = 21"

definition all_tags :: "type_tag list" where
  "all_tags = [TYPE_MARKER, MAP_START, ARRAY_START, DICT_START, RECORD_END, NIL, BOOL_TRUE, BOOL_FALSE,
     UINT_8, DICT_ENTRY, UINT_16, BIG_DICT_ENTRY, UINT_32, INT_8, INT_16, INT_32, INT_64, FLOAT, DOUBLE,
     STRING, BIG_STRING, HUGE_STRING]"

definition tag_of :: "int \<Rightarrow> type_tag option" where
  "tag_of n = find (\<lambda>t. tag_num t = n) all_tags"

lemma tag_of_num [simp]: "tag_of (tag_num t) = Some t"
  by (cases t) (simp_all add: tag_of_def all_tags_def)

lemma tag_num_range: "0 \<le> tag_num t \<and> tag_num t \<le> 21"
  by (cases t) simp_all

section \<open>Byte order\<close>

type_synonym byte = "8 word"

text \<open>
  The memory image of a \<open>k\<close>-byte integer with value \<open>n\<close>, and the value of an image, on a host whose
  byte order is given by \<open>big\<close> (\<open>is_bigendian()\<close>).
\<close>

definition le_bytes :: "nat \<Rightarrow> int \<Rightarrow> byte list" where
  "le_bytes k n = map (\<lambda>i. word_of_int (n div 256 ^ i)) [0..<k]"

fun le_val :: "byte list \<Rightarrow> int" where
  "le_val [] = 0"
| "le_val (b # bs) = uint b + 256 * le_val bs"

definition host_bytes :: "bool \<Rightarrow> nat \<Rightarrow> int \<Rightarrow> byte list" where
  "host_bytes big k n = (if big then rev (le_bytes k n) else le_bytes k n)"

definition host_val :: "bool \<Rightarrow> byte list \<Rightarrow> int" where
  "host_val big bs = le_val (if big then rev bs else bs)"

definition be16 :: "bool \<Rightarrow> byte list \<Rightarrow> byte list" where
  "be16 big inp = (if big then [inp ! 0, inp ! 1] else [inp ! 1, inp ! 0])"

definition be32 :: "bool \<Rightarrow> byte list \<Rightarrow> byte list" where
  "be32 big inp =
     (if big then [inp ! 0, inp ! 1, inp ! 2, inp ! 3] else [inp ! 3, inp ! 2, inp ! 1, inp ! 0])"

definition be64 :: "bool \<Rightarrow> byte list \<Rightarrow> byte list" where
  "be64 big inp =
     (if big then [inp ! 0, inp ! 1, inp ! 2, inp ! 3, inp ! 4, inp ! 5, inp ! 6, inp ! 7]
      else [inp ! 7, inp ! 6, inp ! 5, inp ! 4, inp ! 3, inp ! 2, inp ! 1, inp ! 0])"

text \<open>The three of them by width.\<close>

definition be :: "bool \<Rightarrow> nat \<Rightarrow> byte list \<Rightarrow> byte list" where
  "be big k inp = (if k = 1 then [inp ! 0] else if k = 2 then be16 big inp
     else if k = 4 then be32 big inp else be64 big inp)"

definition be_width :: "nat \<Rightarrow> bool" where
  "be_width k \<longleftrightarrow> k \<in> {1, 2, 4, 8}"

lemma length_2: "length xs = 2 \<longleftrightarrow> (\<exists>a b. xs = [a, b])"
  by (auto simp: numeral_eq_Suc length_Suc_conv)

lemma be_rev: "be_width k \<Longrightarrow> length inp = k \<Longrightarrow> be big k inp = (if big then inp else rev inp)"
  by (auto simp: be_width_def be_def be16_def be32_def be64_def numeral_eq_Suc length_Suc_conv)

lemma length_le_bytes [simp]: "length (le_bytes k n) = k"
  by (simp add: le_bytes_def)

lemma be_network_order: "be_width k \<Longrightarrow> be big k (host_bytes big k n) = rev (le_bytes k n)"
  by (simp add: be_rev host_bytes_def)

lemma host_val_be: "be_width k \<Longrightarrow> length inp = k \<Longrightarrow> host_val big (be big k inp) = le_val (rev inp)"
  by (simp add: be_rev host_val_def)

lemma le_bytes_Suc: "le_bytes (Suc k) n = word_of_int n # le_bytes k (n div 256)"
  by (simp add: le_bytes_def upt_conv_Cons map_Suc_upt[symmetric] zdiv_zmult2_eq del: upt_Suc)

lemma le_val_le_bytes: "le_val (le_bytes k n) = n mod 256 ^ k"
proof (induction k arbitrary: n)
  case (Suc k)
  have "le_val (le_bytes (Suc k) n) = n mod 256 + 256 * (n div 256 mod 256 ^ k)"
    by (simp add: le_bytes_Suc Suc.IH uint_word_of_int)
  also have "\<dots> = n mod 256 ^ Suc k" by (simp add: mod_mult2_eq' zmod_zmult2_eq)
  finally show ?case .
qed (simp add: le_bytes_def)


section \<open>Reading\<close>

text \<open>
  A Lua number is a double. The reader produces integers, given by their value, and the bit
  patterns of \<open>float\<close> and \<open>double\<close>.
\<close>

datatype lua_number = Num_int int | Num_float "32 word" | Num_double "64 word"

definition signed_val :: "nat \<Rightarrow> int \<Rightarrow> int" where
  "signed_val k n = (if n \<ge> 2 ^ (8 * k - 1) then n - 2 ^ (8 * k) else n)"

text \<open>
  \<open>(double) i\<close> for a 64-bit integer: the nearest multiple of \<open>2 ^ e\<close>, ties to even, where \<open>e\<close> is the
  number of bits beyond the 53 of the significand.
\<close>

fun excess_bits :: "nat \<Rightarrow> int \<Rightarrow> nat" where
  "excess_bits 0 n = 0"
| "excess_bits (Suc e) n = (if n < 2 ^ (53 + e) then excess_bits e n else Suc e)"

definition round_even :: "nat \<Rightarrow> int \<Rightarrow> int" where
  "round_even e n =
     (let q = n div 2 ^ e; r = n mod 2 ^ e in
      (if 2 * r > 2 ^ e \<or> 2 * r = 2 ^ e \<and> odd q then q + 1 else q) * 2 ^ e)"

definition double_of_int :: "int \<Rightarrow> int" where
  "double_of_int n = (if n < 0 then - round_even (excess_bits 11 (- n)) (- n)
                      else round_even (excess_bits 11 n) n)"

datatype read_end = Read nat lua_number | Buffer_underflow | Invalid_marker int | Read_outside

text \<open>
  The width of the number that \<open>read_number\<close> reads for a tag, and how its bytes become a number.
  The tags of strings and dictionary entries stand for their length or index.
\<close>

definition number_width :: "type_tag \<Rightarrow> nat option" where
  "number_width t = (case t of
     TYPE_MARKER \<Rightarrow> Some 1 | UINT_8 \<Rightarrow> Some 1 | STRING \<Rightarrow> Some 1 | DICT_ENTRY \<Rightarrow> Some 1
   | UINT_16 \<Rightarrow> Some 2 | BIG_STRING \<Rightarrow> Some 2 | BIG_DICT_ENTRY \<Rightarrow> Some 2
   | UINT_32 \<Rightarrow> Some 4 | HUGE_STRING \<Rightarrow> Some 4
   | INT_8 \<Rightarrow> Some 1 | INT_16 \<Rightarrow> Some 2 | INT_32 \<Rightarrow> Some 4 | INT_64 \<Rightarrow> Some 8
   | FLOAT \<Rightarrow> Some 4 | DOUBLE \<Rightarrow> Some 8
   | _ \<Rightarrow> None)"

definition number_of :: "type_tag \<Rightarrow> int \<Rightarrow> lua_number" where
  "number_of t v = (case t of
     INT_8 \<Rightarrow> Num_int (signed_val 1 v)
   | INT_16 \<Rightarrow> Num_int (signed_val 2 v)
   | INT_32 \<Rightarrow> Num_int (signed_val 4 v)
   | INT_64 \<Rightarrow> Num_int (double_of_int (signed_val 8 v))
   | FLOAT \<Rightarrow> Num_float (word_of_int v)
   | DOUBLE \<Rightarrow> Num_double (word_of_int v)
   | _ \<Rightarrow> Num_int v)"

text \<open>
  \<open>read_number\<close>: the buffer is shorter than \<open>2 ^ 31\<close> bytes, so \<open>remaining\<close> is the plain difference.
  A negative offset, which becomes a huge \<open>size_t\<close>, passes the underflow test and moves the pointer
  in front of the buffer.
\<close>

definition read_number :: "bool \<Rightarrow> int \<Rightarrow> byte list \<Rightarrow> int \<Rightarrow> read_end" where
  "read_number big num_type buff offset =
     (let remaining = int (length buff) - offset in
      if remaining < 0 then Buffer_underflow
      else case tag_of num_type of
        None \<Rightarrow> Invalid_marker num_type
      | Some t \<Rightarrow> (case number_width t of
          None \<Rightarrow> Invalid_marker num_type
        | Some k \<Rightarrow>
            if remaining < int k then Read 0 (Num_int 0)
            else if offset < 0 then Read_outside
            else Read k (number_of t (host_val big (be big k (span (nat offset) k buff))))))"

datatype string_end = Read_str nat "byte list" | Str_underflow | Str_outside

definition read_string :: "int \<Rightarrow> byte list \<Rightarrow> int \<Rightarrow> string_end" where
  "read_string desired buff offset =
     (let remaining = int (length buff) - offset in
      if remaining < 0 then Str_underflow
      else let n = (if remaining \<ge> desired then desired else remaining) in
        if n < 0 \<or> offset < 0 then Str_outside
        else Read_str (nat n) (span (nat offset) (nat n) buff))"

section \<open>Writing\<close>

text \<open>
  A value of the write queue: a number with an integral value, another number given by its bits, a
  string, or anything else. The conversions of the floating-point unit, and Lua's own conversions
  between numbers and strings, are not part of the sources and are arguments.
\<close>

datatype lua_value = LInt int | LDouble "64 word" | LString "byte list" | LOther

record lua_env =
  env_tonumber :: "byte list \<Rightarrow> lua_value option"
  env_trunc :: "64 word \<Rightarrow> int"
  env_double_bits :: "int \<Rightarrow> 64 word"
  env_float_bits :: "lua_value \<Rightarrow> 32 word"
  env_tostring :: "lua_value \<Rightarrow> byte list"

text \<open>\<open>lua_isnumber\<close> and \<open>lua_tonumber\<close>: strings that spell a number are converted.\<close>

definition as_number :: "lua_env \<Rightarrow> lua_value \<Rightarrow> lua_value option" where
  "as_number E v = (case v of
     LInt i \<Rightarrow> Some v | LDouble w \<Rightarrow> Some v | LString s \<Rightarrow> env_tonumber E s | LOther \<Rightarrow> None)"

definition trunc_number :: "lua_env \<Rightarrow> lua_value \<Rightarrow> int" where
  "trunc_number E v = (case v of LInt i \<Rightarrow> i | LDouble w \<Rightarrow> env_trunc E w | _ \<Rightarrow> 0)"

definition to_int32 :: "int \<Rightarrow> int" where
  "to_int32 i = sint (word_of_int i :: 32 word)"

definition fetch_next_as_integer :: "lua_env \<Rightarrow> lua_value \<Rightarrow> int option" where
  "fetch_next_as_integer E v = map_option (\<lambda>n. to_int32 (trunc_number E n)) (as_number E v)"

text \<open>\<open>!lua_tonumber(L, -1)\<close> holds for a value that is no number, and also for zero.\<close>

definition is_zero :: "lua_value \<Rightarrow> bool" where
  "is_zero v \<longleftrightarrow> v = LInt 0 \<or> v = LDouble 0 \<or> v = LDouble (2 ^ 63)"

definition fetch_next_as_double :: "lua_env \<Rightarrow> lua_value \<Rightarrow> lua_value option" where
  "fetch_next_as_double E v = (case as_number E v of
     None \<Rightarrow> None | Some n \<Rightarrow> if is_zero n then None else Some n)"

text \<open>\<open>lua_tolstring\<close> turns a number into a string.\<close>

definition fetch_next_as_string :: "lua_env \<Rightarrow> lua_value \<Rightarrow> byte list option" where
  "fetch_next_as_string E v = (case v of
     LString s \<Rightarrow> Some s | LOther \<Rightarrow> None | _ \<Rightarrow> Some (env_tostring E v))"

definition double_bits :: "lua_env \<Rightarrow> lua_value \<Rightarrow> 64 word" where
  "double_bits E v = (case v of LInt i \<Rightarrow> env_double_bits E i | LDouble w \<Rightarrow> w | _ \<Rightarrow> 0)"

datatype ser_error = Not_a_table | Zero_length | No_memory | Bad_value | No_room | Bad_marker int
  | Heap_overflow

text \<open>
  What one marker wants: nothing, a \<open>k\<close>-byte integer (with or without a test for room), an
  integer that arrives as a double, a float, a double, or a string with a \<open>k\<close>-byte length.
\<close>

datatype item_kind = No_value | Int_value nat bool | Int64_value | Float_value | Double_value
  | String_value nat | Bad_kind

definition item_kind :: "type_tag \<Rightarrow> item_kind" where
  "item_kind t = (case t of
     MAP_START \<Rightarrow> No_value | ARRAY_START \<Rightarrow> No_value | DICT_START \<Rightarrow> No_value | RECORD_END \<Rightarrow> No_value
   | NIL \<Rightarrow> No_value | BOOL_TRUE \<Rightarrow> No_value | BOOL_FALSE \<Rightarrow> No_value
   | UINT_8 \<Rightarrow> Int_value 1 True | DICT_ENTRY \<Rightarrow> Int_value 1 True
   | UINT_16 \<Rightarrow> Int_value 2 True | BIG_DICT_ENTRY \<Rightarrow> Int_value 2 True
   | UINT_32 \<Rightarrow> Int_value 4 False
   | INT_8 \<Rightarrow> Int_value 1 True | INT_16 \<Rightarrow> Int_value 2 True | INT_32 \<Rightarrow> Int_value 4 True
   | INT_64 \<Rightarrow> Int64_value | FLOAT \<Rightarrow> Float_value | DOUBLE \<Rightarrow> Double_value
   | STRING \<Rightarrow> String_value 1 | BIG_STRING \<Rightarrow> String_value 2 | HUGE_STRING \<Rightarrow> String_value 4
   | TYPE_MARKER \<Rightarrow> Bad_kind)"

text \<open>
  \<open>out\<close> is the part of the buffer written so far, so \<open>pos\<close> is its length. \<open>CHECK_ROOM\<close> and the write
  itself: a write past the end of the allocated block is \<open>Heap_overflow\<close>.
\<close>

definition room :: "nat \<Rightarrow> byte list \<Rightarrow> nat \<Rightarrow> bool" where
  "room cap out need \<longleftrightarrow> \<not> length out + need > cap"

definition put :: "nat \<Rightarrow> byte list \<Rightarrow> byte list \<Rightarrow> ser_error + byte list" where
  "put cap bs out = (if length out + length bs > cap then Inl Heap_overflow else Inr (out @ bs))"

definition net_bytes :: "bool \<Rightarrow> nat \<Rightarrow> int \<Rightarrow> byte list" where
  "net_bytes big k n = be big k (host_bytes big k n)"

definition write_value ::
  "bool \<Rightarrow> lua_env \<Rightarrow> nat \<Rightarrow> item_kind \<Rightarrow> lua_value \<Rightarrow> byte list \<Rightarrow> ser_error + byte list" where
  "write_value big E cap kind v out = (case kind of
     Int_value k check \<Rightarrow>
       if check \<and> \<not> room cap out k then Inl No_room
       else (case fetch_next_as_integer E v of
               None \<Rightarrow> Inl Bad_value | Some i \<Rightarrow> put cap (net_bytes big k i) out)
   | Int64_value \<Rightarrow>
       if \<not> room cap out 8 then Inl No_room
       else (case fetch_next_as_double E v of
               None \<Rightarrow> Inl Bad_value | Some d \<Rightarrow> put cap (net_bytes big 8 (trunc_number E d)) out)
   | Float_value \<Rightarrow>
       if \<not> room cap out 4 then Inl No_room
       else (case fetch_next_as_double E v of
               None \<Rightarrow> Inl Bad_value | Some d \<Rightarrow> put cap (net_bytes big 4 (uint (env_float_bits E d))) out)
   | Double_value \<Rightarrow>
       if \<not> room cap out 8 then Inl No_room
       else (case fetch_next_as_double E v of
               None \<Rightarrow> Inl Bad_value | Some d \<Rightarrow> put cap (net_bytes big 8 (uint (double_bits E d))) out)
   | String_value k \<Rightarrow>
       (case fetch_next_as_string E v of
          None \<Rightarrow> Inl Bad_value
        | Some s \<Rightarrow>
            if \<not> room cap out (k + length s) then Inl No_room
            else put cap (net_bytes big k (int (length s)) @ s) out)
   | _ \<Rightarrow> Inr out)"

text \<open>The loop over the queue; a value that is missing at its end reads as \<open>nil\<close>.\<close>

fun serialize_loop ::
  "bool \<Rightarrow> lua_env \<Rightarrow> nat \<Rightarrow> lua_value list \<Rightarrow> byte list \<Rightarrow> ser_error + byte list" where
  "serialize_loop big E cap [] out = Inr out"
| "serialize_loop big E cap (m # q) out =
     (case fetch_next_as_integer E m of
        None \<Rightarrow> Inl Bad_value
      | Some marker \<Rightarrow>
          if \<not> room cap out 1 then Inl No_room
          else let out1 = out @ [word_of_int marker] in
            (case tag_of marker of
               None \<Rightarrow> Inl (Bad_marker marker)
             | Some t \<Rightarrow>
                 (if item_kind t = Bad_kind then Inl (Bad_marker marker)
                  else if item_kind t = No_value then serialize_loop big E cap q out1
                  else (case q of
                      [] \<Rightarrow> (case write_value big E cap (item_kind t) LOther out1 of
                               Inl e \<Rightarrow> Inl e | Inr out2 \<Rightarrow> Inr out2)
                    | v # q' \<Rightarrow> (case write_value big E cap (item_kind t) v out1 of
                               Inl e \<Rightarrow> Inl e | Inr out2 \<Rightarrow> serialize_loop big E cap q' out2)))))"

text \<open>
  \<open>serialize_write_Q\<close>: the queue is a table (\<^const>\<open>None\<close> otherwise) and \<open>len\<close> the caller's estimate of the
  size, a \<open>size_t\<close>; \<open>malloc_ok\<close> tells whether a block of the given size is available. \<open>const int buffsize = len +
  64\<close> keeps the low 32 bits; where they are negative, \<open>malloc\<close> is asked for their huge value as a \<open>size_t\<close>
  and the room is none: the test before the first marker, made in \<open>int\<close>, fails.
\<close>

definition buff_size :: "nat \<Rightarrow> int" where
  "buff_size len = to_int32 (int len + 64)"

definition serialize_write_Q ::
  "bool \<Rightarrow> lua_env \<Rightarrow> (nat \<Rightarrow> bool) \<Rightarrow> lua_value list option \<Rightarrow> nat \<Rightarrow> ser_error + byte list" where
  "serialize_write_Q big E malloc_ok table len = (case table of
     None \<Rightarrow> Inl Not_a_table
   | Some q \<Rightarrow>
       if len = 0 then Inl Zero_length
       else let buffsize = buff_size len in
         if \<not> malloc_ok (nat (buffsize mod 2 ^ 64)) then Inl No_memory
         else serialize_loop big E (nat buffsize) q [])"

section \<open>Hexadecimal numbers\<close>

definition hex_lower :: "nat \<Rightarrow> char" where
  "hex_lower n = ''0123456789abcdef'' ! n"

fun hex_string :: "nat \<Rightarrow> string" where
  "hex_string n = (if n < 16 then [hex_lower n] else hex_string (n div 16) @ [hex_lower (n mod 16)])"

declare hex_string.simps [simp del]

datatype hex_end = Hex string | Hex_too_large | Hex_overflow

text \<open>
  \<open>sprintf(hex, "%x", num)\<close> prints the 32-bit pattern of \<open>num\<close> and a NUL into \<open>char hex[5]\<close>.
\<close>

definition to_hex :: "int \<Rightarrow> hex_end" where
  "to_hex num =
     (if num > 65536 then Hex_too_large
      else let s = hex_string (nat (num mod 2 ^ 32)) in
        if length s + 1 > 5 then Hex_overflow else Hex s)"

section \<open>Reading back what was written\<close>

lemma length_net_bytes [simp]: "be_width k \<Longrightarrow> length (net_bytes big k n) = k"
  by (simp add: net_bytes_def be_network_order)

lemma net_bytes_portable: "be_width k \<Longrightarrow> net_bytes big k n = rev (le_bytes k n)"
  by (simp add: net_bytes_def be_network_order)

lemma net_value: "be_width k \<Longrightarrow> host_val big' (be big' k (net_bytes big k n)) = n mod 256 ^ k"
  by (simp add: host_val_be net_bytes_portable le_val_le_bytes)

lemma le_bytes_cong: "n mod 256 ^ k = m mod 256 ^ k \<Longrightarrow> le_bytes k n = le_bytes k m"
proof (induction k arbitrary: n m)
  case (Suc k)
  have "256 dvd (256 ^ Suc k :: int)" by simp
  then have nm: "n mod 256 = m mod 256" using Suc.prems by (metis mod_mod_cancel)
  have "256 * (n div 256 mod 256 ^ k) + n mod 256 = 256 * (m div 256 mod 256 ^ k) + m mod 256"
    using Suc.prems by (simp add: zmod_zmult2_eq)
  with nm have "n div 256 mod 256 ^ k = m div 256 mod 256 ^ k" by simp
  from Suc.IH[OF this] nm show ?case
    by (simp add: le_bytes_Suc word_of_int_eq_iff take_bit_eq_mod)
qed (simp add: le_bytes_def)

lemma to_int32_mod: "to_int32 i mod 2 ^ 32 = i mod 2 ^ 32"
proof -
  have "to_int32 i = signed_take_bit 31 i" by (simp add: to_int32_def signed_of_int)
  then have "take_bit 32 (to_int32 i) = take_bit 32 i" by (simp add: take_bit_signed_take_bit)
  then show ?thesis by (simp only: take_bit_eq_mod)
qed

lemma net_bytes_int32:
  assumes "k \<in> {1, 2, 4}"
  shows "net_bytes big k (to_int32 i) = net_bytes big k i"
proof -
  have d: "256 ^ k dvd (2 ^ 32 :: int)" using assms by (auto simp: dvd_def intro: exI[of _ 1])
  then have "to_int32 i mod 256 ^ k = i mod 256 ^ k"
    using to_int32_mod[of i] by (metis mod_mod_cancel)
  then have "le_bytes k (to_int32 i) = le_bytes k i" by (rule le_bytes_cong)
  moreover have "be_width k" using assms by (auto simp: be_width_def)
  ultimately show ?thesis by (simp add: net_bytes_portable)
qed

lemma signed_val_mod:
  assumes "k \<ge> 1" "- (2 ^ (8 * k - 1)) \<le> v" "v < 2 ^ (8 * k - 1)"
  shows "signed_val k (v mod 2 ^ (8 * k)) = v"
proof -
  have p: "(2 :: int) ^ (8 * k) = 2 * 2 ^ (8 * k - 1)"
    using assms(1) by (metis mult_is_0 not_one_le_zero power_eq_if zero_neq_numeral)
  show ?thesis
  proof (cases "v < 0")
    case True
    then have "(v + 2 ^ (8 * k)) mod 2 ^ (8 * k) = v + 2 ^ (8 * k)"
      using assms p by (intro mod_pos_pos_trivial) auto
    then have "v mod 2 ^ (8 * k) = v + 2 ^ (8 * k)" by simp
    with True assms p show ?thesis by (simp add: signed_val_def)
  next
    case False
    then show ?thesis using assms p by (simp add: signed_val_def)
  qed
qed

lemma excess_bits_0: "n < 2 ^ 53 \<Longrightarrow> excess_bits e n = 0"
proof (induction e)
  case (Suc e)
  have "(2 :: int) ^ 53 \<le> 2 ^ (53 + e)" by (rule power_increasing) simp_all
  with Suc show ?case by simp
qed simp

lemma double_of_int_exact: "\<bar>n\<bar> < 2 ^ 53 \<Longrightarrow> double_of_int n = n"
  by (auto simp: double_of_int_def excess_bits_0 round_even_def)

section \<open>Ranges of the types\<close>

text \<open>
  The table of \<open>define_lapck_types\<close>: name, tag, size, least and greatest value. The bounds of the two
  floating-point types are the largest finite numbers, here as integers.
\<close>

definition FLT_MAX :: int where "FLT_MAX = (2 ^ 24 - 1) * 2 ^ 104"
definition DBL_MAX :: int where "DBL_MAX = (2 ^ 53 - 1) * 2 ^ 971"

definition define_lapck_types :: "(string \<times> type_tag \<times> nat \<times> int \<times> int) list" where
  "define_lapck_types =
     [(''TYPE_MARKER'', TYPE_MARKER, 0, -1, -1),
      (''MAP_START'', MAP_START, 1, 1, 1), (''ARRAY_START'', ARRAY_START, 1, 2, 2),
      (''DICT_START'', DICT_START, 1, 3, 3), (''RECORD_END'', RECORD_END, 1, 4, 4),
      (''NIL'', NIL, 1, 5, 5), (''BOOL_TRUE'', BOOL_TRUE, 1, 6, 6),
      (''BOOL_FALSE'', BOOL_FALSE, 1, 7, 7),
      (''UINT_8'', UINT_8, 1, 0, 255), (''DICT_ENTRY'', DICT_ENTRY, 1, 0, 255),
      (''UINT_16'', UINT_16, 2, 0, 65535), (''BIG_DICT_ENTRY'', BIG_DICT_ENTRY, 2, 0, 65535),
      (''UINT_32'', UINT_32, 4, 0, 4294967295), (''INT_8'', INT_8, 1, - 128, 127),
      (''INT_16'', INT_16, 2, - 32768, 32767),
      (''INT_32'', INT_32, 4, - 2147483648, 2147483647),
      (''INT_64'', INT_64, 8, - 9223372036854775808, 9223372036854775807),
      (''FLOAT'', FLOAT, 4, - FLT_MAX, FLT_MAX), (''DOUBLE'', DOUBLE, 8, - DBL_MAX, DBL_MAX),
      (''STRING'', STRING, 1, 0, 255), (''BIG_STRING'', BIG_STRING, 2, 0, 65535),
      (''HUGE_STRING'', HUGE_STRING, 4, 0, 4294967295)]"

text \<open>The rows of the integer types, and those of the string types, whose bounds are for the length.\<close>

definition int_tags :: "type_tag list" where
  "int_tags = [UINT_8, DICT_ENTRY, UINT_16, BIG_DICT_ENTRY, UINT_32, INT_8, INT_16, INT_32, INT_64]"

definition lpack_int_types :: "(type_tag \<times> nat \<times> int \<times> int) list" where
  "lpack_int_types = filter (\<lambda>(t, _). t \<in> set int_tags) (map snd define_lapck_types)"

definition lpack_string_types :: "(type_tag \<times> nat \<times> int \<times> int) list" where
  "lpack_string_types = filter (\<lambda>(t, _). t \<in> set [STRING, BIG_STRING, HUGE_STRING]) (map snd define_lapck_types)"

lemma lpack_int_rows:
  "lpack_int_types =
     [(UINT_8, 1, 0, 255), (DICT_ENTRY, 1, 0, 255), (UINT_16, 2, 0, 65535),
      (BIG_DICT_ENTRY, 2, 0, 65535), (UINT_32, 4, 0, 4294967295), (INT_8, 1, - 128, 127),
      (INT_16, 2, - 32768, 32767), (INT_32, 4, - 2147483648, 2147483647),
      (INT_64, 8, - 9223372036854775808, 9223372036854775807)]"
  by (simp add: lpack_int_types_def define_lapck_types_def int_tags_def)

lemma lpack_string_rows:
  "lpack_string_types = [(STRING, 1, 0, 255), (BIG_STRING, 2, 0, 65535), (HUGE_STRING, 4, 0, 4294967295)]"
  by (simp add: lpack_string_types_def define_lapck_types_def)

lemma number_of_written:
  assumes "(t, k, lo, hi) \<in> set (lpack_int_types @ lpack_string_types)" "lo \<le> v" "v \<le> hi"
    "t = INT_64 \<longrightarrow> \<bar>v\<bar> < 2 ^ 53"
  shows "number_of t (v mod 256 ^ k) = Num_int v"
  using assms signed_val_mod[of 1 v] signed_val_mod[of 2 v] signed_val_mod[of 4 v] signed_val_mod[of 8 v]
  by (auto simp: lpack_int_rows lpack_string_rows number_of_def double_of_int_exact)

lemma read_number_written:
  assumes "(t, k, lo, hi) \<in> set (lpack_int_types @ lpack_string_types)" "lo \<le> v" "v \<le> hi"
    "t = INT_64 \<longrightarrow> \<bar>v\<bar> < 2 ^ 53"
  shows "read_number big' (tag_num t) (A @ net_bytes big k v @ B) (int (length A)) = Read k (Num_int v)"
proof -
  have k: "be_width k" "number_width t = Some k"
    using assms(1) by (auto simp: lpack_int_rows lpack_string_rows be_width_def number_width_def)
  have "span (length A) k (A @ net_bytes big k v @ B) = net_bytes big k v"
    using k(1) by (simp add: span_def)
  with k net_value[OF k(1), of big' big v] number_of_written[OF assms] show ?thesis
    by (simp add: read_number_def Let_def)
qed


section \<open>A whole queue\<close>

text \<open>
  The items a producer puts on the queue: a bare marker, an integer or a string with its type, or a double
  given by its bits.
\<close>

datatype item = Mark type_tag | Num type_tag int | Str type_tag "byte list" | Dbl "64 word"

fun item_queue :: "item \<Rightarrow> lua_value list" where
  "item_queue (Mark t) = [LInt (tag_num t)]"
| "item_queue (Num t v) = [LInt (tag_num t), LInt v]"
| "item_queue (Str t s) = [LInt (tag_num t), LString s]"
| "item_queue (Dbl w) = [LInt (tag_num DOUBLE), LDouble w]"

text \<open>
  The value of an item lies in the range its type announces; a 64-bit integer fits a double, and neither it nor
  a double is zero.
\<close>

fun item_ok :: "item \<Rightarrow> bool" where
  "item_ok (Mark t) \<longleftrightarrow> item_kind t = No_value"
| "item_ok (Num t v) \<longleftrightarrow> list_ex (\<lambda>(t', k, lo, hi). t' = t \<and> lo \<le> v \<and> v \<le> hi) lpack_int_types
     \<and> (t = INT_64 \<longrightarrow> \<bar>v\<bar> < 2 ^ 53 \<and> v \<noteq> 0)"
| "item_ok (Str t s) \<longleftrightarrow>
     list_ex (\<lambda>(t', k, lo, hi). t' = t \<and> int (length s) \<le> hi) lpack_string_types"
| "item_ok (Dbl w) \<longleftrightarrow> w \<noteq> 0 \<and> w \<noteq> 2 ^ 63"

fun item_bytes :: "bool \<Rightarrow> item \<Rightarrow> byte list" where
  "item_bytes big (Mark t) = [word_of_int (tag_num t)]"
| "item_bytes big (Num t v) = word_of_int (tag_num t) # net_bytes big (the (number_width t)) v"
| "item_bytes big (Str t s) =
     word_of_int (tag_num t) # net_bytes big (the (number_width t)) (int (length s)) @ s"
| "item_bytes big (Dbl w) = word_of_int (tag_num DOUBLE) # net_bytes big 8 (uint w)"

text \<open>Reading one item with the two readers, as the unpacker does: the marker, then its value.\<close>

definition read_item :: "bool \<Rightarrow> byte list \<Rightarrow> int \<Rightarrow> (item \<times> int) option" where
  "read_item big buff off = (case read_number big (tag_num TYPE_MARKER) buff off of
     Read n (Num_int m) \<Rightarrow>
       if n = 0 then None else (case tag_of m of
         None \<Rightarrow> None
       | Some t \<Rightarrow>
           if item_kind t = No_value then Some (Mark t, off + int n)
           else (case read_number big m buff (off + int n) of
             Read k (Num_int v) \<Rightarrow>
               if k = 0 then None
               else if t \<in> {STRING, BIG_STRING, HUGE_STRING} then
                 (case read_string v buff (off + int n + int k) of
                    Read_str l s \<Rightarrow> if int l < v then None else Some (Str t s, off + int n + int k + int l)
                  | _ \<Rightarrow> None)
               else Some (Num t v, off + int n + int k)
           | Read k (Num_double w) \<Rightarrow> Some (Dbl w, off + int n + int k)
           | _ \<Rightarrow> None))
   | _ \<Rightarrow> None)"

fun read_items :: "bool \<Rightarrow> nat \<Rightarrow> byte list \<Rightarrow> int \<Rightarrow> (item list \<times> int) option" where
  "read_items big 0 buff off = Some ([], off)"
| "read_items big (Suc n) buff off = (case read_item big buff off of
     None \<Rightarrow> None
   | Some (i, off') \<Rightarrow> map_option (apfst ((#) i)) (read_items big n buff off'))"

lemma to_int32_tag [simp]: "to_int32 (tag_num t) = tag_num t"
  by (cases t) (simp_all add: to_int32_def)

lemma fetch_int [simp]: "fetch_next_as_integer E (LInt v) = Some (to_int32 v)"
  by (simp add: fetch_next_as_integer_def as_number_def trunc_number_def)

lemma int_type_facts:
  assumes "(t, k, lo, hi) \<in> set lpack_int_types"
  shows "number_width t = Some k" "be_width k" "t \<notin> {STRING, BIG_STRING, HUGE_STRING}"
    "item_kind t = Int_value k True \<and> k \<in> {1, 2, 4} \<or> item_kind t = Int_value k False \<and> k = 4
      \<or> t = INT_64 \<and> item_kind t = Int64_value \<and> k = 8"
  using assms by (auto simp: lpack_int_rows number_width_def be_width_def item_kind_def)

lemma string_type_facts:
  assumes "(t, k, lo, hi) \<in> set lpack_string_types"
  shows "number_width t = Some k" "be_width k" "t \<in> {STRING, BIG_STRING, HUGE_STRING}"
    "item_kind t = String_value k" "lo = 0"
  using assms by (auto simp: lpack_string_rows number_width_def be_width_def item_kind_def)

lemma serialize_item:
  assumes "item_ok i" "length out + length (item_bytes big i) \<le> cap"
  shows "serialize_loop big E cap (item_queue i @ q) out = serialize_loop big E cap q (out @ item_bytes big i)"
proof (cases i)
  case (Mark t)
  with assms show ?thesis by (simp add: room_def)
next
  case (Num t v)
  then obtain k lo hi where r: "(t, k, lo, hi) \<in> set lpack_int_types" "lo \<le> v" "v \<le> hi"
    "t = INT_64 \<longrightarrow> \<bar>v\<bar> < 2 ^ 53 \<and> v \<noteq> 0"
    using assms(1) by (auto simp: list_ex_iff)
  note f = int_type_facts[OF r(1)]
  have len: "length out + 1 + k \<le> cap" using assms(2) Num f by simp
  have "write_value big E cap (item_kind t) (LInt v) (out @ [word_of_int (tag_num t)]) =
      Inr (out @ item_bytes big i)"
    using f r(4) len Num net_bytes_int32[of k big v]
    by (auto simp: write_value_def room_def put_def fetch_next_as_double_def as_number_def
        is_zero_def trunc_number_def be_width_def)
  moreover have "item_kind t \<noteq> Bad_kind" "item_kind t \<noteq> No_value" using f(4) by auto
  ultimately show ?thesis using Num len by (simp add: room_def)
next
  case (Str t s)
  then obtain k lo hi where r: "(t, k, lo, hi) \<in> set lpack_string_types"
    using assms(1) by (auto simp: list_ex_iff)
  note f = string_type_facts[OF r]
  have len: "length out + 1 + k + length s \<le> cap" using assms(2) Str f by simp
  have "write_value big E cap (item_kind t) (LString s) (out @ [word_of_int (tag_num t)]) =
      Inr (out @ item_bytes big i)"
    using f len Str by (simp add: write_value_def room_def put_def fetch_next_as_string_def)
  with f Str len show ?thesis by (simp add: room_def)
next
  case (Dbl w)
  have "write_value big E cap (item_kind DOUBLE) (LDouble w) (out @ [word_of_int (tag_num DOUBLE)]) =
      Inr (out @ item_bytes big i)"
    using assms Dbl
    by (simp add: item_kind_def write_value_def room_def put_def fetch_next_as_double_def as_number_def is_zero_def
        double_bits_def be_width_def del: tag_num.simps)
  then show ?thesis using assms(2) Dbl by (simp add: room_def item_kind_def del: tag_num.simps)
qed

lemma serialize_items:
  assumes "\<forall>i \<in> set items. item_ok i" "length out + length (concat (map (item_bytes big) items)) \<le> cap"
  shows "serialize_loop big E cap (concat (map item_queue items)) out =
     Inr (out @ concat (map (item_bytes big) items))"
  using assms
  by (induction items arbitrary: out) (simp_all add: serialize_item)

lemma read_marker:
  "read_number big (tag_num TYPE_MARKER) (A @ word_of_int (tag_num t) # B) (int (length A)) =
     Read 1 (Num_int (tag_num t))"
  using tag_num_range[of t]
  by (simp add: read_number_def number_width_def number_of_def span_def be_def host_val_def uint_word_of_int
      del: tag_num.simps(1))

lemma read_item_written:
  assumes "item_ok i"
  shows "read_item big' (A @ item_bytes big i @ B) (int (length A)) =
     Some (i, int (length A + length (item_bytes big i)))"
proof (cases i)
  case (Mark t)
  with assms read_marker[of big' A t B] show ?thesis by (simp add: read_item_def del: tag_num.simps)
next
  case (Num t v)
  then obtain k lo hi where r: "(t, k, lo, hi) \<in> set lpack_int_types" "lo \<le> v" "v \<le> hi"
    "t = INT_64 \<longrightarrow> \<bar>v\<bar> < 2 ^ 53"
    using assms(1) by (auto simp: list_ex_iff)
  note f = int_type_facts[OF r(1)]
  have k0: "k \<noteq> 0" using f(2) by (auto simp: be_width_def)
  have "read_number big' (tag_num t) ((A @ [word_of_int (tag_num t)]) @ net_bytes big k v @ B)
      (int (length (A @ [word_of_int (tag_num t) :: byte]))) = Read k (Num_int v)"
    using r by (intro read_number_written) auto
  moreover have "item_kind t \<noteq> No_value" using f(4) by auto
  ultimately show ?thesis
    using read_marker[of big' A t "net_bytes big k v @ B"] Num f(1-3) k0
    by (simp add: read_item_def add.commute del: tag_num.simps)
next
  case (Str t s)
  then obtain k lo hi where r: "(t, k, lo, hi) \<in> set lpack_string_types" "int (length s) \<le> hi"
    using assms(1) by (auto simp: list_ex_iff)
  note f = string_type_facts[OF r(1)]
  have k0: "k \<noteq> 0" using f(2) by (auto simp: be_width_def)
  let ?A = "A @ [word_of_int (tag_num t) :: byte]"
  have n: "read_number big' (tag_num t) (?A @ net_bytes big k (int (length s)) @ s @ B) (int (length ?A)) =
      Read k (Num_int (int (length s)))"
    using r f(3,5) by (intro read_number_written) auto
  have s: "read_string (int (length s)) (?A @ net_bytes big k (int (length s)) @ s @ B)
      (int (length ?A) + int k) = Read_str (length s) s"
    using f(2) by (simp add: read_string_def Let_def span_def nat_add_distrib)
  show ?thesis
    using read_marker[of big' A t "net_bytes big k (int (length s)) @ s @ B"] n s Str f k0
    by (simp add: read_item_def add.commute del: tag_num.simps)
next
  case (Dbl w)
  let ?A = "A @ [word_of_int (tag_num DOUBLE) :: byte]"
  have w: "be_width 8" by (simp add: be_width_def)
  have "span (length ?A) 8 (?A @ net_bytes big 8 (uint w) @ B) = net_bytes big 8 (uint w)"
    using w by (simp add: span_def)
  moreover have "uint w mod 256 ^ 8 = uint w"
    using uint_bounded[of w] by (intro mod_pos_pos_trivial) simp_all
  then have "host_val big' (be big' 8 (net_bytes big 8 (uint w))) = uint w"
    using net_value[OF w, of big' big "uint w"] by simp
  ultimately have "read_number big' (tag_num DOUBLE) (?A @ net_bytes big 8 (uint w) @ B) (int (length ?A)) =
      Read 8 (Num_double w)"
    using w by (simp add: read_number_def Let_def number_width_def number_of_def nat_add_distrib del: tag_num.simps)
  then show ?thesis
    using read_marker[of big' A DOUBLE "net_bytes big 8 (uint w) @ B"] Dbl w
    by (simp add: read_item_def item_kind_def add.commute del: tag_num.simps)
qed

lemma read_items_written:
  assumes "\<forall>i \<in> set items. item_ok i"
  shows "read_items big' (length items) (A @ concat (map (item_bytes big) items) @ B) (int (length A)) =
     Some (items, int (length A + length (concat (map (item_bytes big) items))))"
  using assms
proof (induction items arbitrary: A)
  case (Cons i items)
  from read_item_written[of i big' A big "concat (map (item_bytes big) items) @ B"]
    Cons.IH[of "A @ item_bytes big i"] Cons.prems
  show ?case by (simp add: add.assoc)
qed simp


section \<open>The buffer is not overrun\<close>

lemma write_value_fits:
  assumes "kind \<noteq> Int_value 4 False" "kind \<in> range item_kind" "write_value big E cap kind v out = r"
  shows "r \<noteq> Inl Heap_overflow" and "r = Inr out' \<Longrightarrow> length out \<le> cap \<Longrightarrow> length out' \<le> cap"
proof -
  obtain t where t: "kind = item_kind t" using assms(2) by blast
  show "r \<noteq> Inl Heap_overflow" "r = Inr out' \<Longrightarrow> length out \<le> cap \<Longrightarrow> length out' \<le> cap"
    using assms(1,3) t
    by (cases t; auto simp: item_kind_def write_value_def room_def put_def be_width_def
        split: option.splits if_splits)+
qed

text \<open>The markers that the loop meets, up to the first one that ends it.\<close>

fun queue_markers :: "lua_env \<Rightarrow> lua_value list \<Rightarrow> int list" where
  "queue_markers E [] = []"
| "queue_markers E (m # q) =
     (case fetch_next_as_integer E m of
        None \<Rightarrow> []
      | Some marker \<Rightarrow> marker #
          (case tag_of marker of
             None \<Rightarrow> []
           | Some t \<Rightarrow>
               (if item_kind t = Bad_kind then []
                else if item_kind t = No_value then queue_markers E q
                else (case q of [] \<Rightarrow> [] | v # q' \<Rightarrow> queue_markers E q'))))"

lemma serialize_loop_fits:
  assumes "tag_num UINT_32 \<notin> set (queue_markers E q)" "length out \<le> cap"
  shows "case serialize_loop big E cap q out of Inl e \<Rightarrow> e \<noteq> Heap_overflow | Inr out' \<Rightarrow> length out' \<le> cap"
  using assms
proof (induction big E cap q out rule: serialize_loop.induct)
  case (2 big E cap m q out)
  show ?case
  proof (cases "fetch_next_as_integer E m")
    case (Some marker)
    show ?thesis
    proof (cases "room cap out 1 \<and> tag_of marker \<noteq> None")
      case True
      then obtain t where t: "tag_of marker = Some t" by blast
      let ?out = "out @ [word_of_int marker]"
      have len: "length ?out \<le> cap" using True by (simp add: room_def)
      have "tag_num t = marker" using t by (auto simp: tag_of_def find_Some_iff)
      then have k: "item_kind t \<noteq> Int_value 4 False"
        using "2.prems"(1) Some by (cases t) (auto simp: item_kind_def)
      consider "item_kind t = Bad_kind" | "item_kind t = No_value"
        | "item_kind t \<noteq> Bad_kind" "item_kind t \<noteq> No_value" by blast
      then show ?thesis
      proof cases
        case 1
        with Some True t show ?thesis by simp
      next
        case 2
        with "2.IH"(1)[OF Some _ refl t] "2.prems" len True Some t show ?thesis by simp
      next
        case 3
        show ?thesis
        proof (cases q)
          case Nil
          obtain r where r: "write_value big E cap (item_kind t) LOther ?out = r" by blast
          from write_value_fits[OF k _ r] Nil 3 Some True t r len show ?thesis
            by (auto split: sum.splits)
        next
          case (Cons v q')
          obtain r where r: "write_value big E cap (item_kind t) v ?out = r" by blast
          from write_value_fits[OF k _ r] "2.IH"(2)[OF Some _ refl t _ _ Cons] "2.prems" Cons 3 Some True t r len
          show ?thesis by (cases r) auto
        qed
      qed
    qed (use Some in auto)
  qed simp
qed simp

text \<open>The one marker without a test for room.\<close>

lemma uint32_overruns:
  assumes "length out + 1 \<le> cap" "cap < length out + 5"
  shows "serialize_loop big E cap [LInt (tag_num UINT_32), LInt v] out = Inl Heap_overflow"
  using assms by (simp add: room_def item_kind_def write_value_def put_def be_width_def tag_of_def all_tags_def
      to_int32_def)

lemma serialize_nils:
  "length out + n \<le> cap \<Longrightarrow> serialize_loop big E cap (replicate n (LInt (tag_num NIL)) @ q) out =
     serialize_loop big E cap q (out @ replicate n 5)"
proof (induction n arbitrary: out)
  case (Suc n)
  from serialize_item[of "Mark NIL" out big cap E "replicate n (LInt (tag_num NIL)) @ q"] Suc
  show ?case by (simp add: item_kind_def replicate_append_same)
qed simp

lemma double_zero_rejected:
  assumes "kind \<in> {Int64_value, Float_value, Double_value}"
  shows "\<not> (\<exists>out'. write_value big E cap kind (LInt 0) out = Inr out')"
  using assms by (auto simp: write_value_def fetch_next_as_double_def as_number_def is_zero_def)

section \<open>Hexadecimal output\<close>

lemma length_hex_string: "length (hex_string n) \<le> Suc k \<longleftrightarrow> n < 16 ^ Suc k"
proof (induction k arbitrary: n)
  case 0
  show ?case by (subst hex_string.simps) (auto simp: hex_string.simps[of "n div 16"])
next
  case (Suc k)
  show ?case
  proof (cases "n < 16")
    case True
    then have "n < 16 ^ Suc (Suc k)" by (simp add: order_less_le_trans[of n 16])
    with True show ?thesis by (simp add: hex_string.simps[of n])
  next
    case False
    with Suc[of "n div 16"] show ?thesis
      by (simp add: hex_string.simps[of n] less_mult_imp_div_less div_less_iff_less_mult mult.commute)
  qed
qed

fun hex_value :: "string \<Rightarrow> nat" where
  "hex_value s = foldl (\<lambda>n c. 16 * n + (if byte_val c \<le> 57 then byte_val c - 48 else byte_val c - 87)) 0 s"

lemma hex_value_string: "hex_value (hex_string n) = n"
proof (induction n rule: hex_string.induct)
  case (1 n)
  have d: "hex_value [hex_lower m] = m" if "m < 16" for m
  proof -
    have "m \<in> {0,1,2,3,4,5,6,7,8,9,10,11,12,13,14,15}" using that by (simp, presburger)
    then show ?thesis by (auto simp: hex_lower_def byte_val_def)
  qed
  show ?case
  proof (cases "n < 16")
    case True
    with d show ?thesis by (simp add: hex_string.simps[of n])
  next
    case False
    with 1 d[of "n mod 16"] show ?thesis by (simp add: hex_string.simps[of n])
  qed
qed

section \<open>The size of the buffer\<close>

lemma buff_size_small:
  assumes "len + 64 < 2 ^ 31"
  shows "buff_size len = int (len + 64)" "nat (buff_size len mod 2 ^ 64) = len + 64" "nat (buff_size len) = len + 64"
proof -
  have "to_int32 i = signed_take_bit 31 i" for i by (simp add: to_int32_def signed_of_int)
  moreover have "signed_take_bit 31 (int len + 64) = int len + 64"
    using assms by (intro signed_take_bit_int_eq_self) simp_all
  ultimately show b: "buff_size len = int (len + 64)" by (simp add: buff_size_def)
  have "int (len + 64) mod 2 ^ 64 = int (len + 64)" using assms by (intro mod_pos_pos_trivial) simp_all
  then show "nat (buff_size len mod 2 ^ 64) = len + 64" by (simp only: b nat_int)
  show "nat (buff_size len) = len + 64" by (simp only: b nat_int)
qed

lemma serialize_write_Q_small:
  assumes "len \<noteq> 0" "len + 64 < 2 ^ 31" "malloc_ok (len + 64)"
  shows "serialize_write_Q big E malloc_ok (Some q) len = serialize_loop big E (len + 64) q []"
  using assms(1,3)
  by (simp only: serialize_write_Q_def option.case Let_def buff_size_small(2,3)[OF assms(2)] if_False not_True_eq_False)

section \<open>Properties\<close>

text \<open>
  C9 Round trip: a queue of well-typed items is serialised without an error and reading the result item by
  item, on a host of either byte order, gives back the items and ends exactly at the end of the data. Well-typed
  (\<open>item_ok\<close>) are a bare marker; an integer in the range that its type announces, where \<open>INT_64\<close> is not 0 and
  below \<open>2 ^ 53\<close> in magnitude, as it travels through a double and zero counts as no number; a string no longer
  than its type announces; and a double, given by its bits, that is neither zero. Items of type \<open>FLOAT\<close>, which
  are rounded, are not among them. The bytes fit into the announced size and 64 more, which is an \<open>int\<close>, and
  memory is available.
\<close>

theorem lpack_round_trip:
  assumes "\<forall>i \<in> set items. item_ok i" "len \<noteq> 0" "len + 64 < 2 ^ 31" "malloc_ok (len + 64)"
    "length (concat (map (item_bytes big) items)) \<le> len + 64"
  shows "\<exists>bytes. serialize_write_Q big E malloc_ok (Some (concat (map item_queue items))) len = Inr bytes
    \<and> read_items big' (length items) bytes 0 = Some (items, int (length bytes))"
  using serialize_items[of items "[]" big "len + 64" E] read_items_written[of items big' "[]" big "[]"] assms
  by (simp add: serialize_write_Q_small)

definition no_env :: lua_env where
  "no_env = \<lparr> env_tonumber = (\<lambda>_. None), env_trunc = (\<lambda>_. 0), env_double_bits = (\<lambda>_. 0),
     env_float_bits = (\<lambda>_. 0), env_tostring = (\<lambda>_. []) \<rparr>"

definition mixed_items :: "item list" where
  "mixed_items = [Mark MAP_START, Num INT_16 (- 2), Num UINT_32 4294967295, Dbl 1, Str STRING [104, 105]]"

lemma mixed_items_ok: "\<forall>i \<in> set mixed_items. item_ok i"
  by (simp add: mixed_items_def item_kind_def lpack_int_rows lpack_string_rows)

theorem lpack_round_trip_witness:
  "\<exists>bytes. serialize_write_Q False no_env (\<lambda>_. True) (Some (concat (map item_queue mixed_items))) 8 = Inr bytes
    \<and> read_items True (length mixed_items) bytes 0 = Some (mixed_items, int (length bytes))"
proof -
  have "length (concat (map (item_bytes False) mixed_items)) \<le> 8 + 64"
    by (simp add: mixed_items_def number_width_def be_width_def)
  then show ?thesis
    using lpack_round_trip[of mixed_items 8 "\<lambda>_. True" False no_env True] mixed_items_ok by simp
qed

text \<open>
  The format is portable: writing a number of 1, 2, 4 or 8 bytes in network order and reading it
  back recovers it modulo the width, whatever the byte orders of the two hosts.
\<close>

theorem byte_order_portable:
  assumes "k \<in> {1, 2, 4, 8}"
  shows "net_bytes big k n = net_bytes big' k n
    \<and> host_val big' (be big' k (net_bytes big k n)) = n mod 256 ^ k"
  using assms net_bytes_portable[of k] net_value[of k] by (auto simp: be_width_def)

theorem byte_order_portable_witness:
  "net_bytes True 2 258 = net_bytes False 2 258
    \<and> host_val False (be False 2 (net_bytes True 2 258)) = 258 mod 256 ^ 2"
  by (rule byte_order_portable) simp

text \<open>
  C15 Memory safety of the serialiser: unless one of the markers that it meets is \<open>UINT_32\<close> (data of that value
  does not matter), for every announced size no write goes beyond the allocated block, and the result is no
  longer than \<open>buffsize\<close>, the announced size and 64 more cut to an \<open>int\<close>, or empty where that is negative.
\<close>

theorem serialize_in_bounds:
  assumes "tag_num UINT_32 \<notin> set (queue_markers E q)"
  shows "case serialize_write_Q big E malloc_ok (Some q) len of
      Inl e \<Rightarrow> e \<noteq> Heap_overflow | Inr out \<Rightarrow> int (length out) \<le> max 0 (to_int32 (int len + 64))"
  using serialize_loop_fits[OF assms, of "[]" "nat (buff_size len)" big]
  by (auto simp: serialize_write_Q_def Let_def buff_size_def max_def split: sum.splits)

theorem serialize_in_bounds_witness:
  "(case serialize_write_Q False no_env (\<lambda>_. True) (Some [LInt 14, LInt 12, LInt 16, LInt 77]) 1 of
      Inl e \<Rightarrow> e \<noteq> Heap_overflow | Inr out \<Rightarrow> int (length out) \<le> max 0 (to_int32 (int 1 + 64)))"
proof -
  have "tag_num UINT_32 \<notin> set (queue_markers no_env [LInt 14, LInt 12, LInt 16, LInt 77])"
    by (simp add: to_int32_def tag_of_def all_tags_def item_kind_def)
  then show ?thesis by (rule serialize_in_bounds)
qed

text \<open>
  C35 The marker \<open>UINT_32\<close> has no test for room: with a size estimate of one byte, 62 nil markers and
  one 32-bit number overrun the allocated block.
\<close>

theorem uint32_heap_overflow:
  "serialize_write_Q big E (\<lambda>_. True)
     (Some (replicate 62 (LInt (tag_num NIL)) @ [LInt (tag_num UINT_32), LInt v])) 1 = Inl Heap_overflow"
proof -
  let ?u = "[LInt (tag_num UINT_32), LInt v]"
  have "serialize_loop big E 65 (replicate 62 (LInt (tag_num NIL)) @ ?u) [] =
      serialize_loop big E 65 ?u ([] @ replicate 62 5)"
    by (rule serialize_nils) simp
  also have "\<dots> = Inl Heap_overflow" by (rule uint32_overruns) simp_all
  finally have "serialize_loop big E 65 (replicate 62 (LInt (tag_num NIL)) @ ?u) [] = Inl Heap_overflow" .
  moreover have "nat (buff_size 1) = 65" using buff_size_small(3)[of 1] by simp
  ultimately show ?thesis by (simp only: serialize_write_Q_def option.case Let_def) simp
qed

text \<open>
  A zero cannot be written where a double is expected: the test \<open>!lua_tonumber\<close> takes it for a value
  that is not a number.
\<close>

theorem zero_double_rejected:
  assumes "item_kind t \<in> {Int64_value, Float_value, Double_value}" "len \<noteq> 0" "len + 64 < 2 ^ 31"
    "malloc_ok (len + 64)"
  shows "serialize_write_Q big E malloc_ok (Some [LInt (tag_num t), LInt 0]) len = Inl Bad_value"
proof -
  have "write_value big E (len + 64) (item_kind t) (LInt 0) [word_of_int (tag_num t)] = Inl Bad_value"
    using assms(1) by (auto simp: write_value_def room_def fetch_next_as_double_def as_number_def is_zero_def)
  moreover have "item_kind t \<noteq> Bad_kind" "item_kind t \<noteq> No_value" using assms(1) by auto
  ultimately show ?thesis
    using assms(2-4) by (simp add: serialize_write_Q_small room_def)
qed

theorem zero_double_rejected_witness:
  "serialize_write_Q False no_env (\<lambda>_. True) (Some [LInt (tag_num DOUBLE), LInt 0]) 9 = Inl Bad_value"
  by (rule zero_double_rejected) (simp_all add: item_kind_def)

text \<open>
  C32 \<open>to_hex\<close> prints the numbers from 0 to 65535 correctly and refuses those above 65536, but 65536
  itself and every negative \<open>int\<close> overflow the five-byte buffer.
\<close>

theorem to_hex_behaviour:
  assumes "- (2 ^ 31) \<le> num" "num < 2 ^ 31"
  shows "(case to_hex num of
      Hex s \<Rightarrow> 0 \<le> num \<and> num \<le> 65535 \<and> int (hex_value s) = num
    | Hex_too_large \<Rightarrow> num > 65536
    | Hex_overflow \<Rightarrow> num < 0 \<or> num = 65536)"
proof -
  have m: "nat (num mod 2 ^ 32) \<ge> 65536 \<longleftrightarrow> num < 0 \<or> num \<ge> 65536"
  proof (cases "num < 0")
    case True
    then have "num mod 2 ^ 32 = num + 2 ^ 32"
      using assms mod_pos_pos_trivial[of "num + 2 ^ 32" "2 ^ 32"] by simp
    with True assms show ?thesis by simp
  next
    case False
    with assms have "num mod 2 ^ 32 = num" by (intro mod_pos_pos_trivial) simp_all
    with False show ?thesis by (simp add: le_nat_iff)
  qed
  have "length (hex_string (nat (num mod 2 ^ 32))) + 1 > 5 \<longleftrightarrow> nat (num mod 2 ^ 32) \<ge> 65536"
    using length_hex_string[of "nat (num mod 2 ^ 32)" 3] by (simp add: not_le not_less) linarith
  with m assms show ?thesis
    by (auto simp: to_hex_def Let_def hex_value_string simp del: hex_value.simps)
qed

theorem to_hex_behaviour_witness:
  "(case to_hex 65536 of
      Hex s \<Rightarrow> (0 :: int) \<le> 65536 \<and> (65536 :: int) \<le> 65535 \<and> int (hex_value s) = 65536
    | Hex_too_large \<Rightarrow> (65536 :: int) > 65536
    | Hex_overflow \<Rightarrow> (65536 :: int) < 0 \<or> (65536 :: int) = 65536)"
  by (rule to_hex_behaviour) simp_all

end
