(* ===== verification/Luaw_World.thy ===== *)
theory Luaw_World
  imports Luaw_Prelude
begin

text \<open>
  The state that the event-driven part of the program works on, and the helpers of
  \<^verbatim>\<open>src/src/luaw_common.c\<close> and \<^verbatim>\<open>src/src/luaw_common.h\<close>. The heap objects of the program are user timers
  (\<open>luaw_timer_t\<close>) and connections (\<open>connection_t\<close>); both are shared between Lua, which reaches them
  through a full userdata holding a pointer, and libuv, which reaches them through the \<open>data\<close> field of
  handles and requests. A reference count decides when they are freed. An access to an object that is
  not allocated sets \<open>crashed\<close>.
\<close>

section \<open>libuv\<close>

text \<open>
  libuv is not part of the repository. Its handles have an unknown type \<open>'h\<close>, and the calls of the
  program on handles are the fields of a record that every operation takes as an argument. Calls that
  can fail take the return code, which the environment chooses. \<open>uv_timer_expire\<close> is what libuv itself
  does to a timer before it runs the callback.
\<close>

record 'h uv_api =
  uv_init :: 'h
  uv_is_active :: "'h \<Rightarrow> bool"
  uv_is_closing :: "'h \<Rightarrow> bool"
  uv_close :: "'h \<Rightarrow> 'h"
  uv_timer_start :: "int \<Rightarrow> int \<Rightarrow> 'h \<Rightarrow> 'h"
  uv_timer_stop :: "'h \<Rightarrow> 'h"
  uv_timer_expire :: "'h \<Rightarrow> 'h"
  uv_read_start :: "int \<Rightarrow> 'h \<Rightarrow> 'h"
  uv_write :: "int \<Rightarrow> 'h \<Rightarrow> 'h"
  uv_tcp_connect :: "int \<Rightarrow> 'h \<Rightarrow> 'h"
  uv_accept :: "int \<Rightarrow> 'h \<Rightarrow> 'h"

text \<open>
  What the program relies on, from the libuv documentation: a new handle is neither active nor
  closing; only \<open>uv_close\<close> makes a handle closing and it also stops it; a timer is active after a
  successful start, as before after a failed one, and inactive after a stop and after it has expired (the program only starts timers
  that do not repeat).
\<close>

definition uv_contract :: "'h uv_api \<Rightarrow> bool" where
  "uv_contract uv \<longleftrightarrow>
     \<not> uv_is_active uv (uv_init uv) \<and> \<not> uv_is_closing uv (uv_init uv) \<and>
     (\<forall>h. uv_is_closing uv (uv_close uv h) \<and> \<not> uv_is_active uv (uv_close uv h)) \<and>
     (\<forall>t h. uv_is_active uv (uv_timer_start uv 0 t h)) \<and>
     (\<forall>rc t h. rc \<noteq> 0 \<longrightarrow> uv_is_active uv (uv_timer_start uv rc t h) = uv_is_active uv h) \<and>
     (\<forall>rc t h. uv_is_closing uv (uv_timer_start uv rc t h) = uv_is_closing uv h) \<and>
     (\<forall>h. \<not> uv_is_active uv (uv_timer_stop uv h) \<and> uv_is_closing uv (uv_timer_stop uv h) = uv_is_closing uv h) \<and>
     (\<forall>h. \<not> uv_is_active uv (uv_timer_expire uv h) \<and> uv_is_closing uv (uv_timer_expire uv h) = uv_is_closing uv h) \<and>
     (\<forall>rc h. uv_is_closing uv (uv_read_start uv rc h) = uv_is_closing uv h) \<and>
     (\<forall>rc h. uv_is_closing uv (uv_write uv rc h) = uv_is_closing uv h) \<and>
     (\<forall>rc h. uv_is_closing uv (uv_tcp_connect uv rc h) = uv_is_closing uv h) \<and>
     (\<forall>rc h. uv_is_closing uv (uv_accept uv rc h) = uv_is_closing uv h)"

lemma uv_contractD:
  assumes "uv_contract uv"
  shows "\<not> uv_is_active uv (uv_init uv)" "\<not> uv_is_closing uv (uv_init uv)"
    "uv_is_closing uv (uv_close uv h)" "\<not> uv_is_active uv (uv_close uv h)"
    "uv_is_active uv (uv_timer_start uv 0 n h)"
    "rc \<noteq> 0 \<Longrightarrow> uv_is_active uv (uv_timer_start uv rc n h) = uv_is_active uv h"
    "uv_is_closing uv (uv_timer_start uv rc n h) = uv_is_closing uv h"
    "\<not> uv_is_active uv (uv_timer_stop uv h)"
    "uv_is_closing uv (uv_timer_stop uv h) = uv_is_closing uv h"
    "\<not> uv_is_active uv (uv_timer_expire uv h)"
    "uv_is_closing uv (uv_timer_expire uv h) = uv_is_closing uv h"
    "uv_is_closing uv (uv_read_start uv rc h) = uv_is_closing uv h"
    "uv_is_closing uv (uv_write uv rc h) = uv_is_closing uv h"
    "uv_is_closing uv (uv_tcp_connect uv rc h) = uv_is_closing uv h"
    "uv_is_closing uv (uv_accept uv rc h) = uv_is_closing uv h"
  using assms by (simp_all add: uv_contract_def)

text \<open>A handle that only records the two flags satisfies the contract.\<close>

definition flag_uv :: "(bool \<times> bool) uv_api" where
  "flag_uv = \<lparr>
     uv_init = (False, False),
     uv_is_active = fst,
     uv_is_closing = snd,
     uv_close = (\<lambda>h. (False, True)),
     uv_timer_start = (\<lambda>rc n h. (if rc = 0 then True else fst h, snd h)),
     uv_timer_stop = (\<lambda>h. (False, snd h)),
     uv_timer_expire = (\<lambda>h. (False, snd h)),
     uv_read_start = (\<lambda>rc h. (if rc = 0 then True else fst h, snd h)),
     uv_write = (\<lambda>rc h. h),
     uv_tcp_connect = (\<lambda>rc h. h),
     uv_accept = (\<lambda>rc h. h) \<rparr>"

lemma flag_uv_contract: "uv_contract flag_uv"
  by (simp add: uv_contract_def flag_uv_def)

text \<open>The error codes that the program names.\<close>

definition UV_EOF :: int where "UV_EOF = - 4095"
definition UV_ECANCELED :: int where "UV_ECANCELED = - 125"
definition UV_ENOBUFS :: int where "UV_ENOBUFS = - 105"
definition UV_ENOMEM :: int where "UV_ENOMEM = - 12"
definition UV_EAI_BADFLAGS :: int where "UV_EAI_BADFLAGS = - 3002"

lemmas uv_codes = UV_EOF_def UV_ECANCELED_def UV_ENOBUFS_def UV_ENOMEM_def UV_EAI_BADFLAGS_def

section \<open>The state\<close>

type_synonym addr = nat
type_synonym ref = nat
type_synonym tid = int

text \<open>
  The values that cross the border to Lua. \<open>Udata\<close> is a full userdata, \<open>Resume_fn\<close> the function \<open>resumeThreadId\<close> of the scheduler
  (and likewise the other functions that the server keeps references to),
  \<open>Err rc\<close> the message \<open>uv_strerror(rc)\<close>, \<open>Msg\<close> a message that Lua formats and \<open>Str_val\<close> a string that is
  not a numeral.
\<close>

datatype lua_val = Nil_val | Bool_val bool | Int_val int | Str_val string | Err int
  | Msg string "lua_val list" | Udata ref | Resume_fn | Start_thread_fn | Service_fn | Run_threads_fn

definition lua_tointeger :: "lua_val \<Rightarrow> int" where
  "lua_tointeger v = (case v of Int_val n \<Rightarrow> n | _ \<Rightarrow> 0)"

datatype timer_state = INIT | TICKING | ELAPSED

record 'h luaw_timer =
  tm_handle :: 'h
  tm_data :: "addr option"
  tm_state :: timer_state
  tm_lua_tid :: tid
  tm_ref_count :: int
  tm_lua_ref :: "ref option"

definition CONN_BUFFER_SIZE :: nat where "CONN_BUFFER_SIZE = 4096"

record 'h connection =
  c_handle :: 'h
  c_data :: "addr option"
  lua_reader_tid :: tid
  read_len :: nat
  read_timer :: 'h
  read_timer_data :: "addr option"
  lua_writer_tid :: tid
  write_timer :: 'h
  write_timer_data :: "addr option"
  write_req_data :: "addr option"
  c_ref_count :: int
  c_lua_ref :: "ref option"
  read_buffer :: string

text \<open>
  The handles that libuv knows, and the whole state. \<open>timer_refs\<close> and \<open>conn_refs\<close> are the pointers that
  the Lua userdata hold (\<^const>\<open>None\<close> for \<open>NULL\<close>). The next three fields are libuv's: the handles that
  are initialised and whose close callback has not run, the number of write requests in flight for a
  connection, and the connect requests in flight. \<open>overlapped\<close> records that a connection's only
  \<open>uv_write_t\<close> was submitted again while it was in flight. \<open>resolvers\<close> are the threads of the name resolutions in
  progress. \<open>fresh\<close> is the next address that an allocation
  returns; addresses are never used again, so that every late access is seen. \<open>resumed\<close> records the calls
  of \<open>resumeThreadId\<close>: the thread and its arguments. \<open>panicked\<close> is set by a Lua error outside every
  protected call, which makes Lua abort the process. \<open>stack\<close> is the Lua stack of \<open>l_global\<close>, top first, and \<open>stopped\<close> is set
  by \<open>uv_stop\<close>.
\<close>

datatype uv_handle_id = User_timer addr | Tcp addr | Read_timer addr | Write_timer addr

record 'h luaw =
  timers :: "addr \<Rightarrow> 'h luaw_timer option"
  conns :: "addr \<Rightarrow> 'h connection option"
  timer_refs :: "ref \<Rightarrow> addr option"
  conn_refs :: "ref \<Rightarrow> addr option"
  loop_handles :: "uv_handle_id \<Rightarrow> bool"
  writes :: "addr \<Rightarrow> nat"
  connects :: "addr \<Rightarrow> nat"
  overlapped :: "addr \<Rightarrow> bool"
  resolvers :: "tid list"
  fresh :: nat
  resumed :: "(tid \<times> lua_val list) list"
  crashed :: bool
  panicked :: bool
  stack :: "lua_val list"
  stopped :: bool

definition init_world :: "'h luaw" where
  "init_world = \<lparr> timers = (\<lambda>_. None), conns = (\<lambda>_. None), timer_refs = (\<lambda>_. None),
     conn_refs = (\<lambda>_. None), loop_handles = (\<lambda>_. False), writes = (\<lambda>_. 0), connects = (\<lambda>_. 0),
     overlapped = (\<lambda>_. False), resolvers = [], fresh = 0, resumed = [], crashed = False, panicked = False, stack = [], stopped = False \<rparr>"

section \<open>The helpers of luaw\_common\<close>

text \<open>
  \<open>resume_lua_thread\<close> calls the function below the \<open>nargs\<close> arguments on top of a Lua stack, if the first
  argument is a thread id, and leaves its two results or an error message in their place. The scheduler
  and the Lua code that it resumes are the argument \<open>lua\<close>: they may call any method of the libraries
  before they yield, and \<open>resumeThreadId\<close> returns whether the thread is done and a value.
\<close>

datatype lua_outcome = Returned bool lua_val | Failed lua_val

type_synonym 'h lua_code = "'h luaw \<Rightarrow> lua_outcome \<times> 'h luaw"

definition resume_lua_thread ::
  "'h lua_code \<Rightarrow> nat \<Rightarrow> lua_val list \<Rightarrow> 'h luaw \<Rightarrow> lua_val list \<times> 'h luaw" where
  "resume_lua_thread lua nargs stk w =
     (let tid = lua_tointeger (stk ! (nargs - 1)); rest = drop (nargs + 1) stk in
      if tid = 0 then (stk, w)
      else if stk ! nargs = Resume_fn then
        (case lua (w\<lparr>resumed := resumed w @ [(tid, rev (take (nargs - 1) stk))]\<rparr>) of
           (Returned finished v, w') \<Rightarrow> (v # Bool_val finished # rest, w')
         | (Failed msg, w') \<Rightarrow> (msg # rest, w'))
      else (Str_val ''attempt to call a value that is not a function'' # rest, w))"

text \<open>
  Pushing on the stack of \<open>l_global\<close>, and resuming a thread with arguments on it. The called code runs in
  stack frames of its own.
\<close>

definition push :: "lua_val list \<Rightarrow> 'h luaw \<Rightarrow> 'h luaw" where
  "push vs w = w\<lparr>stack := rev vs @ stack w\<rparr>"

lemma push_simps [simp]:
  "timers (push vs w) = timers w" "conns (push vs w) = conns w"
  "timer_refs (push vs w) = timer_refs w" "conn_refs (push vs w) = conn_refs w"
  "loop_handles (push vs w) = loop_handles w" "writes (push vs w) = writes w"
  "connects (push vs w) = connects w" "overlapped (push vs w) = overlapped w"
  "fresh (push vs w) = fresh w" "resumed (push vs w) = resumed w"
  "crashed (push vs w) = crashed w" "panicked (push vs w) = panicked w"
  "stopped (push vs w) = stopped w" "resolvers (push vs w) = resolvers w"
  "stack (push vs w) = rev vs @ stack w"
  by (simp_all add: push_def)

definition resume_global :: "'h lua_code \<Rightarrow> nat \<Rightarrow> 'h luaw \<Rightarrow> 'h luaw" where
  "resume_global lua nargs w =
     (case resume_lua_thread lua nargs (stack w) (w\<lparr>stack := []\<rparr>) of (stk, w') \<Rightarrow> w'\<lparr>stack := stk\<rparr>)"

definition close_if_active :: "'h uv_api \<Rightarrow> 'h \<Rightarrow> 'h" where
  "close_if_active uv h = (if \<not> uv_is_closing uv h then uv_close uv h else h)"

definition error_to_lua :: "string \<Rightarrow> lua_val list \<Rightarrow> lua_val list" where
  "error_to_lua fmt args = [Bool_val False, Msg fmt args]"

text \<open>Reading and writing an object through a pointer.\<close>

definition with_timer :: "addr \<Rightarrow> ('h luaw_timer \<Rightarrow> 'h luaw \<Rightarrow> 'h luaw) \<Rightarrow> 'h luaw \<Rightarrow> 'h luaw" where
  "with_timer a f w = (case timers w a of None \<Rightarrow> w\<lparr>crashed := True\<rparr> | Some t \<Rightarrow> f t w)"

definition set_timer :: "addr \<Rightarrow> ('h luaw_timer \<Rightarrow> 'h luaw_timer) \<Rightarrow> 'h luaw \<Rightarrow> 'h luaw" where
  "set_timer a f = with_timer a (\<lambda>t w. w\<lparr>timers := (timers w)(a \<mapsto> f t)\<rparr>)"

definition with_conn :: "addr \<Rightarrow> ('h connection \<Rightarrow> 'h luaw \<Rightarrow> 'h luaw) \<Rightarrow> 'h luaw \<Rightarrow> 'h luaw" where
  "with_conn a f w = (case conns w a of None \<Rightarrow> w\<lparr>crashed := True\<rparr> | Some c \<Rightarrow> f c w)"

definition set_conn :: "addr \<Rightarrow> ('h connection \<Rightarrow> 'h connection) \<Rightarrow> 'h luaw \<Rightarrow> 'h luaw" where
  "set_conn a f = with_conn a (\<lambda>c w. w\<lparr>conns := (conns w)(a \<mapsto> f c)\<rparr>)"

text \<open>\<open>fault\<close> is a method that reads memory that is not allocated.\<close>

definition fault :: "'h luaw \<Rightarrow> lua_val list \<times> 'h luaw" where
  "fault w = ([], w\<lparr>crashed := True\<rparr>)"

text \<open>\<open>GC_REF\<close> on a timer and on a connection: drop a reference and free the object with the last one.\<close>

definition GC_REF_timer :: "addr \<Rightarrow> 'h luaw \<Rightarrow> 'h luaw" where
  "GC_REF_timer a = with_timer a (\<lambda>t w.
     let n = tm_ref_count t - 1 in
     w\<lparr>timers := (timers w)(a := if n \<le> 0 then None else Some (t\<lparr>tm_ref_count := n\<rparr>))\<rparr>)"

definition GC_REF_conn :: "addr \<Rightarrow> 'h luaw \<Rightarrow> 'h luaw" where
  "GC_REF_conn a = with_conn a (\<lambda>c w.
     let n = c_ref_count c - 1 in
     w\<lparr>conns := (conns w)(a := if n \<le> 0 then None else Some (c\<lparr>c_ref_count := n\<rparr>))\<rparr>)"

end
