(* ===== verification/Luaw_Own.thy ===== *)
theory Luaw_Own
  imports Luaw_World
begin

text \<open>
  Who owns the objects of the event-driven part: the invariant that relates the reference counts, the
  pointers of Lua and libuv and the closing of handles, what running Lua code leaves alone, and the
  locale that states what a C function may assume of the Lua code that it resumes.
\<close>

section \<open>User timers\<close>

text \<open>
  A timer is referenced by its Lua userdata until it is closed and by its handle until the close
  callback has run. \<open>X\<close> holds the objects, named by their first handle, that an operation on the C stack has delinked from Lua and is
  about to close. A thread waits only on a ticking timer, and an open timer is ticking exactly when
  libuv will fire it.
\<close>

definition timer_ok :: "'h uv_api \<Rightarrow> uv_handle_id set \<Rightarrow> 'h luaw \<Rightarrow> addr \<Rightarrow> 'h luaw_timer \<Rightarrow> bool" where
  "timer_ok uv X w a t \<longleftrightarrow>
     tm_ref_count t = of_bool (tm_lua_ref t \<noteq> None) + of_bool (tm_data t \<noteq> None) \<and>
     (tm_lua_ref t \<noteq> None \<or> tm_data t \<noteq> None) \<and>
     tm_data t \<in> {None, Some a} \<and>
     (tm_data t \<noteq> None \<longleftrightarrow> loop_handles w (User_timer a)) \<and>
     (\<forall>r. tm_lua_ref t = Some r \<longrightarrow> timer_refs w r = Some a \<and> tm_data t \<noteq> None
        \<and> \<not> uv_is_closing uv (tm_handle t)
        \<and> (tm_state t = TICKING \<longleftrightarrow> uv_is_active uv (tm_handle t))) \<and>
     (tm_lua_ref t = None \<and> User_timer a \<notin> X \<longrightarrow> uv_is_closing uv (tm_handle t)) \<and>
     (tm_lua_tid t \<noteq> 0 \<longrightarrow> tm_state t = TICKING \<and> (User_timer a \<in> X \<or> tm_lua_ref t \<noteq> None))"

definition timers_ok :: "'h uv_api \<Rightarrow> uv_handle_id set \<Rightarrow> 'h luaw \<Rightarrow> bool" where
  "timers_ok uv X w \<longleftrightarrow>
     (\<forall>a t. timers w a = Some t \<longrightarrow> timer_ok uv X w a t \<and> a < fresh w) \<and>
     (\<forall>r a. timer_refs w r = Some a \<longrightarrow> (\<exists>t. timers w a = Some t \<and> tm_lua_ref t = Some r) \<and> r < fresh w) \<and>
     (\<forall>a. loop_handles w (User_timer a) \<longrightarrow> timers w a \<noteq> None)"

section \<open>Connections\<close>

text \<open>
  A connection is referenced by its userdata, its three handles, every write request in flight and, by
  \<open>p\<close>, operations on the C stack. The count is exact unless write requests overlapped; then it can only
  be too large. The read buffer is always empty between two callbacks. A connect request in flight has
  no reference of its own: it lives on the one of the TCP handle.
\<close>

definition holders :: "(addr \<Rightarrow> nat) \<Rightarrow> 'h luaw \<Rightarrow> addr \<Rightarrow> 'h connection \<Rightarrow> int" where
  "holders p w a c =
     of_bool (c_lua_ref c \<noteq> None) + of_bool (c_data c \<noteq> None) + of_bool (read_timer_data c \<noteq> None)
     + of_bool (write_timer_data c \<noteq> None) + int (writes w a) + int (p a)"

definition closing :: "'h uv_api \<Rightarrow> 'h connection \<Rightarrow> bool" where
  "closing uv c \<longleftrightarrow> uv_is_closing uv (c_handle c) \<and> uv_is_closing uv (read_timer c)
     \<and> uv_is_closing uv (write_timer c)"

definition open_conn :: "'h uv_api \<Rightarrow> 'h connection \<Rightarrow> bool" where
  "open_conn uv c \<longleftrightarrow> \<not> uv_is_closing uv (c_handle c) \<and> \<not> uv_is_closing uv (read_timer c)
     \<and> \<not> uv_is_closing uv (write_timer c)"

lemma holders_simps [simp]:
  "holders p w a (c\<lparr>c_handle := h\<rparr>) = holders p w a c"
  "holders p w a (c\<lparr>read_timer := h\<rparr>) = holders p w a c"
  "holders p w a (c\<lparr>write_timer := h\<rparr>) = holders p w a c"
  "holders p w a (c\<lparr>lua_reader_tid := t\<rparr>) = holders p w a c"
  "holders p w a (c\<lparr>lua_writer_tid := t\<rparr>) = holders p w a c"
  "holders p w a (c\<lparr>read_len := n\<rparr>) = holders p w a c"
  "holders p w a (c\<lparr>read_buffer := bs\<rparr>) = holders p w a c"
  "holders p w a (c\<lparr>write_req_data := d\<rparr>) = holders p w a c"
  "holders p w a (c\<lparr>c_ref_count := k\<rparr>) = holders p w a c"
  "c_lua_ref c = Some r \<Longrightarrow> holders p w a (c\<lparr>c_lua_ref := None\<rparr>) = holders p w a c - 1"
  "c_data c = Some b \<Longrightarrow> holders p w a (c\<lparr>c_data := None\<rparr>) = holders p w a c - 1"
  "read_timer_data c = Some b \<Longrightarrow> holders p w a (c\<lparr>read_timer_data := None\<rparr>) = holders p w a c - 1"
  "write_timer_data c = Some b \<Longrightarrow> holders p w a (c\<lparr>write_timer_data := None\<rparr>) = holders p w a c - 1"
  by (simp_all add: holders_def)

lemma holders_cong: "writes w a = writes w' a \<Longrightarrow> p a = p' a \<Longrightarrow> holders p w a c = holders p' w' a c"
  by (simp add: holders_def)

lemma holders_world [simp]:
  "holders p (w\<lparr>stack := stk\<rparr>) a c = holders p w a c"
  "holders p (w\<lparr>conns := cs\<rparr>) a c = holders p w a c"
  "holders p (w\<lparr>conn_refs := cr\<rparr>) a c = holders p w a c"
  "holders p (w\<lparr>loop_handles := lh\<rparr>) a c = holders p w a c"
  "holders p (w\<lparr>connects := k\<rparr>) a c = holders p w a c"
  "holders p (w\<lparr>overlapped := ov\<rparr>) a c = holders p w a c"
  "holders p (w\<lparr>fresh := n\<rparr>) a c = holders p w a c"
  "holders p (push vs w) a c = holders p w a c"
  by (simp_all add: holders_def)

lemma holders_pos:
  "0 \<le> holders p w a c" "c_lua_ref c = Some r \<Longrightarrow> 0 < holders p w a c" "c_data c = Some b \<Longrightarrow> 0 < holders p w a c"
  "read_timer_data c = Some b \<Longrightarrow> 0 < holders p w a c" "write_timer_data c = Some b \<Longrightarrow> 0 < holders p w a c"
  "0 < writes w a \<Longrightarrow> 0 < holders p w a c" "0 < p a \<Longrightarrow> 0 < holders p w a c"
  by (simp_all add: holders_def)

text \<open>The four parts of the invariant of a connection: its references, pointers, link and buffer.\<close>

definition refs_ok :: "(addr \<Rightarrow> nat) \<Rightarrow> 'h luaw \<Rightarrow> addr \<Rightarrow> 'h connection \<Rightarrow> bool" where
  "refs_ok p w a c \<longleftrightarrow>
     holders p w a c \<le> c_ref_count c \<and> 0 < c_ref_count c \<and>
     (\<not> overlapped w a \<longrightarrow> c_ref_count c = holders p w a c
        \<and> (write_req_data c \<noteq> None \<longleftrightarrow> writes w a = 1) \<and> writes w a \<le> 1)"

definition data_ok :: "'h luaw \<Rightarrow> addr \<Rightarrow> 'h connection \<Rightarrow> bool" where
  "data_ok w a c \<longleftrightarrow>
     c_data c = (if loop_handles w (Tcp a) then Some a else None) \<and>
     read_timer_data c = (if loop_handles w (Read_timer a) then Some a else None) \<and>
     write_timer_data c = (if loop_handles w (Write_timer a) then Some a else None) \<and>
     write_req_data c \<in> {None, Some a}"

definition link_ok :: "'h uv_api \<Rightarrow> uv_handle_id set \<Rightarrow> 'h luaw \<Rightarrow> addr \<Rightarrow> 'h connection \<Rightarrow> bool" where
  "link_ok uv X w a c \<longleftrightarrow>
     (\<forall>r. c_lua_ref c = Some r \<longrightarrow> conn_refs w r = Some a \<and> loop_handles w (Tcp a)
        \<and> loop_handles w (Read_timer a) \<and> loop_handles w (Write_timer a) \<and> open_conn uv c) \<and>
     (c_lua_ref c = None \<and> Tcp a \<notin> X \<longrightarrow> closing uv c \<and> lua_reader_tid c = 0 \<and> lua_writer_tid c = 0)"

definition buf_ok :: "'h luaw \<Rightarrow> addr \<Rightarrow> 'h connection \<Rightarrow> bool" where
  "buf_ok w a c \<longleftrightarrow> read_len c = 0 \<and> length (read_buffer c) = CONN_BUFFER_SIZE
     \<and> (connects w a > 0 \<longrightarrow> loop_handles w (Tcp a))"

definition conn_ok ::
  "'h uv_api \<Rightarrow> uv_handle_id set \<Rightarrow> (addr \<Rightarrow> nat) \<Rightarrow> 'h luaw \<Rightarrow> addr \<Rightarrow> 'h connection \<Rightarrow> bool" where
  "conn_ok uv X p w a c \<longleftrightarrow> refs_ok p w a c \<and> data_ok w a c \<and> link_ok uv X w a c \<and> buf_ok w a c"

lemmas conn_parts = conn_ok_def refs_ok_def data_ok_def link_ok_def buf_ok_def

lemma conn_ok_cong:
  assumes "writes w a = writes w' a" "overlapped w a = overlapped w' a" "connects w a = connects w' a"
    "loop_handles w (Tcp a) = loop_handles w' (Tcp a)"
    "loop_handles w (Read_timer a) = loop_handles w' (Read_timer a)"
    "loop_handles w (Write_timer a) = loop_handles w' (Write_timer a)"
    "conn_refs w = conn_refs w'" "p a = p' a"
  shows "conn_ok uv X p w a c = conn_ok uv X p' w' a c"
  using assms holders_cong[of w a w' p p' c] by (simp add: conn_parts)

definition conns_ok :: "'h uv_api \<Rightarrow> uv_handle_id set \<Rightarrow> (addr \<Rightarrow> nat) \<Rightarrow> 'h luaw \<Rightarrow> bool" where
  "conns_ok uv X p w \<longleftrightarrow>
     (\<forall>a c. conns w a = Some c \<longrightarrow> conn_ok uv X p w a c \<and> a < fresh w) \<and>
     (\<forall>r a. conn_refs w r = Some a \<longrightarrow> (\<exists>c. conns w a = Some c \<and> c_lua_ref c = Some r) \<and> r < fresh w) \<and>
     (\<forall>a. loop_handles w (Tcp a) \<or> loop_handles w (Read_timer a) \<or> loop_handles w (Write_timer a)
        \<or> writes w a > 0 \<or> connects w a > 0 \<or> p a > 0 \<longrightarrow> conns w a \<noteq> None)"

text \<open>The invariant of the whole state, with libuv behaving as documented.\<close>

definition world_ok :: "'h uv_api \<Rightarrow> uv_handle_id set \<Rightarrow> (addr \<Rightarrow> nat) \<Rightarrow> 'h luaw \<Rightarrow> bool" where
  "world_ok uv X p w \<longleftrightarrow> uv_contract uv \<and> \<not> crashed w \<and> timers_ok uv X w \<and> conns_ok uv X p w"

lemma init_world_ok: "uv_contract uv \<Longrightarrow> world_ok uv X (\<lambda>_. 0) init_world"
  by (simp add: world_ok_def timers_ok_def conns_ok_def init_world_def)

section \<open>What running Lua code leaves alone\<close>

text \<open>
  Lua code reaches an object only through its userdata and never frees one: an object stays allocated
  with its libuv pointers, and one that is delinked from Lua does not change at all.
\<close>

definition timer_frame :: "'h luaw_timer \<Rightarrow> 'h luaw_timer \<Rightarrow> bool" where
  "timer_frame t t' \<longleftrightarrow> tm_data t' = tm_data t \<and> (tm_lua_ref t = None \<longrightarrow> t' = t)
     \<and> tm_lua_ref t' \<in> {None, tm_lua_ref t}"

definition conn_frame :: "'h connection \<Rightarrow> 'h connection \<Rightarrow> bool" where
  "conn_frame c c' \<longleftrightarrow> c_data c' = c_data c \<and> (c_lua_ref c = None \<longrightarrow> c' = c)
     \<and> c_lua_ref c' \<in> {None, c_lua_ref c}"

definition lua_frame :: "'h luaw \<Rightarrow> 'h luaw \<Rightarrow> bool" where
  "lua_frame w w' \<longleftrightarrow>
     (\<forall>a t. timers w a = Some t \<longrightarrow> (\<exists>t'. timers w' a = Some t' \<and> timer_frame t t')) \<and>
     (\<forall>a c. conns w a = Some c \<longrightarrow> (\<exists>c'. conns w' a = Some c' \<and> conn_frame c c')
        \<and> (c_lua_ref c = None \<longrightarrow> writes w' a = writes w a))"

lemma timer_frame_refl [simp]: "timer_frame t t"
  by (simp add: timer_frame_def)

lemma conn_frame_refl [simp]: "conn_frame c c"
  by (simp add: conn_frame_def)

lemma lua_frame_refl [simp]: "lua_frame w w"
  by (auto simp: lua_frame_def)

lemma timer_frame_trans: "timer_frame t u \<Longrightarrow> timer_frame u v \<Longrightarrow> timer_frame t v"
  by (auto simp: timer_frame_def)

lemma conn_frame_trans: "conn_frame t u \<Longrightarrow> conn_frame u v \<Longrightarrow> conn_frame t v"
  by (auto simp: conn_frame_def)

lemma lua_frame_trans [trans]:
  assumes "lua_frame u v" "lua_frame v w"
  shows "lua_frame u w"
  unfolding lua_frame_def
proof (intro conjI allI impI)
  fix a t assume "timers u a = Some t"
  with assms show "\<exists>t'. timers w a = Some t' \<and> timer_frame t t'"
    unfolding lua_frame_def by (meson timer_frame_trans)
next
  fix a c assume "conns u a = Some c"
  then obtain c' where "conns v a = Some c'" "conn_frame c c'" "c_lua_ref c = None \<longrightarrow> writes v a = writes u a"
    using assms(1) unfolding lua_frame_def by blast
  moreover from this obtain c'' where "conns w a = Some c''" "conn_frame c' c''"
      "c_lua_ref c' = None \<longrightarrow> writes w a = writes v a"
    using assms(2) unfolding lua_frame_def by blast
  ultimately show "\<exists>c''. conns w a = Some c'' \<and> conn_frame c c''"
      "c_lua_ref c = None \<Longrightarrow> writes w a = writes u a"
    by (auto dest: conn_frame_trans simp: conn_frame_def)
qed

lemma lua_frame_timer:
  assumes "lua_frame w w'" "timers w a = Some t"
  obtains t' where "timers w' a = Some t'" "timer_frame t t'"
  using assms unfolding lua_frame_def by blast

lemma lua_frame_conn:
  assumes "lua_frame w w'" "conns w a = Some c"
  obtains c' where "conns w' a = Some c'" "conn_frame c c'"
  using assms unfolding lua_frame_def by blast

section \<open>Updates of one object\<close>

lemma timers_okD:
  assumes "timers_ok uv X w" "timers w a = Some t"
  shows "timer_ok uv X w a t"
  using assms by (simp add: timers_ok_def)

lemma conns_okD:
  assumes "conns_ok uv X p w" "conns w a = Some c"
  shows "conn_ok uv X p w a c"
  using assms by (simp add: conns_ok_def)

text \<open>Consequences of the invariant.\<close>

lemma timers_ok_fresh: "timers_ok uv X w \<Longrightarrow> timers w a = Some t \<Longrightarrow> a < fresh w"
  by (simp add: timers_ok_def)

lemma conns_ok_fresh: "conns_ok uv X p w \<Longrightarrow> conns w a = Some c \<Longrightarrow> a < fresh w"
  by (simp add: conns_ok_def)

lemma timers_ok_ref: "timers_ok uv X w \<Longrightarrow> timer_refs w r = Some a \<Longrightarrow> timers w a = Some t \<Longrightarrow> tm_lua_ref t = Some r"
  by (force simp: timers_ok_def)

lemma conns_ok_ref: "conns_ok uv X p w \<Longrightarrow> conn_refs w r = Some a \<Longrightarrow> conns w a = Some c \<Longrightarrow> c_lua_ref c = Some r"
  by (force simp: conns_ok_def)

lemma world_okD:
  assumes "world_ok uv X p w"
  shows "\<not> crashed w" "timers_ok uv X w" "conns_ok uv X p w" "uv_contract uv"
  using assms by (simp_all add: world_ok_def)

lemma set_timer_Some [simp]:
  "timers w a = Some t \<Longrightarrow> set_timer a f w = w\<lparr>timers := (timers w)(a \<mapsto> f t)\<rparr>"
  by (simp add: set_timer_def with_timer_def)

lemma set_conn_Some [simp]:
  "conns w a = Some c \<Longrightarrow> set_conn a f w = w\<lparr>conns := (conns w)(a \<mapsto> f c)\<rparr>"
  by (simp add: set_conn_def with_conn_def)

text \<open>The set of exempted objects matters only for those objects.\<close>

lemma timers_ok_insert_Tcp [simp]: "timers_ok uv (insert (Tcp a) X) w = timers_ok uv X w"
  by (simp add: timers_ok_def timer_ok_def)

lemma conns_ok_insert_User_timer [simp]: "conns_ok uv (insert (User_timer a) X) p w = conns_ok uv X p w"
  by (simp add: conns_ok_def conn_parts)

text \<open>What is said of one object does not depend on the heap.\<close>

lemma timer_ok_heap [simp]:
  "timer_ok uv X (w\<lparr>timers := ts\<rparr>) a t = timer_ok uv X w a t"
  "timer_ok uv X (w\<lparr>conns := cs\<rparr>) a t = timer_ok uv X w a t"
  "timer_ok uv X (w\<lparr>resumed := rs\<rparr>) a t = timer_ok uv X w a t"
  "timer_ok uv X (w\<lparr>fresh := n\<rparr>) a t = timer_ok uv X w a t"
  "timer_ok uv X (w\<lparr>stack := stk\<rparr>) a t = timer_ok uv X w a t"
  "timer_ok uv X (w\<lparr>conn_refs := cr\<rparr>) a t = timer_ok uv X w a t"
  by (simp_all add: timer_ok_def)

lemma conn_ok_heap [simp]:
  "conn_ok uv X p (w\<lparr>timers := ts\<rparr>) a c = conn_ok uv X p w a c"
  "conn_ok uv X p (w\<lparr>conns := cs\<rparr>) a c = conn_ok uv X p w a c"
  "conn_ok uv X p (w\<lparr>resumed := rs\<rparr>) a c = conn_ok uv X p w a c"
  "conn_ok uv X p (w\<lparr>fresh := n\<rparr>) a c = conn_ok uv X p w a c"
  "conn_ok uv X p (w\<lparr>stack := stk\<rparr>) a c = conn_ok uv X p w a c"
  "conn_ok uv X p (w\<lparr>timer_refs := tr\<rparr>) a c = conn_ok uv X p w a c"
  by (rule conn_ok_cong; simp)+

lemma timers_ok_conns [simp]: "timers_ok uv X (w\<lparr>conns := cs\<rparr>) = timers_ok uv X w"
  "timers_ok uv X (w\<lparr>resumed := rs\<rparr>) = timers_ok uv X w"
  "timers_ok uv X (w\<lparr>stack := stk\<rparr>) = timers_ok uv X w"
  "timers_ok uv X (w\<lparr>conn_refs := cr\<rparr>) = timers_ok uv X w"
  by (simp_all add: timers_ok_def)

lemma conns_ok_timers [simp]: "conns_ok uv X p (w\<lparr>timers := ts\<rparr>) = conns_ok uv X p w"
  "conns_ok uv X p (w\<lparr>resumed := rs\<rparr>) = conns_ok uv X p w"
  "conns_ok uv X p (w\<lparr>stack := stk\<rparr>) = conns_ok uv X p w"
  "conns_ok uv X p (w\<lparr>timer_refs := tr\<rparr>) = conns_ok uv X p w"
  by (simp_all add: conns_ok_def)

text \<open>Overwriting a timer that stays linked to the same userdata.\<close>

lemma world_ok_set_timer:
  assumes "world_ok uv X p w" "timers w a = Some t" "tm_lua_ref (f t) = tm_lua_ref t"
    "timer_ok uv X w a (f t)"
  shows "world_ok uv X p (set_timer a f w)"
proof -
  have *: "timers_ok uv X w" "\<not> crashed w" "conns_ok uv X p w" "uv_contract uv"
    using assms(1) by (simp_all add: world_ok_def)
  have "timers_ok uv X (w\<lparr>timers := (timers w)(a \<mapsto> f t)\<rparr>)"
    using *(1) assms(2-) timers_ok_ref[OF *(1) _ assms(2)] by (auto simp: timers_ok_def)
  with * assms(2) show ?thesis by (simp add: world_ok_def)
qed

lemma lua_frame_set_timer:
  assumes "timers w a = Some t" "timer_frame t (f t)"
  shows "lua_frame w (set_timer a f w)"
  using assms by (auto simp: lua_frame_def set_timer_def with_timer_def)

text \<open>Overwriting a connection that stays linked to the same userdata, and its requests.\<close>

lemma world_ok_local:
  assumes "world_ok uv X p w" "conns w a = Some c" "c_lua_ref c' = c_lua_ref c"
    and w': "w' = w\<lparr>conns := (conns w)(a \<mapsto> c'), writes := (writes w)(a := n),
      connects := (connects w)(a := k), overlapped := (overlapped w)(a := ov)\<rparr>"
    and p: "\<And>b. b \<noteq> a \<Longrightarrow> p' b = p b" and ok': "conn_ok uv X p' w' a c'"
  shows "world_ok uv X p' w'"
proof -
  have ok: "timers_ok uv X w" "\<not> crashed w" "conns_ok uv X p w" "uv_contract uv"
    using assms(1) by (simp_all add: world_ok_def)
  have [simp]: "loop_handles w' = loop_handles w" "conn_refs w' = conn_refs w" "fresh w' = fresh w"
    by (simp_all add: w')
  have o: "conn_ok uv X p' w' b d = conn_ok uv X p w b d" if "b \<noteq> a" for b d
    using that p by (intro conn_ok_cong) (simp_all add: w')
  have "conn_ok uv X p' w' b d \<and> b < fresh w" if "conns w' b = Some d" for b d
  proof (cases "b = a")
    case True
    then show ?thesis using that ok' conns_ok_fresh[OF ok(3) assms(2)] by (simp add: w')
  next
    case False
    then show ?thesis using that o conns_okD[OF ok(3)] conns_ok_fresh[OF ok(3)] by (simp add: w')
  qed
  moreover have "(\<exists>d. conns w' b = Some d \<and> c_lua_ref d = Some r) \<and> r < fresh w"
    if "conn_refs w r = Some b" for r b
    using ok(3) assms(2,3) conns_ok_ref[OF ok(3) that] that unfolding conns_ok_def by (auto simp: w')
  moreover have "conns w' b \<noteq> None" if "loop_handles w (Tcp b) \<or> loop_handles w (Read_timer b)
      \<or> loop_handles w (Write_timer b) \<or> writes w' b > 0 \<or> connects w' b > 0 \<or> p' b > 0" for b
    using ok(3) that p unfolding conns_ok_def w' by (cases "b = a") auto
  ultimately have "conns_ok uv X p' w'" by (simp add: conns_ok_def)
  moreover have "timer_ok uv X w' b t = timer_ok uv X w b t" for b t
    by (simp add: timer_ok_def w')
  then have "timers_ok uv X w'" using ok(1) by (simp add: timers_ok_def w')
  ultimately show ?thesis using ok by (simp add: world_ok_def w')
qed

lemma world_ok_set_conn:
  assumes "world_ok uv X p w" "conns w a = Some c" "c_lua_ref (f c) = c_lua_ref c"
    "conn_ok uv X p w a (f c)"
  shows "world_ok uv X p (set_conn a f w)"
proof (rule world_ok_local[OF assms(1-3)])
  show "set_conn a f w = w\<lparr>conns := (conns w)(a \<mapsto> f c), writes := (writes w)(a := writes w a),
      connects := (connects w)(a := connects w a), overlapped := (overlapped w)(a := overlapped w a)\<rparr>"
    using assms(2) by simp
  show "conn_ok uv X p (set_conn a f w) a (f c)" using assms(2,4) by simp
qed simp

lemma lua_frame_set_conn:
  assumes "conns w a = Some c" "conn_frame c (f c)"
  shows "lua_frame w (set_conn a f w)"
  using assms by (auto simp: lua_frame_def set_conn_def with_conn_def)

lemma world_ok_resumed [simp]: "world_ok uv X p (w\<lparr>resumed := rs\<rparr>) \<longleftrightarrow> world_ok uv X p w"
  "world_ok uv X p (w\<lparr>stack := stk\<rparr>) \<longleftrightarrow> world_ok uv X p w"
  "world_ok uv X p (push vs w) \<longleftrightarrow> world_ok uv X p w"
  by (simp_all add: world_ok_def push_def)

lemma world_ok_flags [simp]:
  "world_ok uv X p (w\<lparr>panicked := b\<rparr>) \<longleftrightarrow> world_ok uv X p w"
  "world_ok uv X p (w\<lparr>stopped := b\<rparr>) \<longleftrightarrow> world_ok uv X p w"
  "world_ok uv X p (w\<lparr>resolvers := ts\<rparr>) \<longleftrightarrow> world_ok uv X p w"
  by (simp_all add: world_ok_def timers_ok_def timer_ok_def conns_ok_def conn_parts holders_def)

lemma lua_frame_resumed [simp]: "lua_frame w (w'\<lparr>resumed := rs\<rparr>) \<longleftrightarrow> lua_frame w w'"
  "lua_frame (w\<lparr>resumed := rs\<rparr>) w' \<longleftrightarrow> lua_frame w w'"
  "lua_frame w (w'\<lparr>stack := stk\<rparr>) \<longleftrightarrow> lua_frame w w'"
  "lua_frame (w\<lparr>stack := stk\<rparr>) w' \<longleftrightarrow> lua_frame w w'"
  "lua_frame w (push vs w') \<longleftrightarrow> lua_frame w w'"
  "lua_frame (push vs w) w' \<longleftrightarrow> lua_frame w w'"
  by (simp_all add: lua_frame_def push_def)

section \<open>The interface to the Lua runtime\<close>

text \<open>
  What a C function assumes of the Lua code that it resumes: whatever the C stack holds, the code keeps
  the invariant and leaves alone what it cannot reach.
\<close>

lemma snd_resume:
  "snd (resume_lua_thread lua n stk w) =
     (if lua_tointeger (stk ! (n - 1)) \<noteq> 0 \<and> stk ! n = Resume_fn
      then snd (lua (w\<lparr>resumed := resumed w @ [(lua_tointeger (stk ! (n - 1)), rev (take (n - 1) stk))]\<rparr>))
      else w)"
  by (simp add: resume_lua_thread_def Let_def case_prod_unfold split: lua_outcome.split)

locale lua_runtime =
  fixes uv :: "'h uv_api" and lua :: "'h lua_code"
  assumes lua_ok: "world_ok uv X p w \<Longrightarrow> world_ok uv X p (snd (lua w))"
    and lua_frame: "world_ok uv X p w \<Longrightarrow> lua_frame w (snd (lua w))"
begin

lemma resume_ok: "world_ok uv X p w \<Longrightarrow> world_ok uv X p (snd (resume_lua_thread lua n stk w))"
  using lua_ok[of X p "w\<lparr>resumed := rs\<rparr>" for rs] by (simp add: snd_resume)

lemma resume_frame: "world_ok uv X p w \<Longrightarrow> lua_frame w (snd (resume_lua_thread lua n stk w))"
  using lua_frame[of X p "w\<lparr>resumed := rs\<rparr>" for rs] by (simp add: snd_resume)

lemma resume_global_ok: "world_ok uv X p w \<Longrightarrow> world_ok uv X p (resume_global lua n w)"
  using resume_ok[of X p "w\<lparr>stack := []\<rparr>" n "stack w"]
  by (simp add: resume_global_def case_prod_unfold)

lemma resume_global_frame: "world_ok uv X p w \<Longrightarrow> lua_frame w (resume_global lua n w)"
  using resume_frame[of X p "w\<lparr>stack := []\<rparr>" n "stack w"]
  by (simp add: resume_global_def case_prod_unfold)

end

text \<open>Threads that yield at once.\<close>

abbreviation yielding :: "lua_outcome \<Rightarrow> 'h lua_code" where
  "yielding out \<equiv> \<lambda>w. (out, w)"

lemma yielding_runtime: "lua_runtime uv (yielding out)"
  by unfold_locales simp_all

lemma resume_quiet:
  "stack w = v # u # Int_val tid # Resume_fn # st \<Longrightarrow> tid \<noteq> 0 \<Longrightarrow>
   resume_global (yielding out) 3 w = w\<lparr>resumed := resumed w @ [(tid, [u, v])],
     stack := (case out of Returned f x \<Rightarrow> x # Bool_val f # st | Failed m \<Rightarrow> m # st)\<rparr>"
  by (simp add: resume_global_def resume_lua_thread_def lua_tointeger_def split: lua_outcome.split)

lemma resume_thread_quiet:
  "tid \<noteq> 0 \<Longrightarrow> snd (resume_lua_thread (yielding out) 3 [v, u, Int_val tid, Resume_fn] w) =
     w\<lparr>resumed := resumed w @ [(tid, [u, v])]\<rparr>"
  by (simp add: snd_resume lua_tointeger_def)

end
