(* ===== verification/Luaw_Timer.thy ===== *)
theory Luaw_Timer
  imports Luaw_Own
begin

text \<open>
  User timers, \<^verbatim>\<open>src/src/luaw_timer.c\<close>. A method of a timer object takes the userdata \<open>r\<close> that Lua passes;
  \<open>lua\<close> is the Lua code that runs when the method resumes a thread. Methods return the values left on
  the Lua stack and the new state.
\<close>

section \<open>Operations\<close>

definition clear_user_timer :: "'h luaw_timer \<Rightarrow> 'h luaw_timer" where
  "clear_user_timer t = t\<lparr>tm_state := INIT, tm_lua_tid := 0\<rparr>"

text \<open>The close callback of the handle at address \<open>a\<close>.\<close>

definition free_user_timer :: "addr \<Rightarrow> 'h luaw \<Rightarrow> 'h luaw" where
  "free_user_timer a = with_timer a (\<lambda>t w.
     case tm_data t of
       None \<Rightarrow> w
     | Some b \<Rightarrow> GC_REF_timer b (set_timer a (\<lambda>t. t\<lparr>tm_data := None\<rparr>) w))"

definition close_timer :: "'h uv_api \<Rightarrow> 'h lua_code \<Rightarrow> addr \<Rightarrow> 'h luaw \<Rightarrow> 'h luaw" where
  "close_timer uv lua a = with_timer a (\<lambda>t w.
     case tm_lua_ref t of
       None \<Rightarrow> w
     | Some r \<Rightarrow>
         let w = w\<lparr>timer_refs := (timer_refs w)(r := None)\<rparr>;
             w = set_timer a (\<lambda>t. t\<lparr>tm_lua_ref := None, tm_ref_count := tm_ref_count t - 1\<rparr>) w;
             w = (if tm_lua_tid t \<noteq> 0
                  then resume_global lua 3 (set_timer a (\<lambda>t. t\<lparr>tm_lua_tid := 0\<rparr>)
                         (push [Resume_fn, Int_val (tm_lua_tid t), Bool_val False, Err UV_ECANCELED] w))
                  else w)
         in set_timer a (\<lambda>t. t\<lparr>tm_handle := close_if_active uv (tm_handle t)\<rparr>) w)"

definition close_timer_lua :: "'h uv_api \<Rightarrow> 'h lua_code \<Rightarrow> ref \<Rightarrow> 'h luaw \<Rightarrow> lua_val list \<times> 'h luaw" where
  "close_timer_lua uv lua r w =
     (case timer_refs w r of None \<Rightarrow> ([], w) | Some a \<Rightarrow> ([], close_timer uv lua a w))"

definition timer_gc :: "'h uv_api \<Rightarrow> 'h lua_code \<Rightarrow> ref \<Rightarrow> 'h luaw \<Rightarrow> lua_val list \<times> 'h luaw" where
  "timer_gc uv lua r w =
     (case timer_refs w r of None \<Rightarrow> ([], w) | Some a \<Rightarrow> ([], close_timer uv lua a w))"

text \<open>
  \<open>new_user_timer\<close> raises a Lua error when \<open>calloc\<close> or \<open>lua_newuserdata\<close> fails; the new userdata is
  returned otherwise.
\<close>

definition new_user_timer ::
  "'h uv_api \<Rightarrow> bool \<Rightarrow> bool \<Rightarrow> 'h luaw \<Rightarrow> (string + ref) \<times> 'h luaw" where
  "new_user_timer uv calloc_ok udata_ok w =
     (if \<not> calloc_ok then (Inl ''Could not allocate memory for user timer'', w)
      else if \<not> udata_ok then
        (Inl ''Could not allocate memory for user timer Lua reference'', w)
      else
        let a = fresh w; r = fresh w;
            t = \<lparr> tm_handle = uv_init uv, tm_data = None, tm_state = INIT, tm_lua_tid = 0,
                  tm_ref_count = 0, tm_lua_ref = None \<rparr>;
            t = t\<lparr>tm_ref_count := tm_ref_count t + 1, tm_lua_ref := Some r\<rparr>;
            t = t\<lparr>tm_data := Some a, tm_ref_count := tm_ref_count t + 1\<rparr>
        in (Inr r, w\<lparr>timers := (timers w)(a \<mapsto> clear_user_timer t),
                     timer_refs := (timer_refs w)(r \<mapsto> a),
                     loop_handles := (loop_handles w)(User_timer a := True),
                     fresh := fresh w + 1\<rparr>))"

definition on_user_timer_timeout :: "'h lua_code \<Rightarrow> addr \<Rightarrow> 'h luaw \<Rightarrow> 'h luaw" where
  "on_user_timer_timeout lua a = with_timer a (\<lambda>h w.
     case tm_data h of
       None \<Rightarrow> w
     | Some b \<Rightarrow> with_timer b (\<lambda>t w.
         if tm_lua_tid t \<noteq> 0
         then resume_global lua 3 (push [Bool_val True, Bool_val True]
                (set_timer b clear_user_timer (push [Resume_fn, Int_val (tm_lua_tid t)] w)))
         else set_timer b (\<lambda>t. t\<lparr>tm_state := ELAPSED\<rparr>) w) w)"

definition start_user_timer ::
  "'h uv_api \<Rightarrow> 'h lua_code \<Rightarrow> int \<Rightarrow> ref \<Rightarrow> int \<Rightarrow> 'h luaw \<Rightarrow> lua_val list \<times> 'h luaw" where
  "start_user_timer uv lua rc r timeout w =
     (case timer_refs w r of
        None \<Rightarrow> (error_to_lua ''Timer closed'' [], w)
      | Some a \<Rightarrow> (case timers w a of
          None \<Rightarrow> fault w
        | Some t \<Rightarrow>
            if tm_state t \<noteq> INIT then
              (error_to_lua ''Timer already in use by another thread'' [], w)
            else if timeout \<le> 0 then
              (error_to_lua ''Invalid timeout value %d specified'' [Int_val timeout], w)
            else
              let w = set_timer a (\<lambda>t. t\<lparr>tm_handle := uv_timer_start uv rc timeout (tm_handle t)\<rparr>) w in
              if rc \<noteq> 0 then
                (error_to_lua ''Error starting timer: %s'' [Err rc], close_timer uv lua a w)
              else ([Bool_val True], set_timer a (\<lambda>t. t\<lparr>tm_state := TICKING\<rparr>) w)))"

definition timer_state_num :: "timer_state \<Rightarrow> int" where
  "timer_state_num s = (case s of INIT \<Rightarrow> 0 | TICKING \<Rightarrow> 1 | ELAPSED \<Rightarrow> 2)"

definition wait_user_timer :: "ref \<Rightarrow> int \<Rightarrow> 'h luaw \<Rightarrow> lua_val list \<times> 'h luaw" where
  "wait_user_timer r tid w =
     (case timer_refs w r of
        None \<Rightarrow> (error_to_lua ''Timer closed'' [], w)
      | Some a \<Rightarrow> (case timers w a of
          None \<Rightarrow> fault w
        | Some t \<Rightarrow>
            if tm_state t = ELAPSED then
              ([Bool_val True, Bool_val True], set_timer a clear_user_timer w)
            else if tm_state t \<noteq> TICKING then
              (error_to_lua ''Attempt to wait on timer that is not started, timer state: %d''
                 [Int_val (timer_state_num (tm_state t))], w)
            else if tm_lua_tid t \<noteq> 0 then
              (error_to_lua ''Timer already is in use by thread %d'' [Int_val (tm_lua_tid t)], w)
            else if tid \<le> 0 then
              (error_to_lua ''Invalid thread id %d specified'' [Int_val tid], w)
            else
              ([Bool_val True, Bool_val False], set_timer a (\<lambda>t. t\<lparr>tm_lua_tid := tid\<rparr>) w)))"

definition stop_user_timer ::
  "'h uv_api \<Rightarrow> 'h lua_code \<Rightarrow> ref \<Rightarrow> 'h luaw \<Rightarrow> lua_val list \<times> 'h luaw" where
  "stop_user_timer uv lua r w =
     (case timer_refs w r of
        None \<Rightarrow> (error_to_lua ''Timer closed'' [], w)
      | Some a \<Rightarrow> (case timers w a of
          None \<Rightarrow> fault w
        | Some t \<Rightarrow>
            if tm_state t = TICKING then
              let w = (if tm_lua_tid t \<noteq> 0
                       then snd (resume_lua_thread lua 3
                         (rev [Resume_fn, Int_val (tm_lua_tid t), Bool_val False, Err UV_ECANCELED]) w)
                       else w);
                  w = set_timer a clear_user_timer w
              in ([], set_timer a (\<lambda>t. t\<lparr>tm_handle := uv_timer_stop uv (tm_handle t)\<rparr>) w)
            else ([], w)))"

text \<open>What the event loop does with a handle at \<open>a\<close>: fire the timer, or run the close callback.\<close>

definition fire_user_timer :: "'h uv_api \<Rightarrow> 'h lua_code \<Rightarrow> addr \<Rightarrow> 'h luaw \<Rightarrow> 'h luaw" where
  "fire_user_timer uv lua a = with_timer a (\<lambda>t w.
     if uv_is_active uv (tm_handle t)
     then on_user_timer_timeout lua a
            (set_timer a (\<lambda>t. t\<lparr>tm_handle := uv_timer_expire uv (tm_handle t)\<rparr>) w)
     else w)"

definition close_user_timer_handle :: "'h uv_api \<Rightarrow> addr \<Rightarrow> 'h luaw \<Rightarrow> 'h luaw" where
  "close_user_timer_handle uv a = with_timer a (\<lambda>t w.
     if uv_is_closing uv (tm_handle t)
     then free_user_timer a (w\<lparr>loop_handles := (loop_handles w)(User_timer a := False)\<rparr>)
     else w)"

section \<open>Every operation keeps the invariant\<close>

lemma timer_of_ref:
  assumes "world_ok uv X p w" "timer_refs w r = Some a"
  obtains t where "timers w a = Some t" "tm_lua_ref t = Some r" "timer_ok uv X w a t"
  using assms unfolding world_ok_def timers_ok_def by blast

text \<open>Delinking a timer: the first lines of \<open>close_timer\<close>.\<close>

definition delink_timer :: "ref \<Rightarrow> addr \<Rightarrow> 'h luaw \<Rightarrow> 'h luaw" where
  "delink_timer r a w = set_timer a (\<lambda>t. t\<lparr>tm_lua_ref := None, tm_ref_count := tm_ref_count t - 1\<rparr>)
     (w\<lparr>timer_refs := (timer_refs w)(r := None)\<rparr>)"

lemma delink_timer_ok:
  assumes "world_ok uv X p w" "timers w a = Some t" "tm_lua_ref t = Some r"
  shows "world_ok uv (insert (User_timer a) X) p (delink_timer r a w)" "lua_frame w (delink_timer r a w)"
proof -
  let ?w = "delink_timer r a w"
  note ok = world_okD(2)[OF assms(1)]
  have t: "timer_ok uv X w a t" using timers_okD[OF ok assms(2)] .
  then have r: "timer_refs w r = Some a" using assms(3) by (simp add: timer_ok_def)
  have [simp]: "timers ?w = (timers w)(a \<mapsto> t\<lparr>tm_lua_ref := None, tm_ref_count := tm_ref_count t - 1\<rparr>)"
    "timer_refs ?w = (timer_refs w)(r := None)" "loop_handles ?w = loop_handles w" "fresh ?w = fresh w"
    "crashed ?w = crashed w"
    using assms(2) by (simp_all add: delink_timer_def)
  have "timer_ok uv (insert (User_timer a) X) ?w b u \<and> b < fresh w" if "timers ?w b = Some u" for b u
  proof (cases "b = a")
    case True
    then show ?thesis using that t assms(3) timers_ok_fresh[OF ok assms(2)] by (auto simp: timer_ok_def)
  next
    case False
    then have "timers w b = Some u" using that by simp
    then have "timer_ok uv X w b u \<and> b < fresh w" using ok by (simp add: timers_ok_def)
    then show ?thesis using False r by (auto simp: timer_ok_def)
  qed
  moreover have "\<exists>u. timers ?w b = Some u \<and> tm_lua_ref u = Some q" "q < fresh w"
    if "timer_refs ?w q = Some b" for q b
  proof -
    from that have q: "q \<noteq> r" "timer_refs w q = Some b" by (auto split: if_splits)
    then obtain u where u: "timers w b = Some u" "tm_lua_ref u = Some q" "q < fresh w"
      using ok unfolding timers_ok_def by blast
    moreover from u q(1) assms(2,3) have "b \<noteq> a" by auto
    ultimately show "\<exists>u. timers ?w b = Some u \<and> tm_lua_ref u = Some q" "q < fresh w" by simp_all
  qed
  moreover have "loop_handles w (User_timer b) \<Longrightarrow> timers w b \<noteq> None" for b
    using ok by (simp add: timers_ok_def)
  ultimately have "timers_ok uv (insert (User_timer a) X) ?w" by (simp add: timers_ok_def)
  moreover have "conns_ok uv (insert (User_timer a) X) p ?w"
    using assms(1,2) by (simp add: delink_timer_def world_ok_def)
  ultimately show "world_ok uv (insert (User_timer a) X) p ?w" using assms(1) by (simp add: world_ok_def)
  show "lua_frame w ?w"
    using assms(2,3) by (auto simp: lua_frame_def timer_frame_def delink_timer_def)
qed


lemma timer_ok_insert:
  "b \<noteq> a \<Longrightarrow> timer_ok uv (insert (User_timer a) X) w b u = timer_ok uv X w b u"
  by (simp add: timer_ok_def)

lemma close_handle_ok:
  assumes "world_ok uv (insert (User_timer a) X) p w" "timers w a = Some t"
    "tm_lua_ref t = None" "tm_lua_tid t = 0"
  shows "world_ok uv X p (set_timer a (\<lambda>t. t\<lparr>tm_handle := close_if_active uv (tm_handle t)\<rparr>) w)"
proof -
  let ?t = "t\<lparr>tm_handle := close_if_active uv (tm_handle t)\<rparr>"
  note ok = world_okD[OF assms(1)]
  have cl: "uv_is_closing uv (close_if_active uv (tm_handle t))"
    using ok(4) by (simp add: close_if_active_def uv_contractD)
  have t: "timer_ok uv (insert (User_timer a) X) w a t" using timers_okD[OF ok(2) assms(2)] .
  have "timer_ok uv X w b u" if "((timers w)(a \<mapsto> ?t)) b = Some u" for b u
  proof (cases "b = a")
    case True
    then show ?thesis using that t cl assms(3,4) by (auto simp: timer_ok_def)
  next
    case False
    then show ?thesis using that timers_okD[OF ok(2), of b u] by (simp add: timer_ok_insert)
  qed
  then have "timers_ok uv X (w\<lparr>timers := (timers w)(a \<mapsto> ?t)\<rparr>)"
    using ok(2) assms(2) timers_ok_ref[OF ok(2) _ assms(2)] by (auto simp: timers_ok_def)
  then show ?thesis using ok assms(2) by (simp add: world_ok_def)
qed

text \<open>An operation may change the timer that it was called on after it has been delinked.\<close>

lemma lua_frame_own_timer:
  assumes "lua_frame w w'" "timers w a = Some t" "tm_lua_ref t \<noteq> None" "timers w' a = Some u"
    "tm_data (f u) = tm_data u" "tm_lua_ref (f u) = tm_lua_ref u"
  shows "lua_frame w (set_timer a f w')"
proof -
  have "timer_frame t (f u)"
    using assms lua_frame_timer[OF assms(1,2)] by (fastforce simp: timer_frame_def)
  then show ?thesis using assms(1,2,4) by (simp add: lua_frame_def)
qed

context lua_runtime
begin

lemma close_timer_ok:
  assumes "world_ok uv X p w" "timers w a = Some t"
  shows "world_ok uv X p (close_timer uv lua a w) \<and> lua_frame w (close_timer uv lua a w)"
proof (cases "tm_lua_ref t")
  case None
  then show ?thesis using assms by (simp add: close_timer_def with_timer_def)
next
  case (Some r)
  let ?w1 = "delink_timer r a w" and ?X = "insert (User_timer a) X"
  let ?w2 = "set_timer a (\<lambda>t. t\<lparr>tm_lua_tid := 0\<rparr>)
      (push [Resume_fn, Int_val (tm_lua_tid t), Bool_val False, Err UV_ECANCELED] ?w1)"
  let ?w3 = "if tm_lua_tid t \<noteq> 0 then resume_global lua 3 ?w2 else ?w1"
  let ?t1 = "t\<lparr>tm_lua_ref := None, tm_ref_count := tm_ref_count t - 1\<rparr>"
  have eq: "close_timer uv lua a w =
      set_timer a (\<lambda>t. t\<lparr>tm_handle := close_if_active uv (tm_handle t)\<rparr>) ?w3"
    using assms(2) Some by (simp add: close_timer_def with_timer_def delink_timer_def Let_def)
  note ok1 = delink_timer_ok[OF assms Some]
  have t1: "timers ?w1 a = Some ?t1" using assms(2) by (simp add: delink_timer_def)
  have ok2: "world_ok uv ?X p ?w2"
    using timers_okD[OF world_okD(2)[OF ok1(1)] t1]
    by (intro world_ok_set_timer[where t = ?t1]) (auto simp: ok1(1) t1 timer_ok_def)
  have fr2: "lua_frame w ?w2"
    using assms(2) Some t1 by (auto simp: delink_timer_def lua_frame_def timer_frame_def)
  have ok3: "world_ok uv ?X p ?w3" using ok1(1) resume_global_ok[OF ok2] by simp
  have fr3: "lua_frame w ?w3"
    using ok1(2) lua_frame_trans[OF fr2 resume_global_frame[OF ok2]] by simp
  have "lua_frame ?w2 (resume_global lua 3 ?w2)"
    by (rule resume_global_frame[OF ok2])
  then have t3: "timers ?w3 a = Some (?t1\<lparr>tm_lua_tid := 0\<rparr>)"
    using t1 by (auto elim!: lua_frame_timer[where a = a] simp: timer_frame_def)
  show ?thesis unfolding eq
    using close_handle_ok[OF ok3 t3] lua_frame_own_timer[OF fr3 assms(2) _ t3] Some
    by (simp del: set_timer_Some)
qed

lemma close_timer_lua_ok:
  assumes "world_ok uv X p w"
  shows "world_ok uv X p (snd (close_timer_lua uv lua r w)) \<and> lua_frame w (snd (close_timer_lua uv lua r w))"
    "world_ok uv X p (snd (timer_gc uv lua r w)) \<and> lua_frame w (snd (timer_gc uv lua r w))"
proof -
  have "world_ok uv X p (close_timer uv lua a w) \<and> lua_frame w (close_timer uv lua a w)"
    if "timer_refs w r = Some a" for a
    using timer_of_ref[OF assms that] close_timer_ok[OF assms] by metis
  then show "world_ok uv X p (snd (close_timer_lua uv lua r w)) \<and> lua_frame w (snd (close_timer_lua uv lua r w))"
    "world_ok uv X p (snd (timer_gc uv lua r w)) \<and> lua_frame w (snd (timer_gc uv lua r w))"
    using assms by (simp_all add: close_timer_lua_def timer_gc_def split: option.split)
qed

lemma start_user_timer_ok:
  assumes "world_ok uv X p w"
  shows "world_ok uv X p (snd (start_user_timer uv lua rc r timeout w))
    \<and> lua_frame w (snd (start_user_timer uv lua rc r timeout w))"
proof (cases "timer_refs w r")
  case None
  then show ?thesis using assms by (simp add: start_user_timer_def)
next
  case (Some a)
  then obtain t where t: "timers w a = Some t" "tm_lua_ref t = Some r" "timer_ok uv X w a t"
    using timer_of_ref[OF assms] by blast
  consider (err) "tm_state t \<noteq> INIT \<or> timeout \<le> 0" | (fail) "tm_state t = INIT" "timeout > 0" "rc \<noteq> 0"
    | (run) "tm_state t = INIT" "timeout > 0" "rc = 0"
    by linarith
  then show ?thesis
  proof cases
    case err
    then show ?thesis using assms t Some by (auto simp: start_user_timer_def)
  next
    case fail
    let ?f = "\<lambda>t. t\<lparr>tm_handle := uv_timer_start uv rc timeout (tm_handle t)\<rparr>"
    have ok: "world_ok uv X p (set_timer a ?f w)" and fr: "lua_frame w (set_timer a ?f w)"
      using t fail uv_contractD[OF world_okD(4)[OF assms]] by (auto intro!: world_ok_set_timer[OF assms t(1)] lua_frame_set_timer[OF t(1)]
        simp: timer_ok_def timer_frame_def simp del: set_timer_Some)
    have "timers (set_timer a ?f w) a = Some (?f t)" using t(1) by simp
    from close_timer_ok[OF ok this] fr show ?thesis
      using t fail Some by (auto simp: start_user_timer_def Let_def intro: lua_frame_trans)
  next
    case run
    let ?f = "\<lambda>t. t\<lparr>tm_handle := uv_timer_start uv rc timeout (tm_handle t), tm_state := TICKING\<rparr>"
    have "world_ok uv X p (set_timer a ?f w)" "lua_frame w (set_timer a ?f w)"
      using t run uv_contractD[OF world_okD(4)[OF assms]] by (auto intro!: world_ok_set_timer[OF assms t(1)] lua_frame_set_timer[OF t(1)]
        simp: timer_ok_def timer_frame_def simp del: set_timer_Some)
    then show ?thesis using t run Some by (simp add: start_user_timer_def Let_def)
  qed
qed

lemma wait_user_timer_ok:
  assumes "world_ok uv X p w"
  shows "world_ok uv X p (snd (wait_user_timer r tid w)) \<and> lua_frame w (snd (wait_user_timer r tid w))"
proof (cases "timer_refs w r")
  case None
  then show ?thesis using assms by (simp add: wait_user_timer_def)
next
  case (Some a)
  then obtain t where t: "timers w a = Some t" "tm_lua_ref t = Some r" "timer_ok uv X w a t"
    using timer_of_ref[OF assms] by blast
  have "world_ok uv X p (set_timer a clear_user_timer w) \<and> lua_frame w (set_timer a clear_user_timer w)"
    if "tm_state t = ELAPSED"
    using t that by (auto intro!: world_ok_set_timer[OF assms t(1)] lua_frame_set_timer[OF t(1)]
      simp: timer_ok_def timer_frame_def clear_user_timer_def simp del: set_timer_Some)
  moreover have "world_ok uv X p (set_timer a (\<lambda>t. t\<lparr>tm_lua_tid := tid\<rparr>) w)
      \<and> lua_frame w (set_timer a (\<lambda>t. t\<lparr>tm_lua_tid := tid\<rparr>) w)" if "tm_state t = TICKING"
    using t that by (auto intro!: world_ok_set_timer[OF assms t(1)] lua_frame_set_timer[OF t(1)]
      simp: timer_ok_def timer_frame_def simp del: set_timer_Some)
  ultimately show ?thesis using t(1) Some assms
    by (simp add: wait_user_timer_def)
qed

lemma stop_user_timer_ok:
  assumes "world_ok uv X p w"
  shows "world_ok uv X p (snd (stop_user_timer uv lua r w)) \<and> lua_frame w (snd (stop_user_timer uv lua r w))"
proof (cases "timer_refs w r")
  case None
  then show ?thesis using assms by (simp add: stop_user_timer_def)
next
  case (Some a)
  then obtain t where t: "timers w a = Some t" "tm_lua_ref t = Some r" "timer_ok uv X w a t"
    using timer_of_ref[OF assms] by blast
  let ?w = "if tm_lua_tid t \<noteq> 0 then snd (resume_lua_thread lua 3
      (rev [Resume_fn, Int_val (tm_lua_tid t), Bool_val False, Err UV_ECANCELED]) w) else w"
  let ?f = "\<lambda>t. (clear_user_timer t)\<lparr>tm_handle := uv_timer_stop uv (tm_handle t)\<rparr>"
  have ok: "world_ok uv X p ?w" and fr: "lua_frame w ?w"
    using assms resume_ok[OF assms] resume_frame[OF assms] by auto
  from fr t(1) obtain u where u: "timers ?w a = Some u" by (rule lua_frame_timer)
  have "world_ok uv X p (set_timer a ?f ?w)"
    using timers_okD[OF world_okD(2)[OF ok] u] uv_contractD[OF world_okD(4)[OF assms]]
    by (intro world_ok_set_timer[OF ok u]) (auto simp: timer_ok_def clear_user_timer_def)
  moreover have "lua_frame w (set_timer a ?f ?w)"
    using t(2) by (intro lua_frame_own_timer[OF fr t(1) _ u]) (auto simp: clear_user_timer_def)
  moreover have "set_timer a ?f ?w = set_timer a (\<lambda>t. t\<lparr>tm_handle := uv_timer_stop uv (tm_handle t)\<rparr>)
      (set_timer a clear_user_timer ?w)"
    using u by (simp add: clear_user_timer_def)
  ultimately show ?thesis using assms t(1) Some
    by (simp add: stop_user_timer_def Let_def del: set_timer_Some)
qed

lemma fire_user_timer_ok:
  assumes "world_ok uv X p w" "timers w a = Some t"
  shows "world_ok uv X p (fire_user_timer uv lua a w)"
proof (cases "uv_is_active uv (tm_handle t)")
  case False
  then show ?thesis using assms by (simp add: fire_user_timer_def with_timer_def)
next
  case True
  let ?e = "\<lambda>t. t\<lparr>tm_handle := uv_timer_expire uv (tm_handle t)\<rparr>"
  note t = timers_okD[OF world_okD(2)[OF assms(1)] assms(2)]
  consider (none) "tm_data t = None" | (wake) "tm_data t = Some a" "tm_lua_tid t \<noteq> 0"
    | (elapse) "tm_data t = Some a" "tm_lua_tid t = 0"
    using t by (auto simp: timer_ok_def)
  then show ?thesis
  proof cases
    case none
    have "world_ok uv X p (set_timer a ?e w)"
      using t none uv_contractD[OF world_okD(4)[OF assms(1)]] by (intro world_ok_set_timer[OF assms]) (auto simp: timer_ok_def)
    then show ?thesis using True none assms(2)
      by (simp add: fire_user_timer_def on_user_timer_timeout_def with_timer_def)
  next
    case wake
    have "world_ok uv X p (set_timer a (clear_user_timer \<circ> ?e) w)"
      using t uv_contractD[OF world_okD(4)[OF assms(1)]] by (intro world_ok_set_timer[OF assms]) (auto simp: timer_ok_def clear_user_timer_def)
    then have "world_ok uv X p (push [Resume_fn, Int_val (tm_lua_tid t), Bool_val True, Bool_val True]
        (set_timer a (clear_user_timer \<circ> ?e) w))"
      by simp
    from resume_global_ok[OF this, of 3] show ?thesis
      using True wake assms(2)
      by (simp add: fire_user_timer_def on_user_timer_timeout_def with_timer_def push_def)
  next
    case elapse
    have "world_ok uv X p (set_timer a ((\<lambda>t. t\<lparr>tm_state := ELAPSED\<rparr>) \<circ> ?e) w)"
      using t uv_contractD[OF world_okD(4)[OF assms(1)]] elapse by (intro world_ok_set_timer[OF assms]) (auto simp: timer_ok_def)
    then show ?thesis
      using True elapse assms(2) by (simp add: fire_user_timer_def on_user_timer_timeout_def with_timer_def)
  qed
qed

end

text \<open>A new timer gets an address that nothing refers to yet.\<close>

lemma new_user_timer_ok:
  assumes "world_ok uv X p w"
  shows "world_ok uv X p (snd (new_user_timer uv b1 b2 w)) \<and> lua_frame w (snd (new_user_timer uv b1 b2 w))"
proof (cases "b1 \<and> b2")
  case False
  then show ?thesis using assms by (auto simp: new_user_timer_def)
next
  case True
  let ?w = "snd (new_user_timer uv b1 b2 w)" and ?a = "fresh w"
  let ?t = "\<lparr> tm_handle = uv_init uv, tm_data = Some ?a, tm_state = INIT, tm_lua_tid = 0,
    tm_ref_count = 2, tm_lua_ref = Some ?a \<rparr>"
  have w: "?w = w\<lparr>timers := (timers w)(?a \<mapsto> ?t), timer_refs := (timer_refs w)(?a \<mapsto> ?a),
      loop_handles := (loop_handles w)(User_timer ?a := True), fresh := ?a + 1\<rparr>"
    using True by (simp add: new_user_timer_def clear_user_timer_def Let_def)
  note ok = world_okD[OF assms(1)]
  have new: "timers w ?a = None" "timer_refs w ?a = None"
    using ok(2) by (metis less_irrefl not_None_eq timers_ok_def)+
  have "timer_ok uv X ?w ?a ?t" using ok(4) by (simp add: w timer_ok_def uv_contractD)
  moreover have "timer_ok uv X ?w b u \<and> b < fresh ?w" if "timers w b = Some u" "b \<noteq> ?a" for b u
    using timers_okD[OF ok(2) that(1)] that(2) new(2) timers_ok_fresh[OF ok(2) that(1)]
    by (auto simp: timer_ok_def w)
  moreover have "\<exists>t. timers ?w b = Some t \<and> tm_lua_ref t = Some q" "q < fresh ?w"
    if "timer_refs ?w q = Some b" for q b
    using that ok(2) new unfolding timers_ok_def w by (fastforce split: if_splits)+
  moreover have "loop_handles ?w (User_timer b) \<Longrightarrow> timers ?w b \<noteq> None" for b
    using ok(2) by (auto simp: timers_ok_def w split: if_splits)
  ultimately have "timers_ok uv X ?w"
    unfolding timers_ok_def by (simp add: w)
  moreover have "conn_ok uv X p ?w b c = conn_ok uv X p w b c" for b c
    by (rule conn_ok_cong) (simp_all add: w)
  then have "conns_ok uv X p ?w"
    using ok(3) unfolding conns_ok_def by (simp add: w less_SucI)
  ultimately show ?thesis using ok(1,4) new by (auto simp: world_ok_def w lua_frame_def)
qed

text \<open>When the close callback runs, the handle holds the only reference: the timer is freed.\<close>

lemma close_user_timer_handle_ok:
  assumes "world_ok uv X p w" "loop_handles w (User_timer a)"
  shows "world_ok uv X p (close_user_timer_handle uv a w)"
proof -
  note ok = world_okD[OF assms(1)]
  obtain t where t: "timers w a = Some t" using ok(2) assms(2) by (auto simp: timers_ok_def)
  note tok = timers_okD[OF ok(2) t]
  have d: "tm_data t = Some a" using tok assms(2) by (auto simp: timer_ok_def)
  show ?thesis
  proof (cases "uv_is_closing uv (tm_handle t)")
    case False
    then show ?thesis using assms t by (simp add: close_user_timer_handle_def with_timer_def)
  next
    case True
    then have l: "tm_lua_ref t = None" "tm_ref_count t = 1"
      using tok d by (auto simp: timer_ok_def)
    let ?w = "w\<lparr>timers := (timers w)(a := None), loop_handles := (loop_handles w)(User_timer a := False)\<rparr>"
    have "close_user_timer_handle uv a w = ?w"
      using t True d l by (simp add: close_user_timer_handle_def free_user_timer_def with_timer_def
        GC_REF_timer_def)
    moreover have "timer_ok uv X ?w b u" if "timers w b = Some u" "b \<noteq> a" for b u
      using timers_okD[OF ok(2) that(1)] that(2) by (auto simp: timer_ok_def)
    then have "timers_ok uv X ?w" using ok(2) t l timers_ok_ref[OF ok(2) _ t] unfolding timers_ok_def
      by auto
    moreover have "conn_ok uv X p ?w b c = conn_ok uv X p w b c" for b c
      by (rule conn_ok_cong) simp_all
    then have "conns_ok uv X p ?w" using ok(3) by (simp add: conns_ok_def)
    ultimately show ?thesis using ok(1,4) by (simp add: world_ok_def)
  qed
qed

end
