(* ===== verification/Luaw_Tcp.thy ===== *)
theory Luaw_Tcp
  imports Luaw_Own
begin

text \<open>
  Connections, \<^verbatim>\<open>src/src/luaw_tcp.c\<close>. \<open>l1\<close>, \<open>l2\<close> and \<open>l3\<close> are the Lua code that runs at the first, second
  and third thread that an operation resumes; return codes of libuv are arguments.
\<close>

section \<open>Creating and closing connections\<close>

text \<open>
  \<open>new_connection\<close> raises a Lua error when \<open>calloc\<close> or \<open>lua_newuserdata\<close> fails. The userdata that it
  creates has the same number as the connection.
\<close>

definition new_connection :: "'h uv_api \<Rightarrow> bool \<Rightarrow> bool \<Rightarrow> 'h luaw \<Rightarrow> (string + addr) \<times> 'h luaw" where
  "new_connection uv calloc_ok udata_ok w =
     (if \<not> calloc_ok then (Inl ''Could not allocate memory for client connection'', w)
      else if \<not> udata_ok then
        (Inl ''Could not allocate memory for client connection Lua reference'', w)
      else
        let a = fresh w; r = fresh w;
            c = \<lparr> c_handle = uv_init uv, c_data = None, lua_reader_tid = 0, read_len = 0,
                  read_timer = uv_init uv, read_timer_data = None, lua_writer_tid = 0,
                  write_timer = uv_init uv, write_timer_data = None, write_req_data = None,
                  c_ref_count = 0, c_lua_ref = None, read_buffer = replicate CONN_BUFFER_SIZE NUL \<rparr>;
            c = c\<lparr>c_ref_count := c_ref_count c + 1, c_lua_ref := Some r\<rparr>;
            c = c\<lparr>c_data := Some a, c_ref_count := c_ref_count c + 1\<rparr>;
            c = c\<lparr>read_timer_data := Some a, c_ref_count := c_ref_count c + 1, read_len := 0,
                  lua_reader_tid := 0\<rparr>;
            c = c\<lparr>write_timer_data := Some a, c_ref_count := c_ref_count c + 1, lua_writer_tid := 0\<rparr>
        in (Inr a, w\<lparr>conns := (conns w)(a \<mapsto> c), conn_refs := (conn_refs w)(r \<mapsto> a),
              loop_handles := (loop_handles w)(Tcp a := True, Read_timer a := True, Write_timer a := True),
              fresh := fresh w + 1\<rparr>))"

definition new_connection_lua :: "'h uv_api \<Rightarrow> bool \<Rightarrow> bool \<Rightarrow> 'h luaw \<Rightarrow> (string + ref) \<times> 'h luaw" where
  "new_connection_lua uv calloc_ok udata_ok w = new_connection uv calloc_ok udata_ok w"

text \<open>The close callbacks of the two timers and of the socket.\<close>

definition free_read_timer :: "addr \<Rightarrow> 'h luaw \<Rightarrow> 'h luaw" where
  "free_read_timer a = with_conn a (\<lambda>c w. case read_timer_data c of
     None \<Rightarrow> w | Some b \<Rightarrow> GC_REF_conn b (set_conn a (\<lambda>c. c\<lparr>read_timer_data := None\<rparr>) w))"

definition free_write_timer :: "addr \<Rightarrow> 'h luaw \<Rightarrow> 'h luaw" where
  "free_write_timer a = with_conn a (\<lambda>c w. case write_timer_data c of
     None \<Rightarrow> w | Some b \<Rightarrow> GC_REF_conn b (set_conn a (\<lambda>c. c\<lparr>write_timer_data := None\<rparr>) w))"

definition free_tcp_handle :: "addr \<Rightarrow> 'h luaw \<Rightarrow> 'h luaw" where
  "free_tcp_handle a = with_conn a (\<lambda>c w. case c_data c of
     None \<Rightarrow> w | Some b \<Rightarrow> GC_REF_conn b (set_conn a (\<lambda>c. c\<lparr>c_data := None\<rparr>) w))"

definition close_handles :: "'h uv_api \<Rightarrow> 'h connection \<Rightarrow> 'h connection" where
  "close_handles uv c = c\<lparr>
     read_timer := close_if_active uv (uv_timer_stop uv (read_timer c)),
     write_timer := close_if_active uv (uv_timer_stop uv (write_timer c)),
     c_handle := close_if_active uv (c_handle c)\<rparr>"

text \<open>What the blocked reader and the blocked writer of a connection are told when it is closed.\<close>

definition reader_result :: "int \<Rightarrow> lua_val list" where
  "reader_result status =
     (if status = 0 \<or> status = UV_EOF then [Bool_val False, Str_val ''EOF''] else [Bool_val False, Err status])"

definition writer_result :: "int \<Rightarrow> lua_val list" where
  "writer_result status =
     (if status = 0 \<or> status = UV_EOF then [Bool_val True, Int_val 0] else [Bool_val False, Err status])"

definition unblock_reader :: "'h lua_code \<Rightarrow> addr \<Rightarrow> int \<Rightarrow> 'h luaw \<Rightarrow> 'h luaw" where
  "unblock_reader lua a status = with_conn a (\<lambda>c w.
     if lua_reader_tid c \<noteq> 0
     then resume_global lua 3 (set_conn a (\<lambda>c. c\<lparr>lua_reader_tid := 0\<rparr>)
            (push ([Resume_fn, Int_val (lua_reader_tid c)] @ reader_result status) w))
     else w)"

definition unblock_writer :: "'h lua_code \<Rightarrow> addr \<Rightarrow> int \<Rightarrow> 'h luaw \<Rightarrow> 'h luaw" where
  "unblock_writer lua a status = with_conn a (\<lambda>c w.
     if lua_writer_tid c \<noteq> 0
     then resume_global lua 3 (set_conn a (\<lambda>c. c\<lparr>lua_writer_tid := 0\<rparr>)
            (push ([Resume_fn, Int_val (lua_writer_tid c)] @ writer_result status) w))
     else w)"

definition delink_conn :: "ref \<Rightarrow> addr \<Rightarrow> 'h luaw \<Rightarrow> 'h luaw" where
  "delink_conn r a w = set_conn a (\<lambda>c. c\<lparr>c_lua_ref := None, c_ref_count := c_ref_count c - 1\<rparr>)
     (w\<lparr>conn_refs := (conn_refs w)(r := None)\<rparr>)"

definition close_connection ::
  "'h uv_api \<Rightarrow> 'h lua_code \<Rightarrow> 'h lua_code \<Rightarrow> addr \<Rightarrow> int \<Rightarrow> 'h luaw \<Rightarrow> 'h luaw" where
  "close_connection uv l1 l2 a status = with_conn a (\<lambda>c w.
     case c_lua_ref c of
       None \<Rightarrow> w
     | Some r \<Rightarrow>
         unblock_writer l2 a status (unblock_reader l1 a status
           (set_conn a (close_handles uv) (delink_conn r a w))))"

text \<open>The timeout callback gets the \<open>data\<close> field of the timer.\<close>

definition on_conn_timeout ::
  "'h uv_api \<Rightarrow> 'h lua_code \<Rightarrow> 'h lua_code \<Rightarrow> addr option \<Rightarrow> 'h luaw \<Rightarrow> 'h luaw" where
  "on_conn_timeout uv l1 l2 timer_data w =
     (case timer_data of None \<Rightarrow> w | Some a \<Rightarrow> close_connection uv l1 l2 a UV_ECANCELED w)"

definition start_timer :: "'h uv_api \<Rightarrow> int \<Rightarrow> int \<Rightarrow> 'h \<Rightarrow> 'h" where
  "start_timer uv rc timeout h =
     (if timeout > 0 \<and> \<not> uv_is_active uv h then uv_timer_start uv rc timeout h else h)"

definition stop_timer :: "'h uv_api \<Rightarrow> 'h \<Rightarrow> 'h" where
  "stop_timer uv h = (if uv_is_active uv h then uv_timer_stop uv h else h)"

definition close_connection_lua ::
  "'h uv_api \<Rightarrow> 'h lua_code \<Rightarrow> 'h lua_code \<Rightarrow> ref \<Rightarrow> 'h luaw \<Rightarrow> lua_val list \<times> 'h luaw" where
  "close_connection_lua uv l1 l2 r w =
     (case conn_refs w r of
        None \<Rightarrow> ([], w)
      | Some a \<Rightarrow> ([], close_connection uv l1 l2 a UV_EOF
            (set_conn a (\<lambda>c. c\<lparr>lua_reader_tid := 0, lua_writer_tid := 0\<rparr>) w)))"

definition connection_gc ::
  "'h uv_api \<Rightarrow> 'h lua_code \<Rightarrow> 'h lua_code \<Rightarrow> ref \<Rightarrow> 'h luaw \<Rightarrow> lua_val list \<times> 'h luaw" where
  "connection_gc uv l1 l2 r w =
     (case conn_refs w r of
        None \<Rightarrow> ([], w)
      | Some a \<Rightarrow> ([], close_connection uv l1 l2 a UV_ECANCELED
            (set_conn a (\<lambda>c. c\<lparr>lua_reader_tid := 0, lua_writer_tid := 0\<rparr>) w)))"

section \<open>Reading\<close>

text \<open>The buffer that \<open>on_alloc\<close> offers libuv: an offset into \<open>read_buffer\<close> (or \<open>NULL\<close>) and a length.\<close>

definition on_alloc :: "'h connection \<Rightarrow> nat option \<times> nat" where
  "on_alloc c =
     (case c_data c of
        None \<Rightarrow> (None, 0)
      | Some _ \<Rightarrow> if CONN_BUFFER_SIZE - read_len c > 0
                  then (Some (read_len c), CONN_BUFFER_SIZE - read_len c) else (None, 0))"

definition on_read ::
  "'h uv_api \<Rightarrow> 'h lua_code \<Rightarrow> 'h lua_code \<Rightarrow> addr \<Rightarrow> int \<Rightarrow> 'h luaw \<Rightarrow> 'h luaw" where
  "on_read uv l1 l2 s nread = with_conn s (\<lambda>h w.
     case c_data h of
       None \<Rightarrow> w
     | Some a \<Rightarrow>
         let w = set_conn a (\<lambda>c. c\<lparr>read_timer := stop_timer uv (read_timer c)\<rparr>) w in
         if nread = 0 \<or> nread = UV_ENOBUFS then w
         else if nread > 0 then with_conn a (\<lambda>c w.
           if length (read_buffer c) < read_len c + nat nread then w\<lparr>crashed := True\<rparr>
           else resume_global l1 3 (set_conn a (\<lambda>c. c\<lparr>lua_reader_tid := 0, read_len := 0\<rparr>)
             (push [Resume_fn, Int_val (lua_reader_tid c), Bool_val True,
                    Str_val (take (read_len c + nat nread) (read_buffer c))] w))) w
         else close_connection uv l1 l2 a nread w)"

definition start_reading ::
  "'h uv_api \<Rightarrow> 'h lua_code \<Rightarrow> 'h lua_code \<Rightarrow> int \<Rightarrow> ref \<Rightarrow> 'h luaw \<Rightarrow> lua_val list \<times> 'h luaw" where
  "start_reading uv l1 l2 rc r w =
     (case conn_refs w r of
        None \<Rightarrow> (error_to_lua ''Connection closed'' [], w)
      | Some a \<Rightarrow>
          let w = set_conn a (\<lambda>c. c\<lparr>lua_reader_tid := 0, c_handle := uv_read_start uv rc (c_handle c)\<rparr>) w in
          if rc \<noteq> 0 then ([Bool_val False, Err rc], close_connection uv l1 l2 a rc w)
          else ([Bool_val True], w))"

definition read_check ::
  "'h uv_api \<Rightarrow> 'h lua_code \<Rightarrow> 'h lua_code \<Rightarrow> int \<Rightarrow> ref \<Rightarrow> int \<Rightarrow> int \<Rightarrow> 'h luaw \<Rightarrow> lua_val list \<times> 'h luaw" where
  "read_check uv l1 l2 rc r tid timeout w =
     (case conn_refs w r of
        None \<Rightarrow> (error_to_lua ''Connection closed'' [], w)
      | Some a \<Rightarrow> (case conns w a of
          None \<Rightarrow> fault w
        | Some c \<Rightarrow>
            if \<not> uv_is_active uv (c_handle c) then
              (error_to_lua ''read() called on conn that is not registered to receive read events'' [],
               close_connection uv l1 l2 a UV_EAI_BADFLAGS w)
            else if read_len c = 0 then
              if tid = 0 then (error_to_lua ''read() specified invalid thread id'' [], w)
              else ([Bool_val True, Nil_val],
                set_conn a (\<lambda>c. c\<lparr>lua_reader_tid := tid, read_timer := start_timer uv rc timeout (read_timer c)\<rparr>) w)
            else ([Bool_val True, Str_val (take (read_len c) (read_buffer c))], w)))"

section \<open>Writing\<close>

text \<open>
  The callback of a write request; \<open>req\<close> is the connection that the request is a part of. Every submission is
  taken to complete once. libuv says so of requests that are not in flight; for a \<open>uv_write_t\<close> that
  \<open>write_buffer\<close> submits again before it has completed, which libuv does not allow, it is an assumption, and
  \<open>overlapped\<close> marks the connections concerned.
\<close>

definition on_write ::
  "'h uv_api \<Rightarrow> 'h lua_code \<Rightarrow> 'h lua_code \<Rightarrow> addr \<Rightarrow> int \<Rightarrow> 'h luaw \<Rightarrow> 'h luaw" where
  "on_write uv l1 l2 req status = with_conn req (\<lambda>h w.
     case write_req_data h of
       None \<Rightarrow> w
     | Some a \<Rightarrow>
         let w = set_conn req (\<lambda>c. c\<lparr>write_req_data := None\<rparr>) w;
             w = (if status \<noteq> 0 then close_connection uv l1 l2 a status w
                  else with_conn a (\<lambda>c w.
                    resume_global l1 3 (push [Bool_val True, Int_val 1]
                      (set_conn a (\<lambda>c. c\<lparr>write_timer := stop_timer uv (write_timer c), lua_writer_tid := 0\<rparr>)
                        (push [Resume_fn, Int_val (lua_writer_tid c)] w)))) w)
         in GC_REF_conn a w)"

definition write_buffer ::
  "'h uv_api \<Rightarrow> 'h lua_code \<Rightarrow> 'h lua_code \<Rightarrow> int \<Rightarrow> int \<Rightarrow> ref \<Rightarrow> int \<Rightarrow> string \<Rightarrow> int \<Rightarrow> 'h luaw \<Rightarrow>
     lua_val list \<times> 'h luaw" where
  "write_buffer uv l1 l2 rc trc r tid buff timeout w =
     (case conn_refs w r of
        None \<Rightarrow> (error_to_lua ''Connection closed'' [], w)
      | Some a \<Rightarrow>
          if tid = 0 then (error_to_lua ''write() specified invalid thread id'' [], w)
          else if length buff > 0 then
            let w = set_conn a (\<lambda>c. c\<lparr>c_handle := uv_write uv rc (c_handle c)\<rparr>) w in
            if rc \<noteq> 0 then ([Bool_val False, Err rc], close_connection uv l1 l2 a rc w)
            else
              let w = w\<lparr>writes := (writes w)(a := writes w a + 1),
                        overlapped := (overlapped w)(a := overlapped w a \<or> writes w a > 0)\<rparr>
              in ([Bool_val True, Int_val (int (length buff))],
                  set_conn a (\<lambda>c. c\<lparr>write_req_data := Some a, c_ref_count := c_ref_count c + 1,
                    lua_writer_tid := tid, write_timer := start_timer uv trc timeout (write_timer c)\<rparr>) w)
          else ([Bool_val True, Int_val 0], w))"

section \<open>Connecting\<close>

text \<open>The callback frees the connect request, whose \<open>data\<close> is the connection \<open>a\<close>.\<close>

definition on_client_connect ::
  "'h uv_api \<Rightarrow> 'h lua_code \<Rightarrow> 'h lua_code \<Rightarrow> 'h lua_code \<Rightarrow> addr \<Rightarrow> int \<Rightarrow> 'h luaw \<Rightarrow> 'h luaw" where
  "on_client_connect uv l1 l2 l3 a status = with_conn a (\<lambda>c w.
     let w = set_conn a (\<lambda>c. c\<lparr>write_timer := stop_timer uv (write_timer c)\<rparr>) w;
         w = push [Resume_fn, Int_val (lua_writer_tid c)] w;
         w = (if status \<noteq> 0
              then push [Bool_val False, Err status] (close_connection uv l1 l2 a status w)
              else push [Bool_val True, Nil_val] w)
     in resume_global l3 3 w)"

text \<open>
  \<open>client_connect\<close>: \<open>addr_ok\<close> is the result of \<open>uv_ip4_addr\<close>, the next three flags those of the
  allocations. A Lua error is \<^const>\<open>Inl\<close>; a successful call returns the userdata.
\<close>

definition client_connect ::
  "'h uv_api \<Rightarrow> 'h lua_code \<Rightarrow> 'h lua_code \<Rightarrow> string \<Rightarrow> int \<Rightarrow> int \<Rightarrow> int \<Rightarrow> bool \<Rightarrow> bool \<Rightarrow> bool \<Rightarrow> bool \<Rightarrow>
     int \<Rightarrow> int \<Rightarrow> 'h luaw \<Rightarrow> (string + lua_val list + ref) \<times> 'h luaw" where
  "client_connect uv l1 l2 ip4 port tid timeout addr_ok calloc_ok udata_ok req_ok rc trc w =
     (if port = 0 then
        (Inr (Inl (error_to_lua ''Invalid port specified in client_connect'' [])), w)
      else if tid = 0 then
        (Inr (Inl (error_to_lua ''Invalid thread id specified in client_connect'' [])), w)
      else if \<not> addr_ok then
        (Inr (Inl (error_to_lua ''Invalid ip address %s and port %d combination specified in client_connect''
           [Str_val ip4, Int_val port])), w)
      else case new_connection uv calloc_ok udata_ok w of
        (Inl msg, w) \<Rightarrow> (Inl msg, w)
      | (Inr a, w) \<Rightarrow>
          if \<not> req_ok then
            (Inr (Inl (error_to_lua ''Could not allocate memory for connect request'' [])),
             close_connection uv l1 l2 a UV_ENOMEM w)
          else
            let w = set_conn a (\<lambda>c. c\<lparr>c_handle := uv_tcp_connect uv rc (c_handle c)\<rparr>) w in
            if rc \<noteq> 0 then
              (Inr (Inl (error_to_lua ''tcp connect failed: %s'' [Err rc])), close_connection uv l1 l2 a rc w)
            else
              (Inr (Inr a), set_conn a (\<lambda>c. c\<lparr>lua_writer_tid := tid,
                 write_timer := start_timer uv trc timeout (write_timer c)\<rparr>)
                 (w\<lparr>connects := (connects w)(a := connects w a + 1)\<rparr>)))"

section \<open>Resolving names\<close>

text \<open>
  \<open>on_resolved\<close>: \<open>res\<close> tells whether there is an address and \<open>name_rc\<close> and \<open>ip\<close> are what \<open>uv_ip4_name\<close> makes
  of it.
\<close>

definition on_resolved :: "'h lua_code \<Rightarrow> tid \<Rightarrow> int \<Rightarrow> bool \<Rightarrow> int \<Rightarrow> string \<Rightarrow> 'h luaw \<Rightarrow> 'h luaw" where
  "on_resolved lua tid status res name_rc ip w =
     (let status = (if status = 0 \<and> res then name_rc else status);
          w = push [Resume_fn, Int_val tid] w;
          w = (if status \<noteq> 0 \<or> \<not> res
               then push [Bool_val False, Msg ''DNS resolution failed: %s'' [Err status]] w
               else push [Bool_val True, Str_val ip] w)
      in resume_global lua 3 w)"

definition dns_resolve :: "tid \<Rightarrow> bool \<Rightarrow> bool \<Rightarrow> int \<Rightarrow> 'h luaw \<Rightarrow> lua_val list \<times> 'h luaw" where
  "dns_resolve lua_tid resolver_ok tid_ok rc w =
     (if lua_tid = 0 then (error_to_lua ''Invalid thread id specified in dns_resolve'' [], w)
      else if \<not> resolver_ok then (error_to_lua ''Could not allocate memory for DNS resolver'' [], w)
      else if \<not> tid_ok then (error_to_lua ''Could not allocate memory thread id'' [], w)
      else if rc \<noteq> 0 then (error_to_lua ''DNS resolve failed: %s'' [Err rc], w)
      else ([Bool_val True], w\<lparr>resolvers := resolvers w @ [lua_tid]\<rparr>))"

section \<open>What the event loop does\<close>

text \<open>
  libuv reads what the peer sent into the buffer that \<open>on_alloc\<close> offers and reports the length, or
  \<open>UV_ENOBUFS\<close> when there is no room; errors and the end of the stream are negative codes.
\<close>

definition deliver ::
  "'h uv_api \<Rightarrow> 'h lua_code \<Rightarrow> 'h lua_code \<Rightarrow> addr \<Rightarrow> string \<Rightarrow> 'h luaw \<Rightarrow> 'h luaw" where
  "deliver uv l1 l2 a sent = with_conn a (\<lambda>c w.
     if uv_is_active uv (c_handle c) then
       case on_alloc c of
         (None, _) \<Rightarrow> on_read uv l1 l2 a UV_ENOBUFS w
       | (Some base, len) \<Rightarrow>
           let bytes = take len sent in
           on_read uv l1 l2 a (int (length bytes)) (set_conn a (\<lambda>c. c\<lparr>read_buffer :=
             take base (read_buffer c) @ bytes @ drop (base + length bytes) (read_buffer c)\<rparr>) w)
     else w)"

definition read_error ::
  "'h uv_api \<Rightarrow> 'h lua_code \<Rightarrow> 'h lua_code \<Rightarrow> addr \<Rightarrow> int \<Rightarrow> 'h luaw \<Rightarrow> 'h luaw" where
  "read_error uv l1 l2 a rc = with_conn a (\<lambda>c w.
     if uv_is_active uv (c_handle c) \<and> rc < 0 then on_read uv l1 l2 a rc w else w)"

definition fire_read_timer :: "'h uv_api \<Rightarrow> 'h lua_code \<Rightarrow> 'h lua_code \<Rightarrow> addr \<Rightarrow> 'h luaw \<Rightarrow> 'h luaw" where
  "fire_read_timer uv l1 l2 a = with_conn a (\<lambda>c w.
     if uv_is_active uv (read_timer c)
     then on_conn_timeout uv l1 l2 (read_timer_data c)
            (set_conn a (\<lambda>c. c\<lparr>read_timer := uv_timer_expire uv (read_timer c)\<rparr>) w)
     else w)"

definition fire_write_timer :: "'h uv_api \<Rightarrow> 'h lua_code \<Rightarrow> 'h lua_code \<Rightarrow> addr \<Rightarrow> 'h luaw \<Rightarrow> 'h luaw" where
  "fire_write_timer uv l1 l2 a = with_conn a (\<lambda>c w.
     if uv_is_active uv (write_timer c)
     then on_conn_timeout uv l1 l2 (write_timer_data c)
            (set_conn a (\<lambda>c. c\<lparr>write_timer := uv_timer_expire uv (write_timer c)\<rparr>) w)
     else w)"

definition complete_write ::
  "'h uv_api \<Rightarrow> 'h lua_code \<Rightarrow> 'h lua_code \<Rightarrow> addr \<Rightarrow> int \<Rightarrow> 'h luaw \<Rightarrow> 'h luaw" where
  "complete_write uv l1 l2 a status w =
     (if writes w a > 0
      then on_write uv l1 l2 a status (w\<lparr>writes := (writes w)(a := writes w a - 1)\<rparr>) else w)"

definition complete_connect ::
  "'h uv_api \<Rightarrow> 'h lua_code \<Rightarrow> 'h lua_code \<Rightarrow> 'h lua_code \<Rightarrow> addr \<Rightarrow> int \<Rightarrow> 'h luaw \<Rightarrow> 'h luaw" where
  "complete_connect uv l1 l2 l3 a status w =
     (if connects w a > 0
      then on_client_connect uv l1 l2 l3 a status (w\<lparr>connects := (connects w)(a := connects w a - 1)\<rparr>)
      else w)"

definition complete_resolve ::
  "'h lua_code \<Rightarrow> nat \<Rightarrow> int \<Rightarrow> bool \<Rightarrow> int \<Rightarrow> string \<Rightarrow> 'h luaw \<Rightarrow> 'h luaw" where
  "complete_resolve lua i status res name_rc ip w =
     (if i < length (resolvers w)
      then on_resolved lua (resolvers w ! i) status res name_rc ip
             (w\<lparr>resolvers := take i (resolvers w) @ drop (i + 1) (resolvers w)\<rparr>)
      else w)"

text \<open>
  The close callbacks. libuv cancels the requests of a socket and runs their callbacks before the close
  callback of the socket.
\<close>

definition close_read_timer_handle :: "'h uv_api \<Rightarrow> addr \<Rightarrow> 'h luaw \<Rightarrow> 'h luaw" where
  "close_read_timer_handle uv a = with_conn a (\<lambda>c w.
     if uv_is_closing uv (read_timer c)
     then free_read_timer a (w\<lparr>loop_handles := (loop_handles w)(Read_timer a := False)\<rparr>) else w)"

definition close_write_timer_handle :: "'h uv_api \<Rightarrow> addr \<Rightarrow> 'h luaw \<Rightarrow> 'h luaw" where
  "close_write_timer_handle uv a = with_conn a (\<lambda>c w.
     if uv_is_closing uv (write_timer c)
     then free_write_timer a (w\<lparr>loop_handles := (loop_handles w)(Write_timer a := False)\<rparr>) else w)"

definition close_tcp_handle :: "'h uv_api \<Rightarrow> addr \<Rightarrow> 'h luaw \<Rightarrow> 'h luaw" where
  "close_tcp_handle uv a = with_conn a (\<lambda>c w.
     if uv_is_closing uv (c_handle c) \<and> writes w a = 0 \<and> connects w a = 0
     then free_tcp_handle a (w\<lparr>loop_handles := (loop_handles w)(Tcp a := False)\<rparr>) else w)"

section \<open>Every operation keeps the invariant\<close>

lemma conn_of_ref:
  assumes "world_ok uv X p w" "conn_refs w r = Some a"
  obtains c where "conns w a = Some c" "c_lua_ref c = Some r" "conn_ok uv X p w a c"
  using assms unfolding world_ok_def conns_ok_def by blast

lemma lua_frame_own_conn:
  assumes "lua_frame w w'" "conns w a = Some c" "c_lua_ref c \<noteq> None" "conns w' a = Some d"
    "c_data (f d) = c_data d" "c_lua_ref (f d) = c_lua_ref d"
  shows "lua_frame w (set_conn a f w')"
proof -
  have "conn_frame c (f d)"
    using assms lua_frame_conn[OF assms(1,2)] by (fastforce simp: conn_frame_def)
  then show ?thesis using assms by (auto simp: lua_frame_def)
qed

lemma conn_ok_insert:
  "b \<noteq> a \<Longrightarrow> conn_ok uv (insert (Tcp a) X) p w b c = conn_ok uv X p w b c"
  by (simp add: conn_ok_def link_ok_def)

lemma two_holders: "c_lua_ref c = Some r \<Longrightarrow> c_data c = Some b \<Longrightarrow> 1 < holders p w a c"
  by (simp add: holders_def)

lemma delink_conn_ok:
  assumes "world_ok uv X p w" "conns w a = Some c" "c_lua_ref c = Some r"
  shows "world_ok uv (insert (Tcp a) X) p (delink_conn r a w)" "lua_frame w (delink_conn r a w)"
proof -
  let ?w = "delink_conn r a w" and ?c = "c\<lparr>c_lua_ref := None, c_ref_count := c_ref_count c - 1\<rparr>"
  note ok = world_okD(3)[OF assms(1)]
  have c: "conn_ok uv X p w a c" using conns_okD[OF ok assms(2)] .
  then have r: "conn_refs w r = Some a" using assms(3) by (simp add: conn_ok_def link_ok_def)
  have w: "?w = w\<lparr>conns := (conns w)(a \<mapsto> ?c), conn_refs := (conn_refs w)(r := None)\<rparr>"
    using assms(2) by (simp add: delink_conn_def)
  have [simp]: "holders p ?w b d = holders p w b d" for b d by (rule holders_cong) (simp_all add: w)
  have "conn_ok uv (insert (Tcp a) X) p ?w a ?c"
    using c assms(3) two_holders[of c r a p w a]
    by (simp add: conn_ok_def refs_ok_def data_ok_def buf_ok_def link_ok_def) (simp add: w)
  moreover have "conn_ok uv (insert (Tcp a) X) p ?w b d"
    if "conns w b = Some d" "b \<noteq> a" for b d
    using conns_okD[OF ok that(1)] that(2) r
    by (simp add: conn_ok_def refs_ok_def data_ok_def buf_ok_def link_ok_def) (auto simp: w)
  ultimately have "conns_ok uv (insert (Tcp a) X) p ?w"
    using ok conns_ok_ref[OF ok _ assms(2)] assms(2,3) unfolding conns_ok_def w by auto
  then show "world_ok uv (insert (Tcp a) X) p ?w" using assms(1) by (simp add: world_ok_def w)
  show "lua_frame w ?w" using assms(2,3) by (auto simp: w lua_frame_def conn_frame_def)
qed


lemma world_ok_unexempt:
  assumes "world_ok uv (insert (Tcp a) X) p w" "conns w a = Some c" "closing uv c"
    "lua_reader_tid c = 0" "lua_writer_tid c = 0" "c_lua_ref c = None"
  shows "world_ok uv X p w"
proof -
  note ok = world_okD[OF assms(1)]
  have "conn_ok uv X p w b d" if "conns w b = Some d" for b d
  proof (cases "b = a")
    case True
    then show ?thesis using that assms(2-) conns_okD[OF ok(3) assms(2)]
      by (simp add: conn_ok_def link_ok_def)
  next
    case False
    then show ?thesis using that conns_okD[OF ok(3) that] by (simp add: conn_ok_insert)
  qed
  then have "conns_ok uv X p w" using ok(3) by (simp add: conns_ok_def)
  then show ?thesis using ok by (simp add: world_ok_def)
qed

lemma close_handles_simps [simp]:
  "c_lua_ref (close_handles uv c) = c_lua_ref c" "c_data (close_handles uv c) = c_data c"
  "lua_reader_tid (close_handles uv c) = lua_reader_tid c"
  "lua_writer_tid (close_handles uv c) = lua_writer_tid c"
  by (simp_all add: close_handles_def)

lemma close_handles_closing: "uv_contract uv \<Longrightarrow> closing uv (close_handles uv c)"
  by (simp add: closing_def close_handles_def close_if_active_def uv_contractD)

lemma close_handles_ok:
  assumes "world_ok uv (insert (Tcp a) X) p w" "conns w a = Some c" "c_lua_ref c = None"
  shows "world_ok uv (insert (Tcp a) X) p (set_conn a (close_handles uv) w)"
  using conns_okD[OF world_okD(3)[OF assms(1)] assms(2)] assms(3)
  by (intro world_ok_set_conn[OF assms(1,2)]) (simp_all add: conn_parts close_handles_def)

lemma tid_0:
  "lua_reader_tid c = 0 \<Longrightarrow> c\<lparr>lua_reader_tid := 0\<rparr> = c"
  "lua_writer_tid c = 0 \<Longrightarrow> c\<lparr>lua_writer_tid := 0\<rparr> = c"
  by (cases c; simp)+

context lua_runtime
begin

lemma unblock_reader_ok:
  assumes "world_ok uv (insert (Tcp a) X) p w" "conns w a = Some c" "c_lua_ref c = None"
  shows "world_ok uv (insert (Tcp a) X) p (unblock_reader lua a status w)"
    "lua_frame (set_conn a (\<lambda>c. c\<lparr>lua_reader_tid := 0\<rparr>) w) (unblock_reader lua a status w)"
proof -
  let ?f = "\<lambda>c. c\<lparr>lua_reader_tid := 0\<rparr>"
  let ?w = "push ([Resume_fn, Int_val (lua_reader_tid c)] @ reader_result status) w"
  have ok: "world_ok uv (insert (Tcp a) X) p (set_conn a ?f ?w)"
    using conns_okD[OF world_okD(3)[OF assms(1)] assms(2)] assms
    by (intro world_ok_set_conn[where c = c]) (simp_all add: conn_parts push_def)
  have "lua_frame (set_conn a ?f w) (set_conn a ?f ?w)" using assms(2) by (auto simp: lua_frame_def)
  note lua_frame_trans[OF this resume_global_frame[OF ok, of 3]] resume_global_ok[OF ok, of 3]
  then show "world_ok uv (insert (Tcp a) X) p (unblock_reader lua a status w)"
    "lua_frame (set_conn a ?f w) (unblock_reader lua a status w)"
    using assms(1,2) tid_0[of c] by (auto simp: unblock_reader_def with_conn_def fun_upd_idem)
qed

lemma unblock_writer_ok:
  assumes "world_ok uv (insert (Tcp a) X) p w" "conns w a = Some c" "c_lua_ref c = None"
  shows "world_ok uv (insert (Tcp a) X) p (unblock_writer lua a status w)"
    "lua_frame (set_conn a (\<lambda>c. c\<lparr>lua_writer_tid := 0\<rparr>) w) (unblock_writer lua a status w)"
proof -
  let ?f = "\<lambda>c. c\<lparr>lua_writer_tid := 0\<rparr>"
  let ?w = "push ([Resume_fn, Int_val (lua_writer_tid c)] @ writer_result status) w"
  have ok: "world_ok uv (insert (Tcp a) X) p (set_conn a ?f ?w)"
    using conns_okD[OF world_okD(3)[OF assms(1)] assms(2)] assms
    by (intro world_ok_set_conn[where c = c]) (simp_all add: conn_parts push_def)
  have "lua_frame (set_conn a ?f w) (set_conn a ?f ?w)" using assms(2) by (auto simp: lua_frame_def)
  note lua_frame_trans[OF this resume_global_frame[OF ok, of 3]] resume_global_ok[OF ok, of 3]
  then show "world_ok uv (insert (Tcp a) X) p (unblock_writer lua a status w)"
    "lua_frame (set_conn a ?f w) (unblock_writer lua a status w)"
    using assms(1,2) tid_0[of c] by (auto simp: unblock_writer_def with_conn_def fun_upd_idem)
qed

end

lemma close_connection_ok:
  assumes l1: "lua_runtime uv l1" and l2: "lua_runtime uv l2"
    and w: "world_ok uv X p w" "conns w a = Some c"
  shows "world_ok uv X p (close_connection uv l1 l2 a status w)
    \<and> lua_frame w (close_connection uv l1 l2 a status w)"
proof (cases "c_lua_ref c")
  case None
  then show ?thesis using w by (simp add: close_connection_def with_conn_def)
next
  case (Some r)
  let ?X = "insert (Tcp a) X"
  let ?w1 = "delink_conn r a w" and ?c1 = "c\<lparr>c_lua_ref := None, c_ref_count := c_ref_count c - 1\<rparr>"
  let ?w2 = "set_conn a (close_handles uv) ?w1" and ?c2 = "close_handles uv ?c1"
  let ?w3 = "unblock_reader l1 a status ?w2" and ?c3 = "?c2\<lparr>lua_reader_tid := 0\<rparr>"
  let ?w4 = "unblock_writer l2 a status ?w3" and ?c4 = "?c3\<lparr>lua_writer_tid := 0\<rparr>"
  have eq: "close_connection uv l1 l2 a status w = ?w4"
    using w(2) Some by (simp add: close_connection_def with_conn_def)
  note 1 = delink_conn_ok[OF w Some]
  have c1: "conns ?w1 a = Some ?c1" using w(2) by (simp add: delink_conn_def)
  have ok2: "world_ok uv ?X p ?w2" using close_handles_ok[OF 1(1) c1] by simp
  have c2: "conns ?w2 a = Some ?c2" using c1 by simp
  have fr2: "lua_frame w ?w2" using lua_frame_own_conn[OF 1(2) w(2) _ c1] Some by simp
  note 3 = lua_runtime.unblock_reader_ok[OF l1 ok2 c2, of status]
  have "lua_frame w (set_conn a (\<lambda>c. c\<lparr>lua_reader_tid := 0\<rparr>) ?w2)"
    using lua_frame_own_conn[OF fr2 w(2) _ c2] Some by simp
  then have fr3: "lua_frame w ?w3" using 3(2) by (auto intro: lua_frame_trans)
  have c3: "conns ?w3 a = Some ?c3"
    using 3(2) c2 by (auto elim!: lua_frame_conn[where a = a] simp: conn_frame_def)
  note 4 = lua_runtime.unblock_writer_ok[OF l2 3(1) c3, of status]
  have "lua_frame w (set_conn a (\<lambda>c. c\<lparr>lua_writer_tid := 0\<rparr>) ?w3)"
    using lua_frame_own_conn[OF fr3 w(2) _ c3] Some by simp
  then have fr4: "lua_frame w ?w4" using 4(2) by (auto intro: lua_frame_trans)
  have c4: "conns ?w4 a = Some ?c4"
    using 4(2) c3 by (auto elim!: lua_frame_conn[where a = a] simp: conn_frame_def)
  have "closing uv ?c4" using close_handles_closing[OF world_okD(4)[OF w(1)], of ?c1] by (simp add: closing_def)
  then have "world_ok uv X p ?w4" using world_ok_unexempt[OF 4(1) c4] by simp
  then show ?thesis unfolding eq using fr4 by simp
qed


text \<open>Changes that touch only thread ids, buffers and the state of timers.\<close>

definition keeps :: "'h uv_api \<Rightarrow> 'h connection \<Rightarrow> 'h connection \<Rightarrow> bool" where
  "keeps uv c c' \<longleftrightarrow>
     c_lua_ref c' = c_lua_ref c \<and> c_data c' = c_data c \<and> read_timer_data c' = read_timer_data c \<and>
     write_timer_data c' = write_timer_data c \<and> write_req_data c' = write_req_data c \<and>
     c_ref_count c' = c_ref_count c \<and> read_len c' = read_len c \<and>
     length (read_buffer c') = length (read_buffer c) \<and>
     uv_is_closing uv (c_handle c') = uv_is_closing uv (c_handle c) \<and>
     uv_is_closing uv (read_timer c') = uv_is_closing uv (read_timer c) \<and>
     uv_is_closing uv (write_timer c') = uv_is_closing uv (write_timer c) \<and>
     (lua_reader_tid c' \<in> {0, lua_reader_tid c} \<or> c_lua_ref c \<noteq> None) \<and>
     (lua_writer_tid c' \<in> {0, lua_writer_tid c} \<or> c_lua_ref c \<noteq> None)"

lemma conn_ok_keeps:
  assumes "conn_ok uv X p w a c" "keeps uv c c'"
  shows "conn_ok uv X p w a c'"
proof -
  have "holders p w a c' = holders p w a c" using assms(2) by (simp add: keeps_def holders_def)
  then show ?thesis using assms
    by (auto simp: conn_ok_def refs_ok_def data_ok_def buf_ok_def link_ok_def keeps_def open_conn_def closing_def)
qed

lemma world_ok_keeps:
  assumes "world_ok uv X p w" "conns w a = Some c" "\<And>d. d = c \<Longrightarrow> keeps uv d (f d)"
  shows "world_ok uv X p (set_conn a f w)"
  using assms(3)[OF refl] conn_ok_keeps[OF conns_okD[OF world_okD(3)[OF assms(1)] assms(2)] assms(3)[OF refl]]
  by (intro world_ok_set_conn[OF assms(1,2)]) (simp_all add: keeps_def)

lemma lua_frame_keeps:
  assumes "conns w a = Some c" "\<And>d. d = c \<Longrightarrow> keeps uv d (f d)" "c_lua_ref c \<noteq> None"
  shows "lua_frame w (set_conn a f w)"
  using assms(2)[OF refl] assms(3) by (intro lua_frame_set_conn[OF assms(1)]) (auto simp: conn_frame_def keeps_def)

lemma timer_closing [simp]:
  "uv_contract uv \<Longrightarrow> uv_is_closing uv (start_timer uv rc n h) = uv_is_closing uv h"
  "uv_contract uv \<Longrightarrow> uv_is_closing uv (stop_timer uv h) = uv_is_closing uv h"
  by (simp_all add: start_timer_def stop_timer_def uv_contractD)

lemma close_connection_lua_ok:
  assumes "lua_runtime uv l1" "lua_runtime uv l2" "world_ok uv X p w"
  shows "world_ok uv X p (snd (close_connection_lua uv l1 l2 r w))
    \<and> lua_frame w (snd (close_connection_lua uv l1 l2 r w))"
proof (cases "conn_refs w r")
  case None
  then show ?thesis using assms by (simp add: close_connection_lua_def)
next
  case (Some a)
  then obtain c where c: "conns w a = Some c" "c_lua_ref c = Some r" using conn_of_ref[OF assms(3)] by blast
  let ?f = "\<lambda>c. c\<lparr>lua_reader_tid := 0, lua_writer_tid := 0\<rparr>"
  have k: "keeps uv d (?f d)" if "d = c" for d by (simp add: keeps_def)
  have "conns (set_conn a ?f w) a = Some (?f c)" using c(1) by simp
  from close_connection_ok[OF assms(1,2) world_ok_keeps[OF assms(3) c(1) k] this, of UV_EOF]
    lua_frame_keeps[OF c(1) k] c(2) show ?thesis
    using Some by (auto simp: close_connection_lua_def intro: lua_frame_trans)
qed

lemma connection_gc_ok:
  assumes "lua_runtime uv l1" "lua_runtime uv l2" "world_ok uv X p w"
  shows "world_ok uv X p (snd (connection_gc uv l1 l2 r w))
    \<and> lua_frame w (snd (connection_gc uv l1 l2 r w))"
proof (cases "conn_refs w r")
  case None
  then show ?thesis using assms by (simp add: connection_gc_def)
next
  case (Some a)
  then obtain c where c: "conns w a = Some c" "c_lua_ref c = Some r" using conn_of_ref[OF assms(3)] by blast
  let ?f = "\<lambda>c. c\<lparr>lua_reader_tid := 0, lua_writer_tid := 0\<rparr>"
  have k: "keeps uv d (?f d)" if "d = c" for d by (simp add: keeps_def)
  have "conns (set_conn a ?f w) a = Some (?f c)" using c(1) by simp
  from close_connection_ok[OF assms(1,2) world_ok_keeps[OF assms(3) c(1) k] this, of UV_ECANCELED]
    lua_frame_keeps[OF c(1) k] c(2) show ?thesis
    using Some by (auto simp: connection_gc_def intro: lua_frame_trans)
qed

text \<open>A change of a linked connection followed by closing it.\<close>

lemma keeps_close_ok:
  assumes "lua_runtime uv l1" "lua_runtime uv l2" "world_ok uv X p w" "conns w a = Some c"
    "c_lua_ref c \<noteq> None" "\<And>d. d = c \<Longrightarrow> keeps uv d (f d)"
  shows "world_ok uv X p (close_connection uv l1 l2 a status (set_conn a f w))
    \<and> lua_frame w (close_connection uv l1 l2 a status (set_conn a f w))"
proof -
  have "conns (set_conn a f w) a = Some (f c)" using assms(4) by simp
  from close_connection_ok[OF assms(1,2) world_ok_keeps[OF assms(3,4,6)] this, of status]
    lua_frame_keeps[OF assms(4,6,5)]
  show ?thesis by (auto intro: lua_frame_trans)
qed

lemma start_reading_ok:
  assumes "lua_runtime uv l1" "lua_runtime uv l2" "world_ok uv X p w"
  shows "world_ok uv X p (snd (start_reading uv l1 l2 rc r w))
    \<and> lua_frame w (snd (start_reading uv l1 l2 rc r w))"
proof (cases "conn_refs w r")
  case None
  then show ?thesis using assms by (simp add: start_reading_def)
next
  case (Some a)
  then obtain c where c: "conns w a = Some c" "c_lua_ref c = Some r" using conn_of_ref[OF assms(3)] by blast
  let ?f = "\<lambda>c. c\<lparr>lua_reader_tid := 0, c_handle := uv_read_start uv rc (c_handle c)\<rparr>"
  have k: "keeps uv d (?f d)" if "d = c" for d using uv_contractD[OF world_okD(4)[OF assms(3)]] by (simp add: keeps_def)
  show ?thesis
    using keeps_close_ok[OF assms c(1) _ k, of rc] world_ok_keeps[OF assms(3) c(1) k]
      lua_frame_keeps[OF c(1) k] c(2) Some
    by (cases "rc = 0") (simp_all add: start_reading_def Let_def del: set_conn_Some)
qed

lemma read_check_ok:
  assumes "lua_runtime uv l1" "lua_runtime uv l2" "world_ok uv X p w"
  shows "world_ok uv X p (snd (read_check uv l1 l2 rc r tid timeout w))
    \<and> lua_frame w (snd (read_check uv l1 l2 rc r tid timeout w))"
proof (cases "conn_refs w r")
  case None
  then show ?thesis using assms by (simp add: read_check_def)
next
  case (Some a)
  then obtain c where c: "conns w a = Some c" "c_lua_ref c = Some r" using conn_of_ref[OF assms(3)] by blast
  let ?f = "\<lambda>c. c\<lparr>lua_reader_tid := tid, read_timer := start_timer uv rc timeout (read_timer c)\<rparr>"
  have k: "keeps uv d (?f d)" if "d = c" for d using world_okD(4)[OF assms(3)] c(2) that by (simp add: keeps_def)
  show ?thesis
    using close_connection_ok[OF assms c(1)] world_ok_keeps[OF assms(3) c(1) k]
      lua_frame_keeps[OF c(1) k] c Some assms(3)
    by (simp add: read_check_def Let_def del: set_conn_Some)
qed


lemma write_buffer_ok:
  assumes "lua_runtime uv l1" "lua_runtime uv l2" "world_ok uv X p w"
  shows "world_ok uv X p (snd (write_buffer uv l1 l2 rc trc r tid buff timeout w))
    \<and> lua_frame w (snd (write_buffer uv l1 l2 rc trc r tid buff timeout w))"
proof (cases "conn_refs w r")
  case None
  then show ?thesis using assms by (simp add: write_buffer_def)
next
  case (Some a)
  then obtain c where c: "conns w a = Some c" "c_lua_ref c = Some r" "conn_ok uv X p w a c"
    using conn_of_ref[OF assms(3)] by blast
  note uv = world_okD(4)[OF assms(3)]
  let ?f = "\<lambda>c. c\<lparr>c_handle := uv_write uv rc (c_handle c)\<rparr>"
  have k: "keeps uv d (?f d)" if "d = c" for d using uv_contractD[OF uv] by (simp add: keeps_def)
  consider (err) "tid = 0 \<or> buff = [] \<or> rc \<noteq> 0" | (run) "tid \<noteq> 0" "buff \<noteq> []" "rc = 0" by blast
  then show ?thesis
  proof cases
    case err
    then show ?thesis
      using keeps_close_ok[OF assms c(1) _ k, of rc] c(2) Some assms(3)
      by (auto simp: write_buffer_def Let_def simp del: set_conn_Some)
  next
    case run
    let ?c = "(?f c)\<lparr>write_req_data := Some a, c_ref_count := c_ref_count c + 1,
      lua_writer_tid := tid, write_timer := start_timer uv trc timeout (write_timer c)\<rparr>"
    let ?w = "snd (write_buffer uv l1 l2 rc trc r tid buff timeout w)"
    have w: "?w = w\<lparr>conns := (conns w)(a \<mapsto> ?c), writes := (writes w)(a := writes w a + 1),
        connects := (connects w)(a := connects w a),
        overlapped := (overlapped w)(a := overlapped w a \<or> writes w a > 0)\<rparr>"
      using run Some c(1) by (simp add: write_buffer_def Let_def)
    have h: "holders p ?w a ?c = holders p w a c + 1" by (simp add: w holders_def)
    have "conn_ok uv X p ?w a ?c"
      using c(2,3) uv_contractD[OF uv] uv unfolding conn_parts h
      by (simp add: w open_conn_def)
    with world_ok_local[OF assms(3) c(1) _ w] c(2) have "world_ok uv X p ?w" by simp
    moreover have "lua_frame w ?w" using c(1,2) by (auto simp: w lua_frame_def conn_frame_def)
    ultimately show ?thesis by simp
  qed
qed

lemma new_connection_ok:
  assumes "world_ok uv X p w"
  shows "world_ok uv X p (snd (new_connection uv b1 b2 w)) \<and> lua_frame w (snd (new_connection uv b1 b2 w))"
proof (cases "b1 \<and> b2")
  case False
  then show ?thesis using assms by (auto simp: new_connection_def)
next
  case True
  let ?w = "snd (new_connection uv b1 b2 w)" and ?a = "fresh w"
  let ?c = "\<lparr> c_handle = uv_init uv, c_data = Some ?a, lua_reader_tid = 0, read_len = 0,
    read_timer = uv_init uv, read_timer_data = Some ?a, lua_writer_tid = 0,
    write_timer = uv_init uv, write_timer_data = Some ?a, write_req_data = None,
    c_ref_count = 4, c_lua_ref = Some ?a, read_buffer = replicate CONN_BUFFER_SIZE NUL \<rparr>"
  have w: "?w = w\<lparr>conns := (conns w)(?a \<mapsto> ?c), conn_refs := (conn_refs w)(?a \<mapsto> ?a),
      loop_handles := (loop_handles w)(Tcp ?a := True, Read_timer ?a := True, Write_timer ?a := True),
      fresh := ?a + 1\<rparr>"
    using True by (simp add: new_connection_def Let_def)
  note ok = world_okD[OF assms]
  have new: "conns w ?a = None" "conn_refs w ?a = None" "writes w ?a = 0" "connects w ?a = 0" "p ?a = 0"
    using ok(3) by (metis conns_ok_def less_irrefl not_None_eq not_gr_zero)+
  have "holders p ?w ?a ?c = 4" by (simp add: holders_def w new)
  then have "conn_ok uv X p ?w ?a ?c"
    using uv_contractD[OF ok(4)] unfolding conn_parts by (simp add: w new open_conn_def)
  moreover have "conn_ok uv X p ?w b d \<and> b < fresh ?w" if "conns w b = Some d" "b \<noteq> ?a" for b d
  proof -
    have "holders p ?w b d = holders p w b d" by (rule holders_cong) (simp_all add: w)
    then show ?thesis using conns_okD[OF ok(3) that(1)] that(2) new(2) conns_ok_fresh[OF ok(3) that(1)]
      unfolding conn_parts by (auto simp: w)
  qed
  moreover have "\<exists>d. conns ?w b = Some d \<and> c_lua_ref d = Some q" "q < fresh ?w"
    if "conn_refs ?w q = Some b" for q b
    using that ok(3) new unfolding conns_ok_def w by (fastforce split: if_splits)+
  moreover have "conns ?w b \<noteq> None" if "loop_handles ?w (Tcp b) \<or> loop_handles ?w (Read_timer b)
      \<or> loop_handles ?w (Write_timer b) \<or> writes ?w b > 0 \<or> connects ?w b > 0 \<or> p b > 0" for b
    using that ok(3) unfolding conns_ok_def by (cases "b = ?a") (auto simp: w)
  ultimately have "conns_ok uv X p ?w" unfolding conns_ok_def by (simp add: w)
  moreover have "timer_ok uv X ?w b t = timer_ok uv X w b t" for b t
    by (simp add: timer_ok_def w)
  then have "timers_ok uv X ?w" using ok(2) by (simp add: timers_ok_def w less_SucI)
  ultimately show ?thesis using ok(1,4) new by (auto simp: world_ok_def w lua_frame_def)
qed

lemma client_connect_ok:
  assumes "lua_runtime uv l1" "lua_runtime uv l2" "world_ok uv X p w"
  shows "world_ok uv X p (snd (client_connect uv l1 l2 ip4 port tid timeout b0 b1 b2 b3 rc trc w))
    \<and> lua_frame w (snd (client_connect uv l1 l2 ip4 port tid timeout b0 b1 b2 b3 rc trc w))"
proof (cases "port = 0 \<or> tid = 0 \<or> \<not> b0 \<or> \<not> b1 \<or> \<not> b2")
  case True
  then show ?thesis using assms(3) by (auto simp: client_connect_def new_connection_def)
next
  case False
  let ?a = "fresh w"
  obtain u c where new: "new_connection uv b1 b2 w = (Inr ?a, u)" "conns u ?a = Some c" "c_lua_ref c = Some ?a"
    using False by (simp add: new_connection_def Let_def)
  have ok: "world_ok uv X p u" "lua_frame w u" using new_connection_ok[OF assms(3), of b1 b2] new(1) by auto
  note uv = world_okD(4)[OF assms(3)]
  let ?f = "\<lambda>c. c\<lparr>c_handle := uv_tcp_connect uv rc (c_handle c)\<rparr>"
  have k: "keeps uv d (?f d)" if "d = c" for d using uv_contractD[OF uv] by (simp add: keeps_def)
  consider (mem) "\<not> b3" | (fail) "b3" "rc \<noteq> 0" | (run) "b3" "rc = 0" by blast
  then show ?thesis
  proof cases
    case mem
    then show ?thesis using False new close_connection_ok[OF assms(1,2) ok(1) new(2), of UV_ENOMEM] ok(2)
      by (auto simp: client_connect_def intro: lua_frame_trans)
  next
    case fail
    then show ?thesis using False new keeps_close_ok[OF assms(1,2) ok(1) new(2) _ k, of rc] ok(2)
      by (auto simp: client_connect_def Let_def intro: lua_frame_trans simp del: set_conn_Some)
  next
    case run
    let ?c = "(?f c)\<lparr>lua_writer_tid := tid, write_timer := start_timer uv trc timeout (write_timer c)\<rparr>"
    let ?v = "snd (client_connect uv l1 l2 ip4 port tid timeout b0 b1 b2 b3 rc trc w)"
    have v: "?v = u\<lparr>conns := (conns u)(?a \<mapsto> ?c), writes := (writes u)(?a := writes u ?a),
        connects := (connects u)(?a := connects u ?a + 1),
        overlapped := (overlapped u)(?a := overlapped u ?a)\<rparr>"
      using run False new by (simp add: client_connect_def Let_def)
    have h: "holders p ?v ?a ?c = holders p u ?a c" by (simp add: v holders_def)
    have "conn_ok uv X p ?v ?a ?c"
      using conns_okD[OF world_okD(3)[OF ok(1)] new(2)] new(3) uv_contractD[OF uv] uv unfolding conn_parts h
      by (simp add: v open_conn_def)
    with world_ok_local[OF ok(1) new(2) _ v] have "world_ok uv X p ?v" by simp
    moreover have "lua_frame u ?v" using new by (auto simp: v lua_frame_def conn_frame_def)
    ultimately show ?thesis using ok(2) by (auto intro: lua_frame_trans)
  qed
qed

lemma dns_resolve_ok:
  assumes "world_ok uv X p w"
  shows "world_ok uv X p (snd (dns_resolve tid b1 b2 rc w)) \<and> lua_frame w (snd (dns_resolve tid b1 b2 rc w))"
  using assms by (auto simp: dns_resolve_def lua_frame_def)

section \<open>The event loop keeps the invariant\<close>

text \<open>Giving back a reference that is held on the C stack.\<close>

lemma GC_REF_conn_ok:
  assumes "world_ok uv X (p(a := Suc (p a))) w" "conns w a = Some c"
  shows "world_ok uv X p (GC_REF_conn a w)"
proof -
  let ?p = "p(a := Suc (p a))"
  note ok = world_okD[OF assms(1)]
  note c = conns_okD[OF ok(3) assms(2)]
  have h: "holders ?p w a d = holders p w a d + 1" for d by (simp add: holders_def)
  have o: "conn_ok uv X ?p w b d = conn_ok uv X p w b d" if "b \<noteq> a" for b d
    using that by (intro conn_ok_cong) simp_all
  show ?thesis
  proof (cases "c_ref_count c = 1")
    case True
    let ?w = "w\<lparr>conns := (conns w)(a := None)\<rparr>"
    have "holders p w a c \<le> 0" using c True h by (simp add: conn_ok_def refs_ok_def)
    then have z: "c_lua_ref c = None" "c_data c = None" "read_timer_data c = None"
        "write_timer_data c = None" "writes w a = 0" "p a = 0"
      using holders_pos(2)[of c _ p w a] holders_pos(3)[of c _ p w a] holders_pos(4)[of c _ p w a]
        holders_pos(5)[of c _ p w a] holders_pos(6)[of w a p c] holders_pos(7)[of p a w c]
      by (meson leD not_None_eq not_gr_zero)+
    then have l: "\<not> loop_handles w (Tcp a)" "\<not> loop_handles w (Read_timer a)"
        "\<not> loop_handles w (Write_timer a)" "connects w a = 0"
      using c by (auto simp: conn_ok_def data_ok_def buf_ok_def split: if_splits)
    have "conn_refs w r \<noteq> Some a" for r using conns_ok_ref[OF ok(3) _ assms(2)] z(1) by auto
    moreover have "conn_ok uv X p w b d" if "conns w b = Some d" "b \<noteq> a" for b d
      using conns_okD[OF ok(3) that(1)] o[OF that(2)] by simp
    ultimately have "conns_ok uv X p ?w"
      using ok(3) z l unfolding conns_ok_def by (auto split: if_splits)
    then show ?thesis using ok assms(2) True by (simp add: GC_REF_conn_def with_conn_def world_ok_def)
  next
    case False
    let ?c = "c\<lparr>c_ref_count := c_ref_count c - 1\<rparr>"
    have pos: "c_ref_count c > 1" using c False by (simp add: conn_ok_def refs_ok_def)
    then have w': "GC_REF_conn a w = w\<lparr>conns := (conns w)(a \<mapsto> ?c), writes := (writes w)(a := writes w a),
        connects := (connects w)(a := connects w a), overlapped := (overlapped w)(a := overlapped w a)\<rparr>"
      using assms(2) by (simp add: GC_REF_conn_def with_conn_def Let_def)
    have "conn_ok uv X p w a ?c"
      using c pos h[of c] by (simp add: conn_parts open_conn_def closing_def)
    moreover have "conn_ok uv X p (GC_REF_conn a w) a ?c = conn_ok uv X p w a ?c"
      unfolding w' by (rule conn_ok_cong) simp_all
    ultimately show ?thesis by (intro world_ok_local[OF assms _ w']) simp_all
  qed
qed

text \<open>The close callbacks of the handles: the reference of the handle passes to the callback.\<close>

lemma unlinked: "conn_ok uv X p w a c \<Longrightarrow> uv_is_closing uv (c_handle c) \<or> uv_is_closing uv (read_timer c)
    \<or> uv_is_closing uv (write_timer c) \<Longrightarrow> c_lua_ref c = None"
  by (auto simp: conn_ok_def link_ok_def open_conn_def)

lemma drop_handle_ok:
  assumes "world_ok uv X p w" "conns w a = Some c" "c_lua_ref c = None" "c_lua_ref c' = None"
    and h: "holders p w a c' = holders p w a c - 1" "h \<in> {Tcp a, Read_timer a, Write_timer a}"
    and c': "keeps uv c (c'\<lparr>c_data := c_data c, read_timer_data := read_timer_data c,
      write_timer_data := write_timer_data c\<rparr>)"
    and d: "data_ok (w\<lparr>loop_handles := (loop_handles w)(h := False)\<rparr>) a c'"
    and k: "h = Tcp a \<Longrightarrow> connects w a = 0"
    and p': "p' = p(a := Suc (p a))"
  shows "world_ok uv X p' (w\<lparr>loop_handles := (loop_handles w)(h := False), conns := (conns w)(a \<mapsto> c')\<rparr>)"
    (is "world_ok uv X p' ?w")
proof -
  note ok = world_okD[OF assms(1)]
  note c = conns_okD[OF ok(3) assms(2)]
  have h': "holders p' ?w a c' = holders p w a c" using h(1) by (simp add: holders_def p')
  have "conn_ok uv X p' ?w a c'"
    unfolding conn_ok_def
  proof (intro conjI)
    show "refs_ok p' ?w a c'" using c c' h' by (simp add: conn_ok_def refs_ok_def keeps_def)
    show "data_ok ?w a c'" using d by (simp add: data_ok_def)
    show "link_ok uv X ?w a c'" using c c' assms(3,4)
      by (auto simp: conn_ok_def link_ok_def keeps_def closing_def)
    show "buf_ok ?w a c'" using c c' k h(2) by (auto simp: conn_ok_def buf_ok_def keeps_def)
  qed
  moreover have o: "conn_ok uv X p' ?w b d = conn_ok uv X p w b d" if "b \<noteq> a" for b d
    using that h(2) by (intro conn_ok_cong) (auto simp: p')
  have "conn_ok uv X p' ?w b d" if "conns w b = Some d" "b \<noteq> a" for b d
    using conns_okD[OF ok(3) that(1)] o[OF that(2)] by simp
  moreover have "conn_refs w r \<noteq> Some a" for r using conns_ok_ref[OF ok(3) _ assms(2)] assms(3) by auto
  ultimately have "conns_ok uv X p' ?w"
    using ok(3) conns_ok_fresh[OF ok(3) assms(2)] unfolding conns_ok_def p' by (auto split: if_splits)
  moreover have "timer_ok uv X ?w b t = timer_ok uv X w b t" for b t
    using h(2) by (auto simp: timer_ok_def)
  then have "timers_ok uv X ?w" using ok(2) h(2) by (auto simp: timers_ok_def split: if_splits)
  ultimately show ?thesis using ok(1,4) by (simp add: world_ok_def)
qed

lemma close_tcp_handle_ok:
  assumes "world_ok uv X p w" "loop_handles w (Tcp a)"
  shows "world_ok uv X p (close_tcp_handle uv a w)"
proof -
  obtain c where c: "conns w a = Some c" using world_okD(3)[OF assms(1)] assms(2) by (auto simp: conns_ok_def)
  note cok = conns_okD[OF world_okD(3)[OF assms(1)] c]
  have d: "c_data c = Some a" using cok assms(2) by (simp add: conn_ok_def data_ok_def)
  show ?thesis
  proof (cases "uv_is_closing uv (c_handle c) \<and> writes w a = 0 \<and> connects w a = 0")
    case False
    then show ?thesis using assms(1) c by (auto simp: close_tcp_handle_def with_conn_def)
  next
    case True
    let ?c = "c\<lparr>c_data := None\<rparr>"
    let ?w = "w\<lparr>loop_handles := (loop_handles w)(Tcp a := False), conns := (conns w)(a \<mapsto> ?c)\<rparr>"
    have l: "c_lua_ref c = None" using unlinked[OF cok] True by blast
    have "world_ok uv X (p(a := Suc (p a))) ?w"
      using cok True d l
      by (intro drop_handle_ok[OF assms(1) c l]) (auto simp: keeps_def conn_ok_def data_ok_def)
    from GC_REF_conn_ok[OF this, of ?c] show ?thesis
      using c d True by (simp add: close_tcp_handle_def free_tcp_handle_def with_conn_def)
  qed
qed

lemma close_read_timer_handle_ok:
  assumes "world_ok uv X p w" "loop_handles w (Read_timer a)"
  shows "world_ok uv X p (close_read_timer_handle uv a w)"
proof -
  obtain c where c: "conns w a = Some c" using world_okD(3)[OF assms(1)] assms(2) by (auto simp: conns_ok_def)
  note cok = conns_okD[OF world_okD(3)[OF assms(1)] c]
  have d: "read_timer_data c = Some a" using cok assms(2) by (simp add: conn_ok_def data_ok_def)
  show ?thesis
  proof (cases "uv_is_closing uv (read_timer c)")
    case False
    then show ?thesis using assms(1) c by (auto simp: close_read_timer_handle_def with_conn_def)
  next
    case True
    let ?c = "c\<lparr>read_timer_data := None\<rparr>"
    let ?w = "w\<lparr>loop_handles := (loop_handles w)(Read_timer a := False), conns := (conns w)(a \<mapsto> ?c)\<rparr>"
    have l: "c_lua_ref c = None" using unlinked[OF cok] True by blast
    have "world_ok uv X (p(a := Suc (p a))) ?w"
      using cok True d l
      by (intro drop_handle_ok[OF assms(1) c l]) (auto simp: keeps_def conn_ok_def data_ok_def)
    from GC_REF_conn_ok[OF this, of ?c] show ?thesis
      using c d True by (simp add: close_read_timer_handle_def free_read_timer_def with_conn_def)
  qed
qed

lemma close_write_timer_handle_ok:
  assumes "world_ok uv X p w" "loop_handles w (Write_timer a)"
  shows "world_ok uv X p (close_write_timer_handle uv a w)"
proof -
  obtain c where c: "conns w a = Some c" using world_okD(3)[OF assms(1)] assms(2) by (auto simp: conns_ok_def)
  note cok = conns_okD[OF world_okD(3)[OF assms(1)] c]
  have d: "write_timer_data c = Some a" using cok assms(2) by (simp add: conn_ok_def data_ok_def)
  show ?thesis
  proof (cases "uv_is_closing uv (write_timer c)")
    case False
    then show ?thesis using assms(1) c by (auto simp: close_write_timer_handle_def with_conn_def)
  next
    case True
    let ?c = "c\<lparr>write_timer_data := None\<rparr>"
    let ?w = "w\<lparr>loop_handles := (loop_handles w)(Write_timer a := False), conns := (conns w)(a \<mapsto> ?c)\<rparr>"
    have l: "c_lua_ref c = None" using unlinked[OF cok] True by blast
    have "world_ok uv X (p(a := Suc (p a))) ?w"
      using cok True d l
      by (intro drop_handle_ok[OF assms(1) c l]) (auto simp: keeps_def conn_ok_def data_ok_def)
    from GC_REF_conn_ok[OF this, of ?c] show ?thesis
      using c d True by (simp add: close_write_timer_handle_def free_write_timer_def with_conn_def)
  qed
qed

lemma fire_read_timer_ok:
  assumes "lua_runtime uv l1" "lua_runtime uv l2" "world_ok uv X p w" "conns w a = Some c"
  shows "world_ok uv X p (fire_read_timer uv l1 l2 a w)"
proof -
  let ?f = "\<lambda>c. c\<lparr>read_timer := uv_timer_expire uv (read_timer c)\<rparr>"
  have "keeps uv d (?f d)" for d using uv_contractD[OF world_okD(4)[OF assms(3)]] by (simp add: keeps_def)
  note ok = world_ok_keeps[OF assms(3,4) this]
  have "conns (set_conn a ?f w) a = Some (?f c)" using assms(4) by simp
  note close_connection_ok[OF assms(1,2) ok this, of UV_ECANCELED]
  moreover have "read_timer_data c \<in> {None, Some a}"
    using conns_okD[OF world_okD(3)[OF assms(3)] assms(4)] by (auto simp: conn_ok_def data_ok_def)
  ultimately show ?thesis using assms(3,4) ok
    by (auto simp: fire_read_timer_def with_conn_def on_conn_timeout_def simp del: set_conn_Some)
qed

lemma fire_write_timer_ok:
  assumes "lua_runtime uv l1" "lua_runtime uv l2" "world_ok uv X p w" "conns w a = Some c"
  shows "world_ok uv X p (fire_write_timer uv l1 l2 a w)"
proof -
  let ?f = "\<lambda>c. c\<lparr>write_timer := uv_timer_expire uv (write_timer c)\<rparr>"
  have "keeps uv d (?f d)" for d using uv_contractD[OF world_okD(4)[OF assms(3)]] by (simp add: keeps_def)
  note ok = world_ok_keeps[OF assms(3,4) this]
  have "conns (set_conn a ?f w) a = Some (?f c)" using assms(4) by simp
  note close_connection_ok[OF assms(1,2) ok this, of UV_ECANCELED]
  moreover have "write_timer_data c \<in> {None, Some a}"
    using conns_okD[OF world_okD(3)[OF assms(3)] assms(4)] by (auto simp: conn_ok_def data_ok_def)
  ultimately show ?thesis using assms(3,4) ok
    by (auto simp: fire_write_timer_def with_conn_def on_conn_timeout_def simp del: set_conn_Some)
qed

lemma on_read_ok:
  assumes "lua_runtime uv l1" "lua_runtime uv l2" "world_ok uv X p w" "conns w a = Some c"
    "nread \<le> int CONN_BUFFER_SIZE"
  shows "world_ok uv X p (on_read uv l1 l2 a nread w)"
proof (cases "c_data c")
  case None
  then show ?thesis using assms(3,4) by (simp add: on_read_def with_conn_def)
next
  case (Some b)
  note cok = conns_okD[OF world_okD(3)[OF assms(3)] assms(4)]
  have b: "b = a" "read_len c = 0" "length (read_buffer c) = CONN_BUFFER_SIZE"
    using cok Some by (auto simp: conn_ok_def data_ok_def buf_ok_def split: if_splits)
  let ?f = "\<lambda>c. c\<lparr>read_timer := stop_timer uv (read_timer c)\<rparr>"
  let ?w = "set_conn a ?f w"
  have "keeps uv d (?f d)" for d using world_okD(4)[OF assms(3)] by (simp add: keeps_def)
  note ok = world_ok_keeps[OF assms(3,4) this]
  have c: "conns ?w a = Some (?f c)" using assms(4) by simp
  consider (nop) "nread = 0 \<or> nread = UV_ENOBUFS" | (data) "nread > 0" | (err) "nread < 0" "nread \<noteq> UV_ENOBUFS"
    by linarith
  then show ?thesis
  proof cases
    case nop
    then show ?thesis using ok assms(4) Some b by (auto simp: on_read_def with_conn_def Let_def)
  next
    case err
    then show ?thesis using close_connection_ok[OF assms(1,2) ok c, of nread] assms(4) Some b
      by (simp add: on_read_def with_conn_def Let_def)
  next
    case data
    let ?v = "push [Resume_fn, Int_val (lua_reader_tid c), Bool_val True,
      Str_val (take (nat nread) (read_buffer c))] ?w"
    let ?g = "\<lambda>c. c\<lparr>lua_reader_tid := 0, read_len := 0\<rparr>"
    have "keeps uv d (?g d)" if "d = ?f c" for d using b(2) that by (simp add: keeps_def)
    then have "world_ok uv X p (set_conn a ?g ?v)"
      using ok c by (intro world_ok_keeps[where c = "?f c"]) simp_all
    moreover have "\<not> CONN_BUFFER_SIZE < nat nread" using assms(5) by linarith
    ultimately show ?thesis
      using lua_runtime.resume_global_ok[OF assms(1), of X p _ 3] data assms(4) Some b
      by (simp add: on_read_def with_conn_def Let_def UV_ENOBUFS_def)
  qed
qed

lemma deliver_ok:
  assumes "lua_runtime uv l1" "lua_runtime uv l2" "world_ok uv X p w" "conns w a = Some c"
  shows "world_ok uv X p (deliver uv l1 l2 a sent w)"
proof (cases "uv_is_active uv (c_handle c) \<and> c_data c \<noteq> None")
  case False
  then show ?thesis using assms on_read_ok[OF assms, of UV_ENOBUFS]
    by (auto simp: deliver_def with_conn_def on_alloc_def UV_ENOBUFS_def split: option.splits)
next
  case True
  note cok = conns_okD[OF world_okD(3)[OF assms(3)] assms(4)]
  have b: "read_len c = 0" "length (read_buffer c) = CONN_BUFFER_SIZE" "0 < CONN_BUFFER_SIZE"
    using cok by (auto simp: conn_ok_def buf_ok_def CONN_BUFFER_SIZE_def)
  let ?bytes = "take CONN_BUFFER_SIZE sent"
  let ?f = "\<lambda>c. c\<lparr>read_buffer := ?bytes @ drop (length ?bytes) (read_buffer c)\<rparr>"
  have "keeps uv d (?f d)" if "d = c" for d using that b by (simp add: keeps_def)
  note ok = world_ok_keeps[OF assms(3,4) this]
  have "conns (set_conn a ?f w) a = Some (?f c)" using assms(4) by simp
  from on_read_ok[OF assms(1,2) ok this, of "int (length ?bytes)"] show ?thesis
    using True assms(4) b by (auto simp: deliver_def with_conn_def on_alloc_def Let_def)
qed

lemma read_error_ok:
  assumes "lua_runtime uv l1" "lua_runtime uv l2" "world_ok uv X p w" "conns w a = Some c"
  shows "world_ok uv X p (read_error uv l1 l2 a rc w)"
  using assms(3,4) on_read_ok[OF assms, of rc] by (simp add: read_error_def with_conn_def)

lemma complete_resolve_ok:
  assumes "lua_runtime uv l1" "world_ok uv X p w"
  shows "world_ok uv X p (complete_resolve l1 i status res name_rc ip w)"
  using assms(2) lua_runtime.resume_global_ok[OF assms(1), of X p _ 3]
  by (simp add: complete_resolve_def on_resolved_def Let_def)


lemma request_alive:
  "conns_ok uv X p w \<Longrightarrow> connects w a > 0 \<Longrightarrow> \<exists>c. conns w a = Some c"
  "conns_ok uv X p w \<Longrightarrow> writes w a > 0 \<Longrightarrow> \<exists>c. conns w a = Some c"
  by (meson conns_ok_def not_None_eq)+

lemma on_client_connect_ok:
  assumes "lua_runtime uv l1" "lua_runtime uv l2" "lua_runtime uv l3" "world_ok uv X p w" "conns w a = Some c"
  shows "world_ok uv X p (on_client_connect uv l1 l2 l3 a status w)"
proof -
  let ?f = "\<lambda>c. c\<lparr>write_timer := stop_timer uv (write_timer c)\<rparr>"
  let ?w = "push [Resume_fn, Int_val (lua_writer_tid c)] (set_conn a ?f w)"
  have "keeps uv d (?f d)" for d using world_okD(4)[OF assms(4)] by (simp add: keeps_def)
  then have ok: "world_ok uv X p ?w" using world_ok_keeps[OF assms(4,5), of ?f] by simp
  have "conns ?w a = Some (?f c)" using assms(5) by simp
  note close_connection_ok[OF assms(1,2) ok this, of status]
  then have "world_ok uv X p (if status \<noteq> 0
      then push [Bool_val False, Err status] (close_connection uv l1 l2 a status ?w)
      else push [Bool_val True, Nil_val] ?w)"
    using ok by simp
  from lua_runtime.resume_global_ok[OF assms(3) this, of 3] show ?thesis
    using assms(5) by (simp add: on_client_connect_def with_conn_def Let_def)
qed

lemma complete_connect_ok:
  assumes "lua_runtime uv l1" "lua_runtime uv l2" "lua_runtime uv l3" "world_ok uv X p w"
  shows "world_ok uv X p (complete_connect uv l1 l2 l3 a status w)"
proof (cases "connects w a > 0")
  case False
  then show ?thesis using assms(4) by (simp add: complete_connect_def)
next
  case True
  obtain c where c: "conns w a = Some c"
    using request_alive(1)[OF world_okD(3)[OF assms(4)] True] by blast
  let ?w = "w\<lparr>connects := (connects w)(a := connects w a - 1)\<rparr>"
  have w: "?w = w\<lparr>conns := (conns w)(a \<mapsto> c), writes := (writes w)(a := writes w a),
      connects := (connects w)(a := connects w a - 1), overlapped := (overlapped w)(a := overlapped w a)\<rparr>"
    using c by (simp add: fun_upd_idem)
  have "conn_ok uv X p ?w a c"
    using conns_okD[OF world_okD(3)[OF assms(4)] c] True by (simp add: conn_parts)
  then have "world_ok uv X p ?w" by (intro world_ok_local[OF assms(4) c refl w]) simp_all
  moreover have "conns ?w a = Some c" using c by simp
  ultimately show ?thesis using on_client_connect_ok[OF assms(1-3)] True
    by (simp add: complete_connect_def)
qed

lemma on_write_ok:
  fixes status :: int
  assumes "lua_runtime uv l1" "lua_runtime uv l2" "world_ok uv X (p(a := Suc (p a))) w" "conns w a = Some c"
  defines "w' \<equiv> if status \<noteq> 0 then close_connection uv l1 l2 a status w
    else with_conn a (\<lambda>c w. resume_global l1 3 (push [Bool_val True, Int_val 1]
      (set_conn a (\<lambda>c. c\<lparr>write_timer := stop_timer uv (write_timer c), lua_writer_tid := 0\<rparr>)
        (push [Resume_fn, Int_val (lua_writer_tid c)] w)))) w"
  shows "world_ok uv X p (GC_REF_conn a w')"
proof -
  let ?p = "p(a := Suc (p a))"
  let ?f = "\<lambda>c. c\<lparr>write_timer := stop_timer uv (write_timer c), lua_writer_tid := 0\<rparr>"
  let ?v = "push [Bool_val True, Int_val 1] (set_conn a ?f (push [Resume_fn, Int_val (lua_writer_tid c)] w))"
  have k: "keeps uv d (?f d)" for d using world_okD(4)[OF assms(3)] by (simp add: keeps_def)
  have v: "world_ok uv X ?p ?v"
    using world_ok_keeps[of uv X ?p "push [Resume_fn, Int_val (lua_writer_tid c)] w" a c ?f, OF _ _ k] assms(3,4)
    by simp
  have cv: "conns ?v a = Some (?f c)" using assms(4) by simp
  have "world_ok uv X ?p w' \<and> (\<exists>d. conns w' a = Some d)"
  proof (cases "status \<noteq> 0")
    case True
    then show ?thesis using close_connection_ok[OF assms(1,2,3,4), of status] assms(4)
      by (auto simp: w'_def elim: lua_frame_conn)
  next
    case False
    have "lua_frame ?v (resume_global l1 3 ?v)" by (rule lua_runtime.resume_global_frame[OF assms(1) v])
    then obtain d where "conns (resume_global l1 3 ?v) a = Some d" using cv by (rule lua_frame_conn)
    then show ?thesis using False lua_runtime.resume_global_ok[OF assms(1) v, of 3] assms(4)
      by (simp add: w'_def with_conn_def)
  qed
  then show ?thesis using GC_REF_conn_ok[of uv X p a w'] by blast
qed

lemma complete_write_ok:
  assumes "lua_runtime uv l1" "lua_runtime uv l2" "world_ok uv X p w"
  shows "world_ok uv X p (complete_write uv l1 l2 a status w)"
proof (cases "writes w a > 0")
  case False
  then show ?thesis using assms(3) by (simp add: complete_write_def)
next
  case True
  obtain c where c: "conns w a = Some c"
    using request_alive(2)[OF world_okD(3)[OF assms(3)] True] by blast
  note cok = conns_okD[OF world_okD(3)[OF assms(3)] c]
  let ?w = "w\<lparr>writes := (writes w)(a := writes w a - 1)\<rparr>"
  show ?thesis
  proof (cases "write_req_data c")
    case None
    have w: "?w = w\<lparr>conns := (conns w)(a \<mapsto> c), writes := (writes w)(a := writes w a - 1),
        connects := (connects w)(a := connects w a), overlapped := (overlapped w)(a := overlapped w a)\<rparr>"
      using c by (simp add: fun_upd_idem)
    have h: "holders p ?w a c = holders p w a c - 1" using True by (simp add: holders_def)
    have "conn_ok uv X p ?w a c"
      using cok True None unfolding conn_parts h by auto
    then have "world_ok uv X p ?w" by (intro world_ok_local[OF assms(3) c refl w]) simp_all
    then show ?thesis using True c None by (simp add: complete_write_def on_write_def with_conn_def)
  next
    case (Some b)
    then have b: "b = a" using cok by (auto simp: conn_ok_def data_ok_def)
    let ?c = "c\<lparr>write_req_data := None\<rparr>" and ?p = "p(a := Suc (p a))"
    let ?v = "set_conn a (\<lambda>c. c\<lparr>write_req_data := None\<rparr>) ?w"
    have v: "?v = w\<lparr>conns := (conns w)(a \<mapsto> ?c), writes := (writes w)(a := writes w a - 1),
        connects := (connects w)(a := connects w a), overlapped := (overlapped w)(a := overlapped w a)\<rparr>"
      using c by simp
    have h: "holders ?p ?v a ?c = holders p w a c" unfolding v using True by (simp add: holders_def)
    have "conn_ok uv X ?p ?v a ?c"
      using cok True Some unfolding conn_parts h unfolding v by (auto simp: open_conn_def closing_def)
    then have "world_ok uv X ?p ?v" by (intro world_ok_local[OF assms(3) c _ v]) simp_all
    moreover have cv: "conns ?v a = Some ?c" using c by simp
    moreover have "complete_write uv l1 l2 a status w =
      GC_REF_conn a (if status \<noteq> 0 then close_connection uv l1 l2 a status ?v
        else with_conn a (\<lambda>c w. resume_global l1 3 (push [Bool_val True, Int_val 1]
          (set_conn a (\<lambda>c. c\<lparr>write_timer := stop_timer uv (write_timer c), lua_writer_tid := 0\<rparr>)
            (push [Resume_fn, Int_val (lua_writer_tid c)] w)))) ?v)"
      using True c Some b by (simp add: complete_write_def on_write_def with_conn_def)
    ultimately show ?thesis using on_write_ok[OF assms(1,2)] by (simp only:)
  qed
qed

end
