(* ===== verification/Luaw_Server.thy ===== *)
theory Luaw_Server
  imports Luaw_Timer Luaw_Tcp
begin

text \<open>
  The composition of the event-driven parts, \<^verbatim>\<open>src/src/luaw_server.c\<close>: the callbacks of the server, the Lua
  code that the callbacks resume, and the event loop. Lua code is a script of calls of the C libraries;
  the event loop is a step relation in which libuv chooses the next callback and every thread that is
  resumed runs an arbitrary script.
\<close>

section \<open>Lua code\<close>

text \<open>
  The calls that Lua code makes, with the answers of libuv and of the allocator. The garbage collector
  may run the finalizer of a userdata between any two calls.
\<close>

datatype lua_call =
    New_timer bool bool
  | Start_timer int ref int
  | Wait_timer ref tid
  | Stop_timer ref
  | Delete_timer ref
  | Gc_timer ref
  | New_connection bool bool
  | Connect string int tid int bool bool bool bool int int
  | Resolve_dns tid bool bool int
  | Start_reading int ref
  | Read_conn int ref tid int
  | Write_conn int int ref tid string int
  | Close_conn ref
  | Gc_conn ref

fun do_call :: "'h uv_api \<Rightarrow> 'h lua_code \<Rightarrow> 'h lua_code \<Rightarrow> lua_call \<Rightarrow> 'h luaw \<Rightarrow> 'h luaw" where
  "do_call uv l1 l2 (New_timer b1 b2) w = snd (new_user_timer uv b1 b2 w)"
| "do_call uv l1 l2 (Start_timer rc r timeout) w = snd (start_user_timer uv l1 rc r timeout w)"
| "do_call uv l1 l2 (Wait_timer r tid) w = snd (wait_user_timer r tid w)"
| "do_call uv l1 l2 (Stop_timer r) w = snd (stop_user_timer uv l1 r w)"
| "do_call uv l1 l2 (Delete_timer r) w = snd (close_timer_lua uv l1 r w)"
| "do_call uv l1 l2 (Gc_timer r) w = snd (timer_gc uv l1 r w)"
| "do_call uv l1 l2 (New_connection b1 b2) w = snd (new_connection_lua uv b1 b2 w)"
| "do_call uv l1 l2 (Connect ip port tid timeout b0 b1 b2 b3 rc trc) w =
     snd (client_connect uv l1 l2 ip port tid timeout b0 b1 b2 b3 rc trc w)"
| "do_call uv l1 l2 (Resolve_dns tid b1 b2 rc) w = snd (dns_resolve tid b1 b2 rc w)"
| "do_call uv l1 l2 (Start_reading rc r) w = snd (start_reading uv l1 l2 rc r w)"
| "do_call uv l1 l2 (Read_conn rc r tid timeout) w = snd (read_check uv l1 l2 rc r tid timeout w)"
| "do_call uv l1 l2 (Write_conn rc trc r tid buff timeout) w =
     snd (write_buffer uv l1 l2 rc trc r tid buff timeout w)"
| "do_call uv l1 l2 (Close_conn r) w = snd (close_connection_lua uv l1 l2 r w)"
| "do_call uv l1 l2 (Gc_conn r) w = snd (connection_gc uv l1 l2 r w)"

text \<open>
  A script makes a call and goes on, or ends. A call carries the scripts of the threads that it resumes:
  a C method runs them before it returns.
\<close>

datatype lua_script = Done lua_outcome | Call lua_call lua_script lua_script lua_script

primrec run_lua :: "'h uv_api \<Rightarrow> lua_script \<Rightarrow> 'h lua_code" where
  "run_lua uv (Done out) = (\<lambda>w. (out, w))"
| "run_lua uv (Call c s1 s2 rest) =
     (\<lambda>w. run_lua uv rest (do_call uv (run_lua uv s1) (run_lua uv s2) c w))"

section \<open>The callbacks of the server\<close>

text \<open>
  \<open>on_server_connect\<close> runs in the event loop, outside every protected call: an error that it raises, or
  that \<open>new_connection\<close> raises, makes Lua panic.
\<close>

definition on_server_connect ::
  "'h uv_api \<Rightarrow> 'h lua_code \<Rightarrow> 'h lua_code \<Rightarrow> int \<Rightarrow> bool \<Rightarrow> bool \<Rightarrow> int \<Rightarrow> 'h luaw \<Rightarrow> 'h luaw" where
  "on_server_connect uv l1 l2 status calloc_ok udata_ok accept_rc w =
     (if status \<noteq> 0 then w\<lparr>panicked := True\<rparr>
      else case new_connection uv calloc_ok udata_ok (push [Start_thread_fn, Service_fn] w) of
        (Inl msg, w) \<Rightarrow> w\<lparr>panicked := True\<rparr>
      | (Inr a, w) \<Rightarrow>
          let w = push [Udata a] w;
              w = set_conn a (\<lambda>c. c\<lparr>c_handle := uv_accept uv accept_rc (c_handle c)\<rparr>) w in
          if accept_rc \<noteq> 0 then close_connection uv l1 l2 a accept_rc w
          else (case l1 (w\<lparr>stack := []\<rparr>) of
              (Returned finished v, w') \<Rightarrow> w'\<lparr>stack := v # Bool_val finished # drop 3 (stack w)\<rparr>
            | (Failed msg, w') \<Rightarrow> w'\<lparr>stack := msg # drop 3 (stack w)\<rparr>))"

definition run_user_threads :: "'h lua_code \<Rightarrow> 'h luaw \<Rightarrow> 'h luaw" where
  "run_user_threads lua w =
     (case lua (w\<lparr>stack := []\<rparr>) of
        (Returned finished v, w') \<Rightarrow> w'\<lparr>stack := []\<rparr>
      | (Failed msg, w') \<Rightarrow> w'\<lparr>stopped := True, stack := []\<rparr>)"

definition SIGHUP :: int where "SIGHUP = 1"

definition handle_shutdown_req :: "int \<Rightarrow> 'h luaw \<Rightarrow> 'h luaw" where
  "handle_shutdown_req signum w = (if signum = SIGHUP then w\<lparr>stopped := True\<rparr> else w)"

section \<open>The event loop\<close>

text \<open>
  One callback of the event loop. libuv runs a callback of a handle only while it knows the handle.
  The threads that the callback resumes run the scripts \<open>s\<close>, \<open>s'\<close> and \<open>s''\<close>.
\<close>

inductive loop_step :: "'h uv_api \<Rightarrow> 'h luaw \<Rightarrow> 'h luaw \<Rightarrow> bool" for uv where
  user_timer: "loop_handles w (User_timer a) \<Longrightarrow> loop_step uv w (fire_user_timer uv (run_lua uv s) a w)"
| user_timer_closed: "loop_handles w (User_timer a) \<Longrightarrow> loop_step uv w (close_user_timer_handle uv a w)"
| data: "loop_handles w (Tcp a) \<Longrightarrow> loop_step uv w (deliver uv (run_lua uv s) (run_lua uv s') a sent w)"
| read_failed: "loop_handles w (Tcp a) \<Longrightarrow> loop_step uv w (read_error uv (run_lua uv s) (run_lua uv s') a rc w)"
| read_timeout: "loop_handles w (Read_timer a) \<Longrightarrow>
     loop_step uv w (fire_read_timer uv (run_lua uv s) (run_lua uv s') a w)"
| write_timeout: "loop_handles w (Write_timer a) \<Longrightarrow>
     loop_step uv w (fire_write_timer uv (run_lua uv s) (run_lua uv s') a w)"
| write_done: "loop_step uv w (complete_write uv (run_lua uv s) (run_lua uv s') a status w)"
| connect_done: "loop_step uv w
     (complete_connect uv (run_lua uv s) (run_lua uv s') (run_lua uv s'') a status w)"
| resolved: "loop_step uv w (complete_resolve (run_lua uv s) i status res name_rc ip w)"
| tcp_closed: "loop_handles w (Tcp a) \<Longrightarrow> loop_step uv w (close_tcp_handle uv a w)"
| read_timer_closed: "loop_handles w (Read_timer a) \<Longrightarrow> loop_step uv w (close_read_timer_handle uv a w)"
| write_timer_closed: "loop_handles w (Write_timer a) \<Longrightarrow> loop_step uv w (close_write_timer_handle uv a w)"
| accept: "loop_step uv w
     (on_server_connect uv (run_lua uv s) (run_lua uv s') status calloc_ok udata_ok accept_rc w)"
| prepare: "loop_step uv w (run_user_threads (run_lua uv s) w)"
| signal: "loop_step uv w (handle_shutdown_req signum w)"

inductive reachable :: "'h uv_api \<Rightarrow> 'h luaw \<Rightarrow> bool" for uv where
  start: "reachable uv init_world"
| step: "reachable uv w \<Longrightarrow> loop_step uv w w' \<Longrightarrow> reachable uv w'"

section \<open>Lua code keeps the invariant\<close>

lemma do_call_ok:
  assumes "lua_runtime uv l1" "lua_runtime uv l2" "world_ok uv X p w"
  shows "world_ok uv X p (do_call uv l1 l2 c w) \<and> lua_frame w (do_call uv l1 l2 c w)"
  using assms(3) lua_runtime.start_user_timer_ok[OF assms(1,3)] lua_runtime.wait_user_timer_ok[OF assms(1,3)]
    lua_runtime.stop_user_timer_ok[OF assms(1,3)] lua_runtime.close_timer_lua_ok[OF assms(1,3)]
    new_user_timer_ok[OF assms(3)] new_connection_ok[OF assms(3)] client_connect_ok[OF assms]
    dns_resolve_ok[OF assms(3)] start_reading_ok[OF assms] read_check_ok[OF assms]
    write_buffer_ok[OF assms] close_connection_lua_ok[OF assms] connection_gc_ok[OF assms]
  by (cases c) (simp_all add: new_connection_lua_def)

lemma run_lua_runtime: "lua_runtime uv (run_lua uv s)"
proof (induction s)
  case (Done out)
  show ?case by unfold_locales simp_all
next
  case (Call c s1 s2 rest)
  note call = do_call_ok[OF Call.IH(1,2)]
  show ?case
  proof
    fix X p and w :: "'a luaw"
    assume w: "world_ok uv X p w"
    show "world_ok uv X p (snd (run_lua uv (Call c s1 s2 rest) w))"
      using lua_runtime.lua_ok[OF Call.IH(3)] call[OF w] by simp
    show "lua_frame w (snd (run_lua uv (Call c s1 s2 rest) w))"
      using lua_runtime.lua_frame[OF Call.IH(3), of X p] call[OF w, of c] by (auto intro: lua_frame_trans)
  qed
qed

interpretation script: lua_runtime uv "run_lua uv s" for uv :: "'h uv_api" and s
  by (rule run_lua_runtime)

section \<open>The event loop keeps the invariant\<close>

lemma on_server_connect_ok:
  assumes "lua_runtime uv l1" "lua_runtime uv l2" "world_ok uv X p w"
  shows "world_ok uv X p (on_server_connect uv l1 l2 status b1 b2 rc w)"
proof -
  let ?w = "push [Start_thread_fn, Service_fn] w"
  have ok: "world_ok uv X p (snd (new_connection uv b1 b2 ?w))"
    using new_connection_ok[of uv X p ?w b1 b2] assms(3) by simp
  show ?thesis
  proof (cases "status = 0 \<and> b1 \<and> b2")
    case False
    then show ?thesis using assms(3) by (auto simp: on_server_connect_def new_connection_def)
  next
    case True
    obtain u c where new: "new_connection uv b1 b2 ?w = (Inr (fresh w), u)" "conns u (fresh w) = Some c"
        "c_lua_ref c = Some (fresh w)"
      using True by (simp add: new_connection_def Let_def)
    let ?a = "fresh w" and ?f = "\<lambda>c. c\<lparr>c_handle := uv_accept uv rc (c_handle c)\<rparr>"
    let ?v = "set_conn ?a ?f (push [Udata ?a] u)"
    have "keeps uv d (?f d)" for d using uv_contractD[OF world_okD(4)[OF assms(3)]] by (simp add: keeps_def)
    then have v: "world_ok uv X p ?v" using ok new(1,2) by (intro world_ok_keeps[where c = c]) simp_all
    have "conns ?v ?a = Some (?f c)" using new(2) by simp
    note cl = close_connection_ok[OF assms(1,2) v this, of rc]
    have "world_ok uv X p (snd (l1 (?v\<lparr>stack := []\<rparr>)))"
      using lua_runtime.lua_ok[OF assms(1), of X p "?v\<lparr>stack := []\<rparr>"] v by simp
    then show ?thesis using True new(1) cl
      by (cases "rc = 0"; cases "l1 (?v\<lparr>stack := []\<rparr>)")
         (simp_all add: on_server_connect_def Let_def del: set_conn_Some split: lua_outcome.split)
  qed
qed

lemma run_user_threads_ok:
  assumes "lua_runtime uv lua" "world_ok uv X p w"
  shows "world_ok uv X p (run_user_threads lua w)"
  using lua_runtime.lua_ok[OF assms(1), of X p "w\<lparr>stack := []\<rparr>"] assms(2)
  by (cases "lua (w\<lparr>stack := []\<rparr>)") (simp add: run_user_threads_def split: lua_outcome.split)

lemma handle_alive:
  assumes "world_ok uv X p w"
  shows "loop_handles w (User_timer a) \<Longrightarrow> \<exists>t. timers w a = Some t"
    "loop_handles w (Tcp a) \<Longrightarrow> \<exists>c. conns w a = Some c"
    "loop_handles w (Read_timer a) \<Longrightarrow> \<exists>c. conns w a = Some c"
    "loop_handles w (Write_timer a) \<Longrightarrow> \<exists>c. conns w a = Some c"
  using world_okD(2,3)[OF assms] by (auto simp: timers_ok_def conns_ok_def)

lemma loop_step_ok:
  assumes "loop_step uv w w'" "world_ok uv {} (\<lambda>_. 0) w"
  shows "world_ok uv {} (\<lambda>_. 0) w'"
  using assms
proof cases
  case (user_timer a s)
  then show ?thesis using handle_alive(1)[OF assms(2)] script.fire_user_timer_ok[OF assms(2)] by blast
next
  case (user_timer_closed a)
  then show ?thesis using close_user_timer_handle_ok[OF assms(2)] by simp
next
  case (data a s s' sent)
  then show ?thesis using handle_alive(2)[OF assms(2)]
      deliver_ok[OF run_lua_runtime run_lua_runtime assms(2)] by blast
next
  case (read_failed a s s' rc)
  then show ?thesis using handle_alive(2)[OF assms(2)]
      read_error_ok[OF run_lua_runtime run_lua_runtime assms(2)] by blast
next
  case (read_timeout a s s')
  then show ?thesis using handle_alive(3)[OF assms(2)]
      fire_read_timer_ok[OF run_lua_runtime run_lua_runtime assms(2)] by blast
next
  case (write_timeout a s s')
  then show ?thesis using handle_alive(4)[OF assms(2)]
      fire_write_timer_ok[OF run_lua_runtime run_lua_runtime assms(2)] by blast
next
  case (write_done s s' a status)
  then show ?thesis using complete_write_ok[OF run_lua_runtime run_lua_runtime assms(2)] by simp
next
  case (connect_done s s' s'' a status)
  then show ?thesis
    using complete_connect_ok[OF run_lua_runtime run_lua_runtime run_lua_runtime assms(2)] by simp
next
  case (resolved s i status res name_rc ip)
  then show ?thesis using complete_resolve_ok[OF run_lua_runtime assms(2)] by simp
next
  case (tcp_closed a)
  then show ?thesis using close_tcp_handle_ok[OF assms(2)] by simp
next
  case (read_timer_closed a)
  then show ?thesis using close_read_timer_handle_ok[OF assms(2)] by simp
next
  case (write_timer_closed a)
  then show ?thesis using close_write_timer_handle_ok[OF assms(2)] by simp
next
  case (accept s s' status b1 b2 rc)
  then show ?thesis using on_server_connect_ok[OF run_lua_runtime run_lua_runtime assms(2)] by simp
next
  case (prepare s)
  then show ?thesis using run_user_threads_ok[OF run_lua_runtime assms(2)] by simp
next
  case (signal signum)
  then show ?thesis using assms(2)
    by (simp add: handle_shutdown_req_def)
qed

lemma reachable_ok:
  assumes "reachable uv w" "uv_contract uv"
  shows "world_ok uv {} (\<lambda>_. 0) w"
  using assms(1)
proof induction
  case start
  show ?case using assms(2) by (rule init_world_ok)
next
  case (step w w')
  show ?case using step.hyps(2) step.IH by (rule loop_step_ok)
qed

end
