(* ===== verification/Timer_Spec.thy ===== *)
theory Timer_Spec
  imports Luaw_Server
begin

text \<open>
  What a user timer promises to Lua, as an automaton with five states, and the proof that the timers of
  \<^verbatim>\<open>src/src/luaw_timer.c\<close> implement it: results, resumed threads and the next state agree on every method
  and on the expiry of the timer, for any sequence of them. The threads that are woken run Lua code that
  may use the other objects, leaves this timer alone and wakes no further thread before it yields.
\<close>

datatype abs_timer = Idle | Running | Waiting tid | Expired | Closed

datatype timer_event = Start int int | Wait tid | Stop | Delete | Fire

fun spec_event :: "timer_event \<Rightarrow> abs_timer \<Rightarrow> lua_val list \<times> (tid \<times> lua_val list) list \<times> abs_timer" where
  "spec_event (Start rc timeout) Idle =
     (if timeout \<le> 0 then (error_to_lua ''Invalid timeout value %d specified'' [Int_val timeout], [], Idle)
      else if rc \<noteq> 0 then (error_to_lua ''Error starting timer: %s'' [Err rc], [], Closed)
      else ([Bool_val True], [], Running))"
| "spec_event (Start rc timeout) Closed = (error_to_lua ''Timer closed'' [], [], Closed)"
| "spec_event (Start rc timeout) s = (error_to_lua ''Timer already in use by another thread'' [], [], s)"
| "spec_event (Wait tid) Idle =
     (error_to_lua ''Attempt to wait on timer that is not started, timer state: %d'' [Int_val 0], [], Idle)"
| "spec_event (Wait tid) Running =
     (if tid \<le> 0 then (error_to_lua ''Invalid thread id %d specified'' [Int_val tid], [], Running)
      else ([Bool_val True, Bool_val False], [], Waiting tid))"
| "spec_event (Wait tid) (Waiting u) =
     (error_to_lua ''Timer already is in use by thread %d'' [Int_val u], [], Waiting u)"
| "spec_event (Wait tid) Expired = ([Bool_val True, Bool_val True], [], Idle)"
| "spec_event (Wait tid) Closed = (error_to_lua ''Timer closed'' [], [], Closed)"
| "spec_event Stop Running = ([], [], Idle)"
| "spec_event Stop (Waiting u) = ([], [(u, [Bool_val False, Err UV_ECANCELED])], Idle)"
| "spec_event Stop Closed = (error_to_lua ''Timer closed'' [], [], Closed)"
| "spec_event Stop s = ([], [], s)"
| "spec_event Delete (Waiting u) = ([], [(u, [Bool_val False, Err UV_ECANCELED])], Closed)"
| "spec_event Delete s = ([], [], Closed)"
| "spec_event Fire Running = ([], [], Expired)"
| "spec_event Fire (Waiting u) = ([], [(u, [Bool_val True, Bool_val True])], Idle)"
| "spec_event Fire s = ([], [], s)"

text \<open>The methods on the userdata \<open>r\<close>, and libuv firing the timer at address \<open>a\<close>.\<close>

fun impl_event :: "'h uv_api \<Rightarrow> 'h lua_code \<Rightarrow> addr \<Rightarrow> ref \<Rightarrow> timer_event \<Rightarrow> 'h luaw \<Rightarrow> lua_val list \<times> 'h luaw" where
  "impl_event uv lua a r (Start rc timeout) w = start_user_timer uv lua rc r timeout w"
| "impl_event uv lua a r (Wait tid) w = wait_user_timer r tid w"
| "impl_event uv lua a r Stop w = stop_user_timer uv lua r w"
| "impl_event uv lua a r Delete w = close_timer_lua uv lua r w"
| "impl_event uv lua a r Fire w = ([], fire_user_timer uv lua a w)"

definition abs_state :: "'h luaw_timer \<Rightarrow> abs_timer" where
  "abs_state t = (case tm_state t of
     INIT \<Rightarrow> Idle
   | TICKING \<Rightarrow> if tm_lua_tid t \<noteq> 0 then Waiting (tm_lua_tid t) else Running
   | ELAPSED \<Rightarrow> Expired)"

definition abs_timer :: "'h luaw \<Rightarrow> addr \<Rightarrow> ref \<Rightarrow> abs_timer" where
  "abs_timer w a r =
     (case timer_refs w r of None \<Rightarrow> Closed
      | Some _ \<Rightarrow> (case timers w a of None \<Rightarrow> Closed | Some t \<Rightarrow> abs_state t))"

text \<open>The userdata \<open>r\<close> belongs to the timer at \<open>a\<close>, which libuv has not released yet.\<close>

definition owns :: "'h luaw \<Rightarrow> addr \<Rightarrow> ref \<Rightarrow> bool" where
  "owns w a r \<longleftrightarrow> timer_refs w r \<in> {None, Some a} \<and> (\<exists>t. timers w a = Some t \<and> tm_lua_ref t \<in> {None, Some r})"

definition agrees :: "'h uv_api \<Rightarrow> addr \<Rightarrow> ref \<Rightarrow> 'h luaw \<Rightarrow>
    lua_val list \<times> 'h luaw \<Rightarrow> lua_val list \<times> (tid \<times> lua_val list) list \<times> abs_timer \<Rightarrow> bool" where
  "agrees uv a r w i s \<longleftrightarrow> fst i = fst s \<and> resumed (snd i) = resumed w @ fst (snd s)
     \<and> abs_timer (snd i) a r = snd (snd s) \<and> owns (snd i) a r"

text \<open>
  Lua code that leaves the timer at \<open>a\<close> and its userdata \<open>r\<close> as they are, from their creation on, and wakes no
  other thread.
\<close>

definition spares :: "'h lua_code \<Rightarrow> addr \<Rightarrow> ref \<Rightarrow> bool" where
  "spares lua a r \<longleftrightarrow> (\<forall>w. a < fresh w \<longrightarrow> r < fresh w \<longrightarrow>
     timers (snd (lua w)) a = timers w a \<and> timer_refs (snd (lua w)) r = timer_refs w r \<and>
     resumed (snd (lua w)) = resumed w)"

lemma sparesD:
  assumes "spares lua a r" "a < fresh w" "r < fresh w"
  shows "timers (snd (lua w)) a = timers w a" "timer_refs (snd (lua w)) r = timer_refs w r"
    "resumed (snd (lua w)) = resumed w"
  using assms unfolding spares_def by blast+

lemma resume_spared:
  assumes "spares lua a r" "a < fresh w" "r < fresh w" "tid \<noteq> 0"
  shows "timers (snd (resume_lua_thread lua 3 [v, u, Int_val tid, Resume_fn] w)) a = timers w a"
    "timer_refs (snd (resume_lua_thread lua 3 [v, u, Int_val tid, Resume_fn] w)) r = timer_refs w r"
    "resumed (snd (resume_lua_thread lua 3 [v, u, Int_val tid, Resume_fn] w)) = resumed w @ [(tid, [u, v])]"
  using sparesD[OF assms(1), of "w\<lparr>resumed := resumed w @ [(tid, [u, v])]\<rparr>"] assms(2-)
  by (simp_all add: snd_resume lua_tointeger_def)

lemma resume_global_spared:
  assumes "spares lua a r" "stack w = v # u # Int_val tid # Resume_fn # st" "tid \<noteq> 0" "a < fresh w" "r < fresh w"
  shows "timers (resume_global lua 3 w) a = timers w a" "timer_refs (resume_global lua 3 w) r = timer_refs w r"
    "resumed (resume_global lua 3 w) = resumed w @ [(tid, [u, v])]"
proof -
  have "snd (resume_lua_thread lua 3 (v # u # Int_val tid # Resume_fn # st) (w\<lparr>stack := []\<rparr>)) =
      snd (lua (w\<lparr>stack := [], resumed := resumed w @ [(tid, [u, v])]\<rparr>))"
    using assms(3) by (simp add: snd_resume lua_tointeger_def)
  then show "timers (resume_global lua 3 w) a = timers w a" "timer_refs (resume_global lua 3 w) r = timer_refs w r"
    "resumed (resume_global lua 3 w) = resumed w @ [(tid, [u, v])]"
    using sparesD[OF assms(1), of "w\<lparr>stack := [], resumed := resumed w @ [(tid, [u, v])]\<rparr>"] assms(2,4,5)
    by (simp_all add: resume_global_def case_prod_unfold)
qed

lemma closed_step:
  assumes "world_ok uv {} p w" "owns w a r" "timer_refs w r = None"
  shows "agrees uv a r w (impl_event uv lua a r e w) (spec_event e (abs_timer w a r))"
proof -
  obtain t where t: "timers w a = Some t" "tm_lua_ref t \<in> {None, Some r}" using assms(2) by (auto simp: owns_def)
  have "timer_ok uv {} w a t" using timers_okD[OF world_okD(2)[OF assms(1)] t(1)] .
  then have "tm_lua_ref t = None" "tm_lua_tid t = 0" "tm_data t \<in> {None, Some a}"
    using t(2) assms(3) by (auto simp: timer_ok_def)
  then show ?thesis using t(1) assms(3)
    by (cases e) (auto simp: agrees_def abs_timer_def owns_def start_user_timer_def wait_user_timer_def
      stop_user_timer_def close_timer_lua_def fire_user_timer_def on_user_timer_timeout_def with_timer_def)
qed

lemmas step_defs = agrees_def abs_timer_def abs_state_def owns_def with_timer_def clear_user_timer_def
  start_user_timer_def wait_user_timer_def stop_user_timer_def close_timer_lua_def close_timer_def
  fire_user_timer_def on_user_timer_timeout_def timer_state_num_def

lemma open_step:
  assumes "world_ok uv {} p w" "timer_refs w r = Some a" "timers w a = Some t" "tm_lua_ref t = Some r"
    "spares lua a r"
  shows "agrees uv a r w (impl_event uv lua a r e w) (spec_event e (abs_state t))"
proof -
  note ok = world_okD(2)[OF assms(1)]
  have tok: "timer_ok uv {} w a t" using timers_okD[OF ok assms(3)] .
  then have tid: "tm_lua_tid t \<noteq> 0 \<Longrightarrow> tm_state t = TICKING" and d: "tm_data t = Some a"
    and act: "tm_state t = TICKING \<longleftrightarrow> uv_is_active uv (tm_handle t)"
    using assms(4) by (auto simp: timer_ok_def)
  have fr: "a < fresh w" "r < fresh w"
    using timers_ok_fresh[OF ok assms(3)] ok assms(2) unfolding timers_ok_def by blast+
  show ?thesis
  proof (cases e)
    case (Start rc timeout)
    then show ?thesis using assms(2-4) act d tid by (cases "tm_state t") (auto simp: step_defs Let_def)
  next
    case (Wait u)
    then show ?thesis using assms(2-4) act d tid by (cases "tm_state t") (auto simp: step_defs Let_def)
  next
    case Stop
    show ?thesis
    proof (cases "tm_lua_tid t = 0")
      case True
      then show ?thesis using Stop assms(2-4) act d by (cases "tm_state t") (auto simp: step_defs Let_def)
    next
      case False
      let ?w = "snd (resume_lua_thread lua 3 [Err UV_ECANCELED, Bool_val False, Int_val (tm_lua_tid t), Resume_fn] w)"
      note s = resume_spared[OF assms(5) fr False, of "Err UV_ECANCELED" "Bool_val False"]
      have "impl_event uv lua a r e w = ([], set_timer a (\<lambda>t. t\<lparr>tm_handle := uv_timer_stop uv (tm_handle t)\<rparr>)
          (set_timer a clear_user_timer ?w))"
        using Stop assms(2,3) tid False by (simp add: stop_user_timer_def Let_def)
      then show ?thesis using s assms(2-4) Stop False tid
        by (simp add: agrees_def abs_timer_def abs_state_def owns_def clear_user_timer_def)
    qed
  next
    case Delete
    show ?thesis
    proof (cases "tm_lua_tid t = 0")
      case True
      then show ?thesis using Delete assms(2-4) act d by (cases "tm_state t") (auto simp: step_defs Let_def)
    next
      case False
      let ?t = "t\<lparr>tm_lua_ref := None, tm_ref_count := tm_ref_count t - 1, tm_lua_tid := 0\<rparr>"
      let ?v = "(push [Resume_fn, Int_val (tm_lua_tid t), Bool_val False, Err UV_ECANCELED]
          (w\<lparr>timer_refs := (timer_refs w)(r := None)\<rparr>))\<lparr>timers := (timers w)(a \<mapsto> ?t)\<rparr>"
      let ?w = "resume_global lua 3 ?v"
      have s: "timers ?w a = Some ?t" "timer_refs ?w r = None"
        "resumed ?w = resumed w @ [(tm_lua_tid t, [Bool_val False, Err UV_ECANCELED])]"
        using resume_global_spared[OF assms(5), of ?v "Err UV_ECANCELED" "Bool_val False" "tm_lua_tid t" "stack w"] False fr
        by simp_all
      have "impl_event uv lua a r e w = ([], set_timer a (\<lambda>t. t\<lparr>tm_handle := close_if_active uv (tm_handle t)\<rparr>) ?w)"
        using Delete assms(2-4) False
        by (simp add: close_timer_lua_def close_timer_def with_timer_def Let_def push_def)
      then show ?thesis using s assms(2-4) Delete False tid
        by (simp add: agrees_def abs_timer_def abs_state_def owns_def)
    qed
  next
    case Fire
    show ?thesis
    proof (cases "tm_lua_tid t = 0")
      case True
      then show ?thesis using Fire assms(2-4) act d by (cases "tm_state t") (auto simp: step_defs Let_def)
    next
      case False
      let ?t = "clear_user_timer (t\<lparr>tm_handle := uv_timer_expire uv (tm_handle t)\<rparr>)"
      let ?v = "push [Bool_val True, Bool_val True]
          ((push [Resume_fn, Int_val (tm_lua_tid t)] w)\<lparr>timers := (timers w)(a \<mapsto> ?t)\<rparr>)"
      let ?w = "resume_global lua 3 ?v"
      have s: "timers ?w a = Some ?t" "timer_refs ?w r = Some a"
        "resumed ?w = resumed w @ [(tm_lua_tid t, [Bool_val True, Bool_val True])]"
        using resume_global_spared[OF assms(5), of ?v "Bool_val True" "Bool_val True" "tm_lua_tid t" "stack w"] False fr
          assms(2) by simp_all
      have "impl_event uv lua a r e w = ([], ?w)"
        using Fire assms(2-4) False act tid d
        by (simp add: fire_user_timer_def on_user_timer_timeout_def with_timer_def push_def)
      then show ?thesis using s assms(2-4) Fire False tid
        by (simp add: agrees_def abs_timer_def abs_state_def owns_def clear_user_timer_def)
    qed
  qed
qed

lemma step_refines:
  assumes "world_ok uv {} p w" "owns w a r" "spares lua a r"
  shows "agrees uv a r w (impl_event uv lua a r e w) (spec_event e (abs_timer w a r))"
proof (cases "timer_refs w r")
  case None
  then show ?thesis using closed_step[OF assms(1,2)] by blast
next
  case (Some b)
  then have "b = a" using assms(2) by (auto simp: owns_def)
  moreover obtain t where "timers w a = Some t" using assms(2) by (auto simp: owns_def)
  moreover from this have "tm_lua_ref t = Some r"
    using timers_ok_ref[OF world_okD(2)[OF assms(1)]] Some calculation(1) by simp
  ultimately show ?thesis using open_step[OF assms(1)] assms(3) Some by (simp add: abs_timer_def)
qed

lemma impl_event_ok:
  assumes "world_ok uv {} p w" "owns w a r"
  shows "world_ok uv {} p (snd (impl_event uv (run_lua uv s) a r e w))"
proof -
  obtain t where "timers w a = Some t" using assms(2) by (auto simp: owns_def)
  then show ?thesis
    using script.start_user_timer_ok[OF assms(1)] script.wait_user_timer_ok[OF assms(1)]
      script.stop_user_timer_ok[OF assms(1)] script.fire_user_timer_ok[OF assms(1)]
      script.close_timer_lua_ok[OF assms(1)]
    by (cases e) simp_all
qed

text \<open>
  A whole history of a timer, with the results of the methods in order. Each event carries the script that
  the thread runs which it wakes.
\<close>

fun impl_run :: "'h uv_api \<Rightarrow> addr \<Rightarrow> ref \<Rightarrow> (timer_event \<times> lua_script) list \<Rightarrow> 'h luaw \<Rightarrow>
    lua_val list list \<times> 'h luaw" where
  "impl_run uv a r [] w = ([], w)"
| "impl_run uv a r ((e, s) # es) w =
     (let (vals, w) = impl_event uv (run_lua uv s) a r e w; (rest, w) = impl_run uv a r es w in (vals # rest, w))"

fun spec_run :: "timer_event list \<Rightarrow> abs_timer \<Rightarrow>
    lua_val list list \<times> (tid \<times> lua_val list) list \<times> abs_timer" where
  "spec_run [] s = ([], [], s)"
| "spec_run (e # es) s =
     (let (vals, woken, s) = spec_event e s; (rest, woken', s) = spec_run es s
      in (vals # rest, woken @ woken', s))"

text \<open>
  C18 User timers refine the automaton: for every history of calls and expiries, in which the threads that are
  woken leave this timer alone and wake no further thread before they yield, the methods return to Lua exactly
  what the automaton returns, the threads that are resumed, their order and what they are told are those of the
  automaton, and the final states correspond. (A thread that deletes the timer that is just being stopped is
  outside of this: it is resumed twice, see \<open>stop_then_delete_resumes_twice\<close>.)
\<close>

theorem timer_refines:
  assumes "world_ok uv {} p w" "owns w a r" "\<forall>(e, s) \<in> set es. spares (run_lua uv s) a r"
  shows "fst (impl_run uv a r es w) = fst (spec_run (map fst es) (abs_timer w a r)) \<and>
    resumed (snd (impl_run uv a r es w)) = resumed w @ fst (snd (spec_run (map fst es) (abs_timer w a r))) \<and>
    abs_timer (snd (impl_run uv a r es w)) a r = snd (snd (spec_run (map fst es) (abs_timer w a r)))"
  using assms
proof (induction es arbitrary: w)
  case Nil
  show ?case by simp
next
  case (Cons es0 es)
  obtain e s where es0: "es0 = (e, s)" by (cases es0)
  let ?i = "impl_event uv (run_lua uv s) a r e w"
  have ok: "world_ok uv {} p (snd ?i)" by (rule impl_event_ok[OF Cons.prems(1,2)])
  have st: "agrees uv a r w ?i (spec_event e (abs_timer w a r))"
    by (rule step_refines[OF Cons.prems(1,2)]) (use Cons.prems(3) es0 in simp)
  then have "owns (snd ?i) a r" by (simp add: agrees_def)
  from Cons.IH[OF ok this] Cons.prems(3) st show ?case
    by (simp add: es0 agrees_def case_prod_unfold Let_def)
qed

definition demo :: "(bool \<times> bool) luaw" where
  "demo = snd (new_user_timer flag_uv True True init_world)"

text \<open>A woken thread that opens a timer and a connection of its own.\<close>

definition opening_script :: lua_script where
  "opening_script = Call (New_timer True True) (Done (Returned True Nil_val)) (Done (Returned True Nil_val))
     (Call (New_connection True True) (Done (Returned True Nil_val)) (Done (Returned True Nil_val))
       (Done (Returned True Nil_val)))"

lemma opening_script_spares: "spares (run_lua flag_uv opening_script) a r"
  by (auto simp: spares_def opening_script_def new_user_timer_def new_connection_lua_def new_connection_def Let_def)

definition demo_history :: "(timer_event \<times> lua_script) list" where
  "demo_history = map (\<lambda>e. (e, opening_script))
     [Start 0 5, Wait 7, Wait 8, Fire, Start 0 3, Fire, Wait 7, Delete, Wait 7]"

theorem timer_refines_witness:
  "world_ok flag_uv {} (\<lambda>_. 0) demo \<and> owns demo 0 0 \<and>
    resumed (snd (impl_run flag_uv 0 0 demo_history demo)) = [(7, [Bool_val True, Bool_val True])] \<and>
    abs_timer (snd (impl_run flag_uv 0 0 demo_history demo)) 0 0 = Closed"
proof -
  have d: "world_ok flag_uv {} (\<lambda>_. 0) demo"
    using new_user_timer_ok[OF init_world_ok[OF flag_uv_contract]] by (simp add: demo_def)
  have s: "abs_timer demo 0 0 = Idle" "resumed demo = []" "owns demo 0 0"
    by (simp_all add: demo_def new_user_timer_def init_world_def abs_timer_def abs_state_def
      clear_user_timer_def owns_def)
  have h: "\<forall>(e, s) \<in> set demo_history. spares (run_lua flag_uv s) 0 0"
    using opening_script_spares by (auto simp: demo_history_def)
  show ?thesis
    using d s timer_refines[OF d s(3) h] by (simp add: demo_history_def Let_def)
qed

end
