(* ===== verification/Luaw_Loop_Props.thy ===== *)
theory Luaw_Loop_Props
  imports Luaw_Server
begin

text \<open>
  The properties of the event-driven part: memory safety and the reference counts in every reachable
  state of the event loop, who is resumed with what, and histories in which data is
  lost or threads are resumed twice.
\<close>

section \<open>Running concrete histories\<close>

text \<open>A state reached by Lua code that the loop runs first.\<close>

definition after :: "lua_script \<Rightarrow> (bool \<times> bool) luaw" where
  "after s = run_user_threads (run_lua flag_uv s) init_world"

lemma reachable_after: "reachable flag_uv (after s)"
  unfolding after_def by (intro reachable.step[OF reachable.start] loop_step.prepare)

abbreviation fin :: lua_script where
  "fin \<equiv> Done (Returned True Nil_val)"

lemmas eval_defs = after_def run_user_threads_def init_world_def flag_uv_def new_connection_lua_def
  new_connection_def new_user_timer_def clear_user_timer_def Let_def

section \<open>Memory safety\<close>

text \<open>
  C16 No use after free: in every state that the event loop can reach, whatever callbacks libuv runs and
  whatever the resumed Lua threads do, no C function has accessed a timer or a connection that is not
  allocated.
\<close>

theorem no_use_after_free:
  assumes "uv_contract uv" "reachable uv w"
  shows "\<not> crashed w"
  using world_okD(1)[OF reachable_ok[OF assms(2,1)]] .

definition busy_script :: lua_script where
  "busy_script = Call (New_timer True True) fin fin (Call (Start_timer 0 0 5) fin fin
     (Call (New_connection True True) fin fin (Call (Write_conn 0 0 1 7 ''x'' 0) fin fin
       (Call (Delete_timer 0) fin fin (Call (Close_conn 1) fin fin fin)))))"

theorem no_use_after_free_witness:
  "uv_contract flag_uv \<and> reachable flag_uv (after busy_script) \<and> \<not> crashed (after busy_script)"
  using no_use_after_free[OF flag_uv_contract reachable_after] flag_uv_contract reachable_after by simp

text \<open>
  C19 What Lua or libuv can still reach is allocated: the object behind a userdata that is not cleared,
  behind a handle whose close callback has not run, and behind a write or connect request in flight.
\<close>

theorem no_dangling_pointer:
  assumes "uv_contract uv" "reachable uv w"
  shows "(timer_refs w r = Some a \<longrightarrow> timers w a \<noteq> None) \<and>
    (conn_refs w r = Some a \<longrightarrow> conns w a \<noteq> None) \<and>
    (loop_handles w (User_timer a) \<longrightarrow> timers w a \<noteq> None) \<and>
    (loop_handles w (Tcp a) \<or> loop_handles w (Read_timer a) \<or> loop_handles w (Write_timer a) \<or>
     writes w a > 0 \<or> connects w a > 0 \<longrightarrow> conns w a \<noteq> None)"
  using world_okD(2,3)[OF reachable_ok[OF assms(2,1)]]
  unfolding timers_ok_def conns_ok_def by fastforce

theorem no_dangling_pointer_witness:
  "uv_contract flag_uv \<and> reachable flag_uv (after busy_script) \<and>
   writes (after busy_script) 1 > 0 \<and> conns (after busy_script) 1 \<noteq> None"
proof -
  have "writes (after busy_script) 1 > 0"
    by (simp add: busy_script_def eval_defs start_user_timer_def write_buffer_def close_timer_lua_def
      close_timer_def with_timer_def close_connection_lua_def close_connection_def with_conn_def
      delink_conn_def unblock_reader_def unblock_writer_def close_handles_def)
  then show ?thesis
    using no_dangling_pointer[OF flag_uv_contract reachable_after, of busy_script 0 1]
      flag_uv_contract reachable_after by simp
qed

text \<open>
  C17 The reference counts are exact: the count of a timer is the number of its two holders, the userdata
  and the handle; the count of a connection is the number of its holders, the userdata, three handles and
  the write in flight, unless writes have overlapped. The count of an allocated object is positive, so an
  object is freed when its last holder lets go of it.
\<close>

theorem reference_counts_exact:
  assumes "uv_contract uv" "reachable uv w"
  shows "(\<forall>t. timers w a = Some t \<longrightarrow> 0 < tm_ref_count t \<and>
      tm_ref_count t = of_bool (tm_lua_ref t \<noteq> None) + of_bool (loop_handles w (User_timer a))) \<and>
    (\<forall>c. conns w a = Some c \<and> \<not> overlapped w a \<longrightarrow> 0 < c_ref_count c \<and>
      c_ref_count c = of_bool (c_lua_ref c \<noteq> None) + of_bool (loop_handles w (Tcp a))
        + of_bool (loop_handles w (Read_timer a)) + of_bool (loop_handles w (Write_timer a))
        + int (writes w a))"
proof (intro conjI allI impI)
  note ok = world_okD(2,3)[OF reachable_ok[OF assms(2,1)]]
  fix t assume "timers w a = Some t"
  from timers_okD[OF ok(1) this]
  show "0 < tm_ref_count t"
    "tm_ref_count t = of_bool (tm_lua_ref t \<noteq> None) + of_bool (loop_handles w (User_timer a))"
    by (auto simp: timer_ok_def)
next
  note ok = world_okD(2,3)[OF reachable_ok[OF assms(2,1)]]
  fix c assume "conns w a = Some c \<and> \<not> overlapped w a"
  then have "conn_ok uv {} (\<lambda>_. 0) w a c" "\<not> overlapped w a" using conns_okD[OF ok(2)] by auto
  then have "refs_ok (\<lambda>_. 0) w a c" "data_ok w a c" by (simp_all add: conn_ok_def)
  with \<open>\<not> overlapped w a\<close> show "0 < c_ref_count c"
    "c_ref_count c = of_bool (c_lua_ref c \<noteq> None) + of_bool (loop_handles w (Tcp a))
        + of_bool (loop_handles w (Read_timer a)) + of_bool (loop_handles w (Write_timer a))
        + int (writes w a)"
    by (auto simp: refs_ok_def data_ok_def holders_def)
qed

theorem reference_counts_exact_witness:
  "uv_contract flag_uv \<and> reachable flag_uv (after busy_script) \<and>
   (\<exists>c. conns (after busy_script) 1 = Some c \<and> \<not> overlapped (after busy_script) 1 \<and> c_ref_count c = 4)"
proof -
  let ?w = "after busy_script"
  obtain c where c: "conns ?w 1 = Some c" "c_lua_ref c = None" "\<not> overlapped ?w 1" "writes ?w 1 = 1"
      "loop_handles ?w (Tcp 1)" "loop_handles ?w (Read_timer 1)" "loop_handles ?w (Write_timer 1)"
    by (simp add: busy_script_def eval_defs start_user_timer_def write_buffer_def close_timer_lua_def
      close_timer_def with_timer_def close_connection_lua_def close_connection_def with_conn_def
      delink_conn_def unblock_reader_def unblock_writer_def close_handles_def)
  then show ?thesis using reference_counts_exact[OF flag_uv_contract reachable_after, of busy_script 1]
      flag_uv_contract reachable_after by simp
qed


section \<open>Who is woken, and with what\<close>

text \<open>
  C20 A thread that waits on a timer is not forgotten: libuv holds an active handle for the timer, and
  when it fires the thread is resumed with \<open>true, true\<close> and the timer can be started again.
\<close>

theorem waiting_thread_wakes:
  assumes "uv_contract uv" "reachable uv w" "timers w a = Some t" "tm_lua_tid t \<noteq> 0"
  shows "loop_handles w (User_timer a) \<and> uv_is_active uv (tm_handle t) \<and>
    (let w' = fire_user_timer uv (run_lua uv (Done out)) a w in
      loop_step uv w w' \<and> resumed w' = resumed w @ [(tm_lua_tid t, [Bool_val True, Bool_val True])] \<and>
      map_option tm_state (timers w' a) = Some INIT)"
proof -
  have t: "timer_ok uv {} w a t"
    using timers_okD[OF world_okD(2)[OF reachable_ok[OF assms(2,1)]] assms(3)] .
  then have "tm_data t = Some a" "loop_handles w (User_timer a)" "uv_is_active uv (tm_handle t)"
    using assms(4) by (auto simp: timer_ok_def)
  then show ?thesis using assms(3,4) loop_step.user_timer[of w a uv "Done out"]
    by (simp add: fire_user_timer_def with_timer_def on_user_timer_timeout_def resume_quiet
      clear_user_timer_def Let_def)
qed

definition waiting_script :: lua_script where
  "waiting_script = Call (New_timer True True) fin fin (Call (Start_timer 0 0 5) fin fin
     (Call (Wait_timer 0 7) fin fin fin))"

theorem waiting_thread_wakes_witness:
  "\<exists>t. timers (after waiting_script) 0 = Some t \<and> tm_lua_tid t = 7 \<and>
    resumed (fire_user_timer flag_uv (run_lua flag_uv fin) 0 (after waiting_script)) =
      [(7, [Bool_val True, Bool_val True])]"
proof -
  obtain t where t: "timers (after waiting_script) 0 = Some t" "tm_lua_tid t = 7"
      "resumed (after waiting_script) = []"
    by (simp add: waiting_script_def eval_defs start_user_timer_def wait_user_timer_def)
  then show ?thesis
    using waiting_thread_wakes[OF flag_uv_contract reachable_after t(1), of "Returned True Nil_val"]
    by (simp add: Let_def)
qed

text \<open>
  C21 What the peer sends reaches the thread that is reading: the thread gets the bytes, at most one
  buffer full, and is no longer recorded as reading.
\<close>

theorem reader_gets_data:
  assumes "uv_contract uv" "reachable uv w" "conns w a = Some c" "c_lua_ref c \<noteq> None"
    "uv_is_active uv (c_handle c)" "lua_reader_tid c \<noteq> 0" "sent \<noteq> []"
  shows "let w' = deliver uv (run_lua uv (Done out)) l2 a sent w in
    resumed w' = resumed w @ [(lua_reader_tid c, [Bool_val True, Str_val (take CONN_BUFFER_SIZE sent)])] \<and>
    map_option lua_reader_tid (conns w' a) = Some 0"
proof -
  have "conn_ok uv {} (\<lambda>_. 0) w a c"
    using conns_okD[OF world_okD(3)[OF reachable_ok[OF assms(2,1)]] assms(3)] .
  then have c: "c_data c = Some a" "read_len c = 0" "length (read_buffer c) = CONN_BUFFER_SIZE"
    using assms(4) by (auto simp: conn_ok_def data_ok_def link_ok_def buf_ok_def)
  show ?thesis using assms(3,5-) c
    by (simp add: deliver_def with_conn_def on_alloc_def on_read_def Let_def resume_quiet UV_ENOBUFS_def
      CONN_BUFFER_SIZE_def min_def)
qed

definition reading_script :: "tid \<Rightarrow> lua_script" where
  "reading_script tid = Call (New_connection True True) fin fin (Call (Start_reading 0 0) fin fin
     (if tid = 0 then fin else Call (Read_conn 0 0 tid 0) fin fin fin))"

theorem reader_gets_data_witness:
  "resumed (deliver flag_uv (run_lua flag_uv fin) (run_lua flag_uv fin) 0 ''GET'' (after (reading_script 7))) =
    [(7, [Bool_val True, Str_val ''GET''])]"
proof -
  obtain c where c: "conns (after (reading_script 7)) 0 = Some c" "c_lua_ref c \<noteq> None"
      "uv_is_active flag_uv (c_handle c)" "lua_reader_tid c = 7" "resumed (after (reading_script 7)) = []"
    by (simp add: reading_script_def eval_defs start_reading_def read_check_def start_timer_def)
  then show ?thesis
    using reader_gets_data[OF flag_uv_contract reachable_after c(1), of "''GET''" "Returned True Nil_val"]
    by (simp add: Let_def CONN_BUFFER_SIZE_def)
qed

text \<open>
  C36 Data that arrives while no thread is reading is lost: no thread is told, the buffer counts as empty
  again, and every later read waits for new data.
\<close>

theorem unread_data_lost:
  assumes "uv_contract uv" "reachable uv w" "conns w a = Some c" "c_lua_ref c \<noteq> None"
    "uv_is_active uv (c_handle c)" "lua_reader_tid c = 0" "sent \<noteq> []"
  shows "let w' = deliver uv l1 l2 a sent w in
    resumed w' = resumed w \<and> map_option read_len (conns w' a) = Some 0"
proof -
  have "conn_ok uv {} (\<lambda>_. 0) w a c"
    using conns_okD[OF world_okD(3)[OF reachable_ok[OF assms(2,1)]] assms(3)] .
  then have c: "c_data c = Some a" "read_len c = 0" "length (read_buffer c) = CONN_BUFFER_SIZE"
    using assms(4) by (auto simp: conn_ok_def data_ok_def link_ok_def buf_ok_def)
  show ?thesis using assms(3,5-) c
    by (simp add: deliver_def with_conn_def on_alloc_def on_read_def Let_def UV_ENOBUFS_def
      CONN_BUFFER_SIZE_def resume_global_def resume_lua_thread_def lua_tointeger_def)
qed

theorem unread_data_lost_witness:
  "resumed (deliver flag_uv (run_lua flag_uv fin) (run_lua flag_uv fin) 0 ''GET'' (after (reading_script 0))) = []"
proof -
  obtain c where c: "conns (after (reading_script 0)) 0 = Some c" "c_lua_ref c \<noteq> None"
      "uv_is_active flag_uv (c_handle c)" "lua_reader_tid c = 0" "resumed (after (reading_script 0)) = []"
    by (simp add: reading_script_def eval_defs start_reading_def)
  then show ?thesis
    using unread_data_lost[OF flag_uv_contract reachable_after c(1), of "''GET''"] by (simp add: Let_def)
qed


lemma resume_not_fn:
  "stack w = v # u # x # y # st \<Longrightarrow> y \<noteq> Resume_fn \<Longrightarrow> resumed (resume_global lua 3 w) = resumed w"
  by (simp add: resume_global_def resume_lua_thread_def Let_def)

text \<open>
  A connection attempt that fails wakes the connecting thread once: closing the connection resumes
  it, and the second \<open>resume_lua_thread\<close> of \<open>on_client_connect\<close> finds the results of the first one where
  it expects the thread id.
\<close>

theorem failed_connect_wakes_once:
  assumes "conns w a = Some c" "c_lua_ref c \<noteq> None" "lua_writer_tid c \<noteq> 0" "lua_reader_tid c = 0"
    "status \<noteq> 0"
  shows "resumed (on_client_connect uv l1 (run_lua uv (Done out)) (run_lua uv (Done out')) a status w) =
    resumed w @ [(lua_writer_tid c, writer_result status)]"
proof -
  obtain r where r: "c_lua_ref c = Some r" using assms(2) by blast
  obtain u v where wr: "writer_result status = [u, v]"
    by (cases "status = 0 \<or> status = UV_EOF") (auto simp: writer_result_def)
  show ?thesis using assms r
    by (cases out) (simp_all add: on_client_connect_def with_conn_def close_connection_def delink_conn_def
      close_handles_def unblock_reader_def unblock_writer_def resume_quiet resume_not_fn Let_def wr)
qed

theorem failed_connect_wakes_once_witness:
  "\<exists>c. conns (after (Call (Connect ''10.0.0.1'' 80 7 0 True True True True 0 0) fin fin fin)) 0 = Some c \<and>
    lua_writer_tid c = 7 \<and>
    resumed (on_client_connect flag_uv (run_lua flag_uv fin) (run_lua flag_uv fin) (run_lua flag_uv fin) 0 (- 111)
      (after (Call (Connect ''10.0.0.1'' 80 7 0 True True True True 0 0) fin fin fin))) =
      [(7, [Bool_val False, Err (- 111)])]"
proof -
  let ?w = "after (Call (Connect ''10.0.0.1'' 80 7 0 True True True True 0 0) fin fin fin)"
  obtain c where c: "conns ?w 0 = Some c" "c_lua_ref c \<noteq> None" "lua_writer_tid c = 7" "lua_reader_tid c = 0"
      "resumed ?w = []"
    by (simp add: eval_defs client_connect_def start_timer_def)
  then show ?thesis
    using failed_connect_wakes_once[OF c(1,2) _ c(4), of "- 111" flag_uv "run_lua flag_uv fin"]
    by (simp add: writer_result_def UV_EOF_def)
qed

section \<open>Histories that go wrong\<close>

lemmas tcp_defs = write_buffer_def start_reading_def read_check_def client_connect_def start_timer_def
  stop_timer_def close_connection_lua_def close_connection_def with_conn_def delink_conn_def
  unblock_reader_def unblock_writer_def close_handles_def close_if_active_def

definition connect_script :: lua_script where
  "connect_script = Call (Connect ''10.0.0.1'' 80 7 0 True True True True 0 0) fin fin fin"

definition stale_run :: "(bool \<times> bool) luaw" where
  "stale_run =
     (let lua = run_lua flag_uv fin;
          reader = run_lua flag_uv (Call (Start_reading 0 0) fin fin (Call (Read_conn 0 0 7 0) fin fin fin));
          w = complete_connect flag_uv lua lua reader 0 0 (after connect_script)
      in read_error flag_uv lua lua 0 UV_EOF w)"

text \<open>
  A connected thread is resumed once too often: a successful \<open>on_client_connect\<close> does not clear the
  writer's thread id. When the peer closes the connection while the thread is reading, the thread is
  resumed as the reader, with the end of the stream, and again as the writer, with success.
\<close>

theorem stale_writer_resumed:
  "reachable flag_uv stale_run \<and> resumed stale_run =
     [(7, [Bool_val True, Nil_val]), (7, [Bool_val False, Str_val ''EOF'']), (7, [Bool_val True, Int_val 0])]"
proof -
  note eval = stale_run_def connect_script_def eval_defs tcp_defs complete_connect_def on_client_connect_def
    read_error_def on_read_def resume_global_def resume_lua_thread_def lua_tointeger_def uv_codes
    reader_result_def writer_result_def
  have "reachable flag_uv stale_run"
    unfolding stale_run_def Let_def
    by (rule reachable.step[OF _ loop_step.read_failed], rule reachable.step[OF _ loop_step.connect_done],
      rule reachable_after) (simp add: eval)
  moreover have "resumed stale_run =
     [(7, [Bool_val True, Nil_val]), (7, [Bool_val False, Str_val ''EOF'']), (7, [Bool_val True, Int_val 0])]"
    by (simp add: eval)
  ultimately show ?thesis by blast
qed

text \<open>
  C37 A thread that deletes the timer whose wait is being cancelled is resumed twice: in every reachable state, when
  a thread waits on a timer and Lua code stops the timer, \<open>stop_user_timer\<close> resumes the waiting thread before it
  clears the thread id. If that thread then deletes the timer, \<open>close_timer\<close> resumes it again, from inside its
  own first resumption and with the same arguments.
\<close>

theorem stop_then_delete_resumes_twice:
  assumes "uv_contract uv" "reachable uv w" "timer_refs w r = Some a" "timers w a = Some t" "tm_lua_tid t \<noteq> 0"
  shows "let woken = Call (Delete_timer r) (Done o1) s1 (Done o2);
      w' = run_user_threads (run_lua uv (Call (Stop_timer r) woken s2 (Done o3))) w in
    loop_step uv w w' \<and> timer_refs w' r = None \<and>
    resumed w' = resumed w @
      [(tm_lua_tid t, [Bool_val False, Err UV_ECANCELED]), (tm_lua_tid t, [Bool_val False, Err UV_ECANCELED])]"
proof -
  note ok = world_okD(2)[OF reachable_ok[OF assms(2,1)]]
  have tok: "timer_ok uv {} w a t" using timers_okD[OF ok assms(4)] .
  obtain u where "timers w a = Some u" "tm_lua_ref u = Some r" using ok assms(3) unfolding timers_ok_def by blast
  then have t: "tm_state t = TICKING" "tm_lua_ref t = Some r"
    using tok assms(4,5) by (auto simp: timer_ok_def)
  let ?woken = "Call (Delete_timer r) (Done o1) s1 (Done o2)"
  let ?w = "run_user_threads (run_lua uv (Call (Stop_timer r) ?woken s2 (Done o3))) w"
  let ?c = "(tm_lua_tid t, [Bool_val False, Err UV_ECANCELED])"
  have "resumed ?w = resumed w @ [?c, ?c] \<and> timer_refs ?w r = None"
    using assms(3-5) t
    by (auto simp: run_user_threads_def stop_user_timer_def close_timer_lua_def close_timer_def with_timer_def
      snd_resume lua_tointeger_def resume_quiet Let_def split: lua_outcome.split)
  moreover have "loop_step uv w ?w" by (rule loop_step.prepare)
  ultimately show ?thesis by (simp add: Let_def)
qed

theorem stop_then_delete_resumes_twice_witness:
  "resumed (run_user_threads (run_lua flag_uv
      (Call (Stop_timer 0) (Call (Delete_timer 0) fin fin fin) fin fin)) (after waiting_script)) =
    [(7, [Bool_val False, Err UV_ECANCELED]), (7, [Bool_val False, Err UV_ECANCELED])]"
proof -
  obtain t where t: "timers (after waiting_script) 0 = Some t" "tm_lua_tid t = 7"
      "timer_refs (after waiting_script) 0 = Some 0" "resumed (after waiting_script) = []"
    by (simp add: waiting_script_def eval_defs start_user_timer_def wait_user_timer_def)
  then show ?thesis
    using stop_then_delete_resumes_twice[OF flag_uv_contract reachable_after t(3,1)] by (simp add: Let_def)
qed
end
