(* ===== verification/Luaw_Logging.thy ===== *)
theory Luaw_Logging
  imports Luaw_Prelude
begin

text \<open>
  Logging, \<^verbatim>\<open>src/src/luaw_logging.c\<close>: the log file with its three states, written through asynchronous
  file requests of libuv, and the connection to a syslog server. Requests in flight are a list; the
  environment chooses which one completes next and with which result.
\<close>

section \<open>State\<close>

datatype logfile_sate = LOG_NOT_OPEN | OPENING_LOG | LOG_IS_OPEN

text \<open>
  A request carries the file it works on and, for a write, whether its callback is \<open>close_log\<close> (the
  last write before a rotation) or \<open>on_log_write\<close>. \<open>fds\<close> are the descriptors that the operating system
  has open and \<open>leaked\<close> counts the copies of messages that nothing frees.
\<close>

datatype fs_req = Open_req | Write_req int bool | Close_req int

record log =
  log_state :: logfile_sate
  logfile :: int
  requests :: "fs_req list"
  fds :: "int set"
  leaked :: nat
  hostname :: string
  log_sock_fd :: int

definition init_log :: log where
  "init_log = \<lparr> log_state = LOG_NOT_OPEN, logfile = 0, requests = [], fds = {}, leaked = 0,
     hostname = [], log_sock_fd = - 1 \<rparr>"

section \<open>Operations\<close>

text \<open>\<open>name\<close> is what \<open>gethostname\<close> writes when it succeeds.\<close>

definition get_hostname :: "int \<Rightarrow> string \<Rightarrow> log \<Rightarrow> string \<times> log" where
  "get_hostname rc name l =
     (let l = (if hostname l = [] then l\<lparr>hostname := if rc < 0 then ''localhost'' else name\<rparr> else l)
      in (hostname l, l))"

definition get_logging_state :: "log \<Rightarrow> logfile_sate" where
  "get_logging_state l = log_state l"

definition on_log_open :: "int \<Rightarrow> log \<Rightarrow> log" where
  "on_log_open result l = l\<lparr>logfile := result, log_state := LOG_IS_OPEN\<rparr>"

definition open_log_file :: "string option \<Rightarrow> bool \<Rightarrow> int \<Rightarrow> log \<Rightarrow> log" where
  "open_log_file filename req_ok rc l =
     (if log_state l = LOG_NOT_OPEN \<and> filename \<noteq> None \<and> req_ok \<and> rc = 0
      then l\<lparr>log_state := OPENING_LOG, requests := requests l @ [Open_req]\<rparr>
      else l)"

text \<open>\<open>close_log\<close> closes the file that \<open>logfile\<close> names when it runs.\<close>

definition close_log :: "log \<Rightarrow> log" where
  "close_log l = l\<lparr>requests := requests l @ [Close_req (logfile l)]\<rparr>"

definition on_log_write :: "int \<Rightarrow> log \<Rightarrow> log" where
  "on_log_write result l =
     (if result \<ge> 0 then l else close_log (l\<lparr>log_state := LOG_NOT_OPEN\<rparr>))"

text \<open>
  \<open>write_log\<close>: \<open>str\<close> is \<^const>\<open>None\<close> when the argument is not a string, \<open>mesg_ok\<close> and \<open>req_ok\<close> are the results
  of the two allocations and \<open>rc\<close> that of \<open>uv_fs_write\<close>, which the rotating branch ignores.
\<close>

definition write_log :: "string option \<Rightarrow> bool \<Rightarrow> bool \<Rightarrow> bool \<Rightarrow> int \<Rightarrow> log \<Rightarrow> logfile_sate \<times> log" where
  "write_log str rotate_log mesg_ok req_ok rc l =
     (let l = (if log_state l = LOG_IS_OPEN \<and> str \<noteq> None \<and> mesg_ok \<and> req_ok then
                 let l' = l\<lparr>leaked := leaked l + 1\<rparr> in
                 if \<not> rotate_log then
                   if rc \<noteq> 0 then close_log (l'\<lparr>log_state := LOG_NOT_OPEN\<rparr>)
                   else l'\<lparr>requests := requests l' @ [Write_req (logfile l') False]\<rparr>
                 else
                   let l' = l'\<lparr>log_state := LOG_NOT_OPEN\<rparr> in
                   if rc = 0 then l'\<lparr>requests := requests l' @ [Write_req (logfile l') True]\<rparr> else l'
               else l)
      in (log_state l, l))"

text \<open>\<open>connect_to_syslog\<close> with the results of \<open>getaddrinfo\<close>, \<open>socket\<close> and \<open>fcntl\<close>; the first component is
  the boolean that it returns.\<close>

definition connect_to_syslog :: "bool \<Rightarrow> bool \<Rightarrow> int \<Rightarrow> int \<Rightarrow> int \<Rightarrow> log \<Rightarrow> bool \<times> log" where
  "connect_to_syslog has_ip has_port gai_rc sock_rc fcntl_rc l =
     (if has_ip \<and> has_port then
        if gai_rc \<noteq> 0 then (\<not> gai_rc < 0, l)
        else if sock_rc < 0 then (False, l)
        else (\<not> fcntl_rc < 0, l\<lparr>log_sock_fd := sock_rc\<rparr>)
      else (False, l))"

text \<open>The datagram that \<open>send_to_syslog\<close> sends, if any.\<close>

definition send_to_syslog :: "string option \<Rightarrow> log \<Rightarrow> (int \<times> string) option" where
  "send_to_syslog mesg l =
     (case mesg of
        Some m \<Rightarrow> if log_sock_fd l > 0 \<and> length m > 0 then Some (log_sock_fd l, m) else None
      | None \<Rightarrow> None)"

section \<open>The event loop\<close>

text \<open>
  The completion of request \<open>i\<close> with \<open>result\<close>: the operating system has opened or closed the file, and the
  callback runs. \<open>on_log_close\<close> only frees the request.
\<close>

definition complete :: "nat \<Rightarrow> int \<Rightarrow> log \<Rightarrow> log" where
  "complete i result l =
     (if i < length (requests l) then
        let l' = l\<lparr>requests := take i (requests l) @ drop (Suc i) (requests l)\<rparr> in
        case requests l ! i of
          Open_req \<Rightarrow> on_log_open result (if result \<ge> 0 then l'\<lparr>fds := insert result (fds l')\<rparr> else l')
        | Write_req f rotating \<Rightarrow> if rotating then close_log l' else on_log_write result l'
        | Close_req f \<Rightarrow> l'\<lparr>fds := fds l' - {f}\<rparr>
      else l)"

inductive log_step :: "log \<Rightarrow> log \<Rightarrow> bool" where
  open_step: "log_step l (open_log_file filename req_ok rc l)"
| write_step: "log_step l (snd (write_log str rotate_log mesg_ok req_ok rc l))"
| complete_step: "result \<notin> fds l \<Longrightarrow> log_step l (complete i result l)"

inductive log_reachable :: "log \<Rightarrow> bool" where
  log_init: "log_reachable init_log"
| log_more: "log_reachable l \<Longrightarrow> log_step l l' \<Longrightarrow> log_reachable l'"

text \<open>
  The same in a quiet environment: requests are accepted, complete in the order of their submission and
  succeed, and a file that is opened gets a descriptor that is not in use.
\<close>

inductive fifo_step :: "log \<Rightarrow> log \<Rightarrow> bool" where
  fifo_open: "fifo_step l (open_log_file filename req_ok 0 l)"
| fifo_write: "fifo_step l (snd (write_log str rotate_log mesg_ok req_ok 0 l))"
| fifo_complete: "result \<ge> 0 \<Longrightarrow> result \<notin> fds l \<Longrightarrow> fifo_step l (complete 0 result l)"

inductive fifo_reachable :: "log \<Rightarrow> bool" where
  fifo_init: "fifo_reachable init_log"
| fifo_more: "fifo_reachable l \<Longrightarrow> fifo_step l l' \<Longrightarrow> fifo_reachable l'"

section \<open>Properties\<close>

text \<open>
  The invariant of the quiet environment: at most one rotating write and one open are in flight, the
  rotating write comes first, and a file is closed at most once and not while it is the open log.
\<close>

fun is_rotating :: "fs_req \<Rightarrow> bool" where
  "is_rotating (Write_req f b) = b"
| "is_rotating _ = False"

fun rotates_first :: "fs_req list \<Rightarrow> bool" where
  "rotates_first [] \<longleftrightarrow> True"
| "rotates_first (r # rs) \<longleftrightarrow> (r = Open_req \<longrightarrow> \<not> list_ex is_rotating rs) \<and> rotates_first rs"

definition fifo_ok :: "log \<Rightarrow> bool" where
  "fifo_ok l \<longleftrightarrow>
     count_list (requests l) Open_req = (if log_state l = OPENING_LOG then 1 else 0) \<and>
     length (filter is_rotating (requests l)) \<le> 1 \<and>
     rotates_first (requests l) \<and>
     (list_ex is_rotating (requests l) \<longrightarrow> log_state l \<noteq> LOG_IS_OPEN) \<and>
     (log_state l = LOG_IS_OPEN \<or> list_ex is_rotating (requests l) \<longrightarrow>
        logfile l \<in> fds l \<and> Close_req (logfile l) \<notin> set (requests l)) \<and>
     (\<forall>f. Close_req f \<in> set (requests l) \<longrightarrow> f \<in> fds l) \<and>
     (\<forall>f. count_list (requests l) (Close_req f) \<le> 1)"

lemma rotates_first_append:
  "rotates_first rs \<Longrightarrow> \<not> is_rotating r \<or> Open_req \<notin> set rs \<Longrightarrow> rotates_first (rs @ [r])"
  by (induction rs) auto

lemma no_rotating: "\<not> list_ex is_rotating rs \<longleftrightarrow> filter is_rotating rs = []"
  by (simp add: list_ex_iff filter_empty_conv)

lemma count_0: "count_list rs x = 0 \<longleftrightarrow> x \<notin> set rs"
  by (simp add: count_list_0_iff)

lemma fifo_open_ok: "fifo_ok l \<Longrightarrow> fifo_ok (open_log_file filename req_ok 0 l)"
  by (auto simp: fifo_ok_def open_log_file_def rotates_first_append count_0)

lemma fifo_write_ok: "fifo_ok l \<Longrightarrow> fifo_ok (snd (write_log str rot mesg_ok req_ok 0 l))"
  by (auto simp: fifo_ok_def write_log_def Let_def rotates_first_append count_0 no_rotating)

lemma fifo_complete_ok:
  assumes "fifo_ok l" "result \<ge> 0" "result \<notin> fds l"
  shows "fifo_ok (complete 0 result l)"
proof (cases "requests l")
  case Nil
  then show ?thesis using assms by (simp add: complete_def)
next
  case (Cons r rs)
  show ?thesis
  proof (cases r)
    case Open_req
    then show ?thesis using assms Cons
      by (auto simp: complete_def fifo_ok_def on_log_open_def split: if_splits)
  next
    case (Write_req f b)
    then show ?thesis using assms Cons
      by (cases b) (auto simp: complete_def fifo_ok_def on_log_write_def close_log_def rotates_first_append
        no_rotating count_0)
  next
    case (Close_req f)
    let ?l = "l\<lparr>requests := rs, fds := fds l - {f}\<rparr>"
    have eq: "complete 0 result l = ?l" using Cons Close_req by (simp add: complete_def)
    have "count_list (requests l) (Close_req f) \<le> 1" using assms(1) by (simp add: fifo_ok_def)
    then have f: "Close_req f \<notin> set rs" using Cons Close_req by (simp add: count_0)
    have n: "count_list rs (Close_req g) \<le> 1" for g
    proof -
      have "count_list (requests l) (Close_req g) \<le> 1" using assms(1) by (simp add: fifo_ok_def)
      then show ?thesis using Cons Close_req by (simp split: if_splits)
    qed
    have c: "g \<in> fds l - {f}" if "Close_req g \<in> set rs" for g
    proof -
      have "g \<in> fds l" using assms(1) that Cons by (simp add: fifo_ok_def)
      then show ?thesis using f that by auto
    qed
    have o: "logfile l \<in> fds l - {f} \<and> Close_req (logfile l) \<notin> set rs"
      if "log_state l = LOG_IS_OPEN \<or> list_ex is_rotating rs"
      using assms(1) that Cons Close_req by (simp add: fifo_ok_def)
    show ?thesis unfolding eq using assms(1) Cons Close_req n c o by (simp add: fifo_ok_def)
  qed
qed

text \<open>
  C23 In a quiet environment the state of the log is true: whenever it says that the log is open, the log
  file is an open descriptor, and it is not about to be closed. Rotation closes the old file only.
\<close>

theorem log_open_is_open:
  assumes "fifo_reachable l" "log_state l = LOG_IS_OPEN"
  shows "logfile l \<in> fds l \<and> Close_req (logfile l) \<notin> set (requests l)"
proof -
  have "fifo_ok l" using assms(1)
  proof induction
    case fifo_init
    show ?case by (simp add: fifo_ok_def init_log_def)
  next
    case (fifo_more l l')
    from fifo_more.hyps(2) fifo_more.IH show ?case
      by cases (auto intro: fifo_open_ok fifo_write_ok fifo_complete_ok)
  qed
  then show ?thesis using assms(2) by (simp add: fifo_ok_def)
qed

text \<open>Opening a log, rotating it and opening the next one.\<close>

definition opened :: log where
  "opened = complete 0 3 (open_log_file (Some ''a.log'') True 0 init_log)"

definition rotated :: log where
  "rotated = open_log_file (Some ''b.log'') True 0 (snd (write_log (Some ''last'') True True True 0 opened))"

lemma fifo_rotated: "fifo_reachable rotated" "log_reachable rotated"
  unfolding rotated_def opened_def
  by (intro fifo_more[OF _ fifo_open] fifo_more[OF _ fifo_write] fifo_more[OF _ fifo_complete] fifo_init
        log_more[OF _ open_step] log_more[OF _ write_step] log_more[OF _ complete_step] log_init;
      simp add: init_log_def open_log_file_def)+

lemmas log_eval = rotated_def opened_def complete_def open_log_file_def write_log_def close_log_def
  on_log_open_def init_log_def Let_def

theorem log_open_is_open_witness:
  "fifo_reachable (complete 0 4 (complete 0 0 rotated)) \<and>
   log_state (complete 0 4 (complete 0 0 rotated)) = LOG_IS_OPEN \<and>
   logfile (complete 0 4 (complete 0 0 rotated)) = 4 \<and> 4 \<in> fds (complete 0 4 (complete 0 0 rotated))"
proof -
  let ?l = "complete 0 4 (complete 0 0 rotated)"
  have "fifo_reachable ?l"
    by (intro fifo_more[OF _ fifo_complete] fifo_rotated; simp add: log_eval)
  moreover have "log_state ?l = LOG_IS_OPEN" "logfile ?l = 4" by (simp_all add: log_eval)
  ultimately show ?thesis using log_open_is_open[of ?l] by simp
qed

text \<open>
  C39 Rotation can close the new log: \<open>close_log\<close> reads the global \<open>logfile\<close> when the last write to the
  old log completes. If the new log has been opened by then, the new file is closed, the old one stays
  open for ever, and the state still says that the log is open.
\<close>

theorem rotation_closes_new_log:
  "\<exists>l. log_reachable l \<and> log_state l = LOG_IS_OPEN \<and> requests l = [] \<and> logfile l = 4 \<and> fds l = {3}"
proof -
  let ?l = "complete 0 9 (complete 0 0 (complete 1 4 rotated))"
  have "log_reachable ?l"
    by (intro log_more[OF _ complete_step] fifo_rotated; simp add: log_eval)
  moreover have "log_state ?l = LOG_IS_OPEN" "requests ?l = []" "logfile ?l = 4" "fds ?l = {3}"
    by (simp_all add: log_eval)
  ultimately show ?thesis by blast
qed

text \<open>
  A log that cannot be opened counts as open: \<open>on_log_open\<close> does not look at the result of the
  request, so a failed open leaves the state open with an error code for a descriptor.
\<close>

theorem failed_open_counts_as_open:
  assumes "log_state l = LOG_NOT_OPEN" "result < 0" "requests l = []"
  shows "let l' = complete 0 result (open_log_file (Some name) True 0 l) in
    log_state l' = LOG_IS_OPEN \<and> logfile l' = result \<and> fds l' = fds l"
  using assms by (simp add: log_eval)

theorem failed_open_counts_as_open_witness:
  "log_state (complete 0 (- 13) (open_log_file (Some ''a.log'') True 0 init_log)) = LOG_IS_OPEN"
  using failed_open_counts_as_open[of init_log "- 13" "''a.log''"] by (simp add: init_log_def Let_def)

end
