(* ===== verification/Luaw_Startup.thy ===== *)
theory Luaw_Startup
  imports Luaw_Prelude
begin

text \<open>
  Start-up of the server, \<^verbatim>\<open>src/src/luaw_server.c\<close>: reading a Lua file for \<open>lua_load\<close>, and \<open>init_luaw_server\<close>,
  which looks up the functions of the scheduler and the address to listen on.
\<close>

section \<open>Loading a Lua file\<close>

definition LUA_LOAD_FILE_BUFF_SIZE :: nat where
  "LUA_LOAD_FILE_BUFF_SIZE = 1024"

text \<open>
  The stream is what is left to read and its end-of-file indicator, which a read sets when it returns
  fewer bytes than it was asked for; \<^const>\<open>None\<close> is \<open>NULL\<close>.
\<close>

record lua_load_buffer =
  lb_file :: "(string \<times> bool) option"
  epilogue :: "string option"

text \<open>The block that the reader hands to Lua (\<^const>\<open>None\<close> for \<open>NULL\<close>).\<close>

definition lua_file_reader :: "lua_load_buffer \<Rightarrow> string option \<times> lua_load_buffer" where
  "lua_file_reader lb =
     (case lb_file lb of
        None \<Rightarrow> (None, lb)
      | Some (rest, eof) \<Rightarrow>
          if eof then (epilogue lb, lb\<lparr>lb_file := None\<rparr>)
          else (Some (take LUA_LOAD_FILE_BUFF_SIZE rest),
                lb\<lparr>lb_file := Some (drop LUA_LOAD_FILE_BUFF_SIZE rest, length rest < LUA_LOAD_FILE_BUFF_SIZE)\<rparr>))"

text \<open>
  \<open>lua_load\<close> concatenates the blocks of its reader until the reader returns \<open>NULL\<close> or a block of size
  zero.
\<close>

definition left_to_read :: "lua_load_buffer \<Rightarrow> nat" where
  "left_to_read lb = (case lb_file lb of None \<Rightarrow> 0 | Some (rest, eof) \<Rightarrow> length rest + (if eof then 1 else 2))"

function lua_load :: "lua_load_buffer \<Rightarrow> string \<times> lua_load_buffer" where
  "lua_load lb =
     (case lua_file_reader lb of
        (None, lb') \<Rightarrow> ([], lb')
      | (Some block, lb') \<Rightarrow>
          if block = [] then ([], lb')
          else case lua_load lb' of (text, lb'') \<Rightarrow> (block @ text, lb''))"
  by pat_completeness auto
termination
  by (relation "measure left_to_read")
     (auto simp: lua_file_reader_def left_to_read_def LUA_LOAD_FILE_BUFF_SIZE_def split: option.splits if_splits)

declare lua_load.simps [simp del]

text \<open>\<open>run_lua_file\<close> up to the point where the loaded chunk is called: \<^const>\<open>None\<close> when it exits.\<close>

definition run_lua_file :: "string option \<Rightarrow> string option \<Rightarrow> (string \<times> lua_load_buffer) option" where
  "run_lua_file contents epi =
     (case contents of
        None \<Rightarrow> None
      | Some text \<Rightarrow> Some (lua_load \<lparr> lb_file = Some (text, False), epilogue = epi \<rparr>))"

lemma load_at_eof:
  assumes "lb_file lb = Some ([], True)" "epilogue lb = Some e" "e \<noteq> []"
  shows "lua_load lb = (e, lb\<lparr>lb_file := None\<rparr>)"
  using assms by (simp add: lua_load.simps[of lb] lua_file_reader_def lua_load.simps[of "lb\<lparr>lb_file := None\<rparr>"])

lemma load_text:
  assumes "e \<noteq> []"
  shows "lua_load \<lparr> lb_file = Some (str, False), epilogue = Some e \<rparr> =
    (if LUA_LOAD_FILE_BUFF_SIZE dvd length str
     then (str, \<lparr> lb_file = Some ([], True), epilogue = Some e \<rparr>)
     else (str @ e, \<lparr> lb_file = None, epilogue = Some e \<rparr>))"
proof (induction str rule: length_induct)
  case (1 str)
  let ?N = LUA_LOAD_FILE_BUFF_SIZE
  let ?lb = "\<lambda>t b. \<lparr> lb_file = Some (t, b), epilogue = Some e \<rparr>"
  have N: "0 < ?N" by (simp add: LUA_LOAD_FILE_BUFF_SIZE_def)
  show ?case
  proof (cases "length str < ?N")
    case True
    then show ?thesis using N assms load_at_eof[of "?lb [] True" e] nat_dvd_not_less[of "length str" ?N]
      by (cases "str = []") (simp_all add: lua_load.simps[of "?lb str False"] lua_load.simps[of "?lb [] False"]
         lua_file_reader_def)
  next
    case False
    then have ne: "take ?N str \<noteq> []" using N by auto
    have "length (drop ?N str) < length str" using False N by auto
    with 1 have IH: "lua_load (?lb (drop ?N str) False) =
      (if ?N dvd length (drop ?N str) then (drop ?N str, ?lb [] True)
       else (drop ?N str @ e, \<lparr> lb_file = None, epilogue = Some e \<rparr>))" by blast
    have "?N dvd length (drop ?N str) \<longleftrightarrow> ?N dvd length str"
      using False by (simp add: dvd_minus_self)
    then show ?thesis using False ne IH
      by (simp add: lua_load.simps[of "?lb str False"] lua_file_reader_def append_assoc[symmetric]
        del: append_assoc)
  qed
qed


text \<open>
  C24 What \<open>lua_load\<close> gets of a file: the reader terminates, and Lua receives the text followed by the
  epilogue, and the stream is closed, unless the length of the text is a multiple of the buffer size. In
  that case the last read returns no bytes, Lua takes this for the end, the epilogue is lost and the
  stream stays open.
\<close>

theorem lua_file_loaded:
  assumes "e \<noteq> []"
  shows "run_lua_file (Some str) (Some e) =
    Some (if LUA_LOAD_FILE_BUFF_SIZE dvd length str
     then (str, \<lparr> lb_file = Some ([], True), epilogue = Some e \<rparr>)
     else (str @ e, \<lparr> lb_file = None, epilogue = Some e \<rparr>))"
  using load_text[OF assms, of str] by (simp add: run_lua_file_def)

theorem lua_file_loaded_witness:
  "run_lua_file (Some ''x=1'') (Some ''y'') = Some (''x=1y'', \<lparr> lb_file = None, epilogue = Some ''y'' \<rparr>) \<and>
   run_lua_file (Some []) (Some ''y'') = Some ([], \<lparr> lb_file = Some ([], True), epilogue = Some ''y'' \<rparr>)"
  using lua_file_loaded[of "''y''" "''x=1''"] lua_file_loaded[of "''y''" "[]"]
  by (simp add: LUA_LOAD_FILE_BUFF_SIZE_def nat_dvd_not_less)

section \<open>Finding the scheduler and the address\<close>

text \<open>
  The Lua values that \<open>init_luaw_server\<close> meets; \<open>Num\<close> stands for numbers and numerals, which Lua takes for
  strings as well (\<open>tostr\<close> is its conversion).
\<close>

datatype lua_cfg = Nil_cfg | Str string | Num int | Fun_cfg | Table "(string \<times> lua_cfg) list"

text \<open>\<open>lua_getfield\<close>: indexing a value that is not a table raises an error (\<^const>\<open>None\<close>).\<close>

definition lua_getfield :: "lua_cfg \<Rightarrow> string \<Rightarrow> lua_cfg option" where
  "lua_getfield v key = (case v of
     Table fs \<Rightarrow> Some (case map_of fs key of None \<Rightarrow> Nil_cfg | Some x \<Rightarrow> x)
   | _ \<Rightarrow> None)"

datatype init_result = Exit_failure | Panic | Listen_on string int

text \<open>
  The errors of the Lua API are raised outside every protected call, where they end the process. The
  address keeps its defaults without a configuration table. A field that does not have the expected type
  stays on the stack, and the next lookup uses it as the table.
\<close>

definition read_config :: "(int \<Rightarrow> string) \<Rightarrow> lua_cfg \<Rightarrow> init_result" where
  "read_config tostr config =
     (case config of
        Table _ \<Rightarrow>
          (case lua_getfield config ''server_ip'' of
             None \<Rightarrow> Panic
           | Some v \<Rightarrow>
               let (ip, top) = (case v of Str s \<Rightarrow> (s, config) | Num n \<Rightarrow> (tostr n, config)
                                 | _ \<Rightarrow> (''0.0.0.0'', v))
               in (case lua_getfield top ''server_port'' of
                     None \<Rightarrow> Panic
                   | Some (Num port) \<Rightarrow> Listen_on ip port
                   | Some _ \<Rightarrow> Listen_on ip 80))
      | _ \<Rightarrow> Listen_on ''0.0.0.0'' 80)"

definition init_luaw_server :: "(int \<Rightarrow> string) \<Rightarrow> lua_cfg \<Rightarrow> lua_cfg \<Rightarrow> lua_cfg \<Rightarrow> init_result" where
  "init_luaw_server tostr http_lib scheduler config =
     (if lua_getfield http_lib ''request_handler'' \<noteq> Some Fun_cfg \<or>
         lua_getfield scheduler ''resumeThreadId'' \<noteq> Some Fun_cfg \<or>
         lua_getfield scheduler ''startSystemThread'' \<noteq> Some Fun_cfg \<or>
         lua_getfield scheduler ''runReadyThreads'' \<noteq> Some Fun_cfg
      then Exit_failure
      else read_config tostr config)"

definition libraries_ok :: "lua_cfg \<Rightarrow> lua_cfg \<Rightarrow> bool" where
  "libraries_ok http_lib scheduler \<longleftrightarrow>
     lua_getfield http_lib ''request_handler'' = Some Fun_cfg \<and>
     (\<forall>f \<in> {''resumeThreadId'', ''startSystemThread'', ''runReadyThreads''}. lua_getfield scheduler f = Some Fun_cfg)"

text \<open>
  The server listens where the configuration says: with the libraries in place, a table with an
  address and a port is obeyed, and without a table the defaults are used.
\<close>

theorem init_obeys_config:
  assumes "libraries_ok http_lib scheduler" "map_of fs ''server_ip'' = Some (Str ip)"
    "map_of fs ''server_port'' = Some (Num port)"
  shows "init_luaw_server tostr http_lib scheduler (Table fs) = Listen_on ip port \<and>
    init_luaw_server tostr http_lib scheduler Nil_cfg = Listen_on ''0.0.0.0'' 80"
  using assms by (simp add: init_luaw_server_def read_config_def libraries_ok_def lua_getfield_def)

definition demo_scheduler :: lua_cfg where
  "demo_scheduler = Table [(''resumeThreadId'', Fun_cfg), (''startSystemThread'', Fun_cfg), (''runReadyThreads'', Fun_cfg)]"

theorem init_obeys_config_witness:
  "init_luaw_server (\<lambda>_. []) (Table [(''request_handler'', Fun_cfg)]) demo_scheduler
     (Table [(''server_port'', Num 8080), (''server_ip'', Str ''127.0.0.1'')]) = Listen_on ''127.0.0.1'' 8080"
  using init_obeys_config[of "Table [(''request_handler'', Fun_cfg)]" demo_scheduler
      "[(''server_port'', Num 8080), (''server_ip'', Str ''127.0.0.1'')]" "''127.0.0.1''" 8080 "\<lambda>_. []"]
  by (simp add: libraries_ok_def demo_scheduler_def lua_getfield_def)

text \<open>
  A configuration table without \<open>server_ip\<close> makes the server panic: the missing value stays on the
  stack and is indexed for \<open>server_port\<close>, although the defaults are meant to apply.
\<close>

theorem missing_ip_panics:
  assumes "libraries_ok http_lib scheduler" "map_of fs ''server_ip'' = None"
  shows "init_luaw_server tostr http_lib scheduler (Table fs) = Panic"
  using assms by (simp add: init_luaw_server_def read_config_def libraries_ok_def lua_getfield_def)

theorem missing_ip_panics_witness:
  "init_luaw_server (\<lambda>_. []) (Table [(''request_handler'', Fun_cfg)]) demo_scheduler
     (Table [(''server_port'', Num 8080)]) = Panic"
  using missing_ip_panics[of "Table [(''request_handler'', Fun_cfg)]" demo_scheduler
      "[(''server_port'', Num 8080)]" "\<lambda>_. []"]
  by (simp add: libraries_ok_def demo_scheduler_def lua_getfield_def)

end
