(* ===== verification/Luaw_Main.thy ===== *)
theory Luaw_Main
  imports Luaw_Startup Luaw_Server
begin

text \<open>
  The life of the process, \<^verbatim>\<open>src/src/luaw_server.c\<close>: \<open>main\<close> from the command line to the event loop, and the
  clean-up of \<open>server_loop\<close> after it.
\<close>

section \<open>From the command line to the event loop\<close>

text \<open>
  The second half of \<open>run_lua_file\<close>: the text that \<open>lua_load\<close> received is compiled and called.
  \<open>load_ok\<close> and \<open>call_ok\<close> are Lua's answers for a text; \<^const>\<open>None\<close> is \<open>exit(EXIT_FAILURE)\<close>.
\<close>

definition exec_lua_file ::
  "(string \<Rightarrow> bool) \<Rightarrow> (string \<Rightarrow> bool) \<Rightarrow> string option \<Rightarrow> string option \<Rightarrow> string option" where
  "exec_lua_file load_ok call_ok contents epi =
     (case run_lua_file contents epi of
        None \<Rightarrow> None
      | Some (text, lb) \<Rightarrow>
          if \<not> load_ok text then None
          else if \<not> call_ok text then None
          else Some text)"

definition INIT_EPILOGUE :: string where
  "INIT_EPILOGUE = [LF] @ ''init = require('' @ [CHR 0x22] @ ''luaw_init'' @ [CHR 0x22] @ '')'' @ [LF]"

text \<open>The scripts on the command line run in order; the first that fails ends the process.\<close>

fun run_scripts ::
  "(string \<Rightarrow> bool) \<Rightarrow> (string \<Rightarrow> bool) \<Rightarrow> (string \<Rightarrow> string option) \<Rightarrow> string list \<Rightarrow> string list option" where
  "run_scripts load_ok call_ok files [] = Some []"
| "run_scripts load_ok call_ok files (f # fs) =
     (case exec_lua_file load_ok call_ok (files f) None of
        None \<Rightarrow> None
      | Some text \<Rightarrow>
          (case run_scripts load_ok call_ok files fs of None \<Rightarrow> None | Some ts \<Rightarrow> Some (text # ts)))"

text \<open>\<open>start_server\<close> with the results of \<open>uv_ip4_addr\<close>, \<open>uv_tcp_bind\<close> and \<open>uv_listen\<close>.\<close>

definition start_server :: "int \<Rightarrow> int \<Rightarrow> int \<Rightarrow> bool" where
  "start_server addr_rc bind_rc listen_rc \<longleftrightarrow> addr_rc = 0 \<and> bind_rc = 0 \<and> listen_rc = 0"

datatype main_result = Main_exit_failure | Main_panic | Main_serves "string list" string int

text \<open>
  \<open>main\<close> up to the call of \<open>server_loop\<close>. The globals that the scripts leave behind are the function
  \<open>globals\<close> of the texts that ran: the HTTP library, the scheduler and the configuration. The answers of
  \<open>start_server\<close>'s calls depend on the address.
\<close>

definition luaw_main ::
  "(int \<Rightarrow> string) \<Rightarrow> bool \<Rightarrow> (string \<Rightarrow> bool) \<Rightarrow> (string \<Rightarrow> bool) \<Rightarrow> (string \<Rightarrow> string option) \<Rightarrow>
     (string list \<Rightarrow> lua_cfg \<times> lua_cfg \<times> lua_cfg) \<Rightarrow> (string \<Rightarrow> int \<Rightarrow> int \<times> int \<times> int) \<Rightarrow> string list \<Rightarrow>
     main_result" where
  "luaw_main tostr newstate_ok load_ok call_ok files globals net args =
     (if length args < 2 then Main_exit_failure
      else if \<not> newstate_ok then Main_exit_failure
      else case exec_lua_file load_ok call_ok (files (args ! 1)) (Some INIT_EPILOGUE) of
        None \<Rightarrow> Main_exit_failure
      | Some config_text \<Rightarrow>
          (case run_scripts load_ok call_ok files (drop 2 args) of
             None \<Rightarrow> Main_exit_failure
           | Some texts \<Rightarrow>
               (case globals (config_text # texts) of (http_lib, scheduler, config) \<Rightarrow>
                  (case init_luaw_server tostr http_lib scheduler config of
                     Exit_failure \<Rightarrow> Main_exit_failure
                   | Panic \<Rightarrow> Main_panic
                   | Listen_on ip port \<Rightarrow>
                       (case net ip port of (a, b, l) \<Rightarrow>
                          if start_server a b l then Main_serves (config_text # texts) ip port
                          else Main_exit_failure)))))"

lemma exec_lua_file_Some:
  "exec_lua_file load_ok call_ok contents epi = Some text \<Longrightarrow> call_ok text \<and> contents \<noteq> None"
  by (auto simp: exec_lua_file_def run_lua_file_def split: option.splits prod.splits if_splits)

lemma run_scripts_Some:
  "run_scripts load_ok call_ok files fs = Some ts \<Longrightarrow>
     length ts = length fs \<and> (\<forall>f \<in> set fs. files f \<noteq> None) \<and> (\<forall>t \<in> set ts. call_ok t)"
  by (induction fs arbitrary: ts) (auto dest: exec_lua_file_Some split: option.splits)

text \<open>
  The server starts only after the configuration and every script on the command line have been found,
  compiled and run, and it listens where they say.
\<close>

lemma main_serves:
  assumes "luaw_main tostr newstate_ok load_ok call_ok files globals net args = Main_serves texts ip port"
  shows "length texts = length args - 1" "\<forall>f \<in> set (tl args). files f \<noteq> None" "\<forall>t \<in> set texts. call_ok t"
    "case globals texts of (http_lib, scheduler, config) \<Rightarrow>
       init_luaw_server tostr http_lib scheduler config = Listen_on ip port"
proof -
  obtain p c ss where args: "args = p # c # ss"
    using assms by (cases args rule: remdups_adj.cases) (auto simp: luaw_main_def)
  with assms obtain ct ts where t: "exec_lua_file load_ok call_ok (files c) (Some INIT_EPILOGUE) = Some ct"
      "run_scripts load_ok call_ok files ss = Some ts" "texts = ct # ts"
      "case globals texts of (http_lib, scheduler, config) \<Rightarrow>
         init_luaw_server tostr http_lib scheduler config = Listen_on ip port"
    by (auto simp: luaw_main_def split: if_splits option.splits prod.splits init_result.splits)
  from exec_lua_file_Some[OF t(1)] run_scripts_Some[OF t(2)] t(3,4) args
  show "length texts = length args - 1" "\<forall>f \<in> set (tl args). files f \<noteq> None" "\<forall>t \<in> set texts. call_ok t"
    "case globals texts of (http_lib, scheduler, config) \<Rightarrow>
       init_luaw_server tostr http_lib scheduler config = Listen_on ip port"
    by auto
qed

section \<open>The clean-up after the event loop\<close>

text \<open>
  \<open>close_walk_cb\<close> on the handles of timers and connections. It closes with no callback, so that the
  references of these handles are never given back; the process ends afterwards.
\<close>

definition close_walk_cb :: "'h uv_api \<Rightarrow> uv_handle_id \<Rightarrow> 'h luaw \<Rightarrow> 'h luaw" where
  "close_walk_cb uv h w = (case h of
     User_timer a \<Rightarrow> set_timer a (\<lambda>t. t\<lparr>tm_handle :=
       (if \<not> uv_is_closing uv (tm_handle t) then uv_close uv (tm_handle t) else tm_handle t)\<rparr>) w
   | Tcp a \<Rightarrow> set_conn a (\<lambda>c. c\<lparr>c_handle :=
       (if \<not> uv_is_closing uv (c_handle c) then uv_close uv (c_handle c) else c_handle c)\<rparr>) w
   | Read_timer a \<Rightarrow> set_conn a (\<lambda>c. c\<lparr>read_timer :=
       (if \<not> uv_is_closing uv (read_timer c) then uv_close uv (read_timer c) else read_timer c)\<rparr>) w
   | Write_timer a \<Rightarrow> set_conn a (\<lambda>c. c\<lparr>write_timer :=
       (if \<not> uv_is_closing uv (write_timer c) then uv_close uv (write_timer c) else write_timer c)\<rparr>) w)"

text \<open>\<open>uv_walk\<close> calls it for the handles \<open>hs\<close> that the loop knows, in an order of its own.\<close>

definition server_loop_cleanup :: "'h uv_api \<Rightarrow> uv_handle_id list \<Rightarrow> 'h luaw \<Rightarrow> 'h luaw" where
  "server_loop_cleanup uv hs w = fold (close_walk_cb uv) hs w"

definition handle_of :: "'h luaw \<Rightarrow> uv_handle_id \<Rightarrow> 'h option" where
  "handle_of w h = (case h of
     User_timer a \<Rightarrow> map_option tm_handle (timers w a)
   | Tcp a \<Rightarrow> map_option c_handle (conns w a)
   | Read_timer a \<Rightarrow> map_option read_timer (conns w a)
   | Write_timer a \<Rightarrow> map_option write_timer (conns w a))"

text \<open>One call closes its handle, unless it is closing already, and leaves the others alone.\<close>

lemma close_walk_cb_handle:
  assumes "handle_of w h = Some x" "uv_contract uv"
  shows "crashed (close_walk_cb uv h w) = crashed w"
    and "\<exists>y. handle_of (close_walk_cb uv h w) h = Some y \<and> uv_is_closing uv y"
    and "g \<noteq> h \<Longrightarrow> handle_of (close_walk_cb uv h w) g = handle_of w g"
  using assms uv_contractD(3)[OF assms(2)]
  by (cases h; cases g; auto simp: close_walk_cb_def handle_of_def set_timer_def with_timer_def
        set_conn_def with_conn_def)+

lemma walk_closes:
  assumes "uv_contract uv" "\<forall>h \<in> set hs. handle_of w h \<noteq> None"
  shows "crashed (server_loop_cleanup uv hs w) = crashed w \<and>
    (\<forall>h. handle_of w h \<noteq> None \<longrightarrow> (\<exists>y. handle_of (server_loop_cleanup uv hs w) h = Some y \<and>
       (h \<in> set hs \<or> (\<exists>x. handle_of w h = Some x \<and> uv_is_closing uv x) \<longrightarrow> uv_is_closing uv y)))"
  using assms(2)
proof (induction hs arbitrary: w)
  case Nil
  then show ?case by (auto simp: server_loop_cleanup_def)
next
  case (Cons k hs)
  let ?w = "close_walk_cb uv k w"
  obtain x where x: "handle_of w k = Some x" using Cons.prems by auto
  note c = close_walk_cb_handle[OF x assms(1)]
  have "handle_of w h \<noteq> None \<Longrightarrow> handle_of ?w h \<noteq> None" for h using c(2) c(3)[of h] by (cases "h = k") auto
  moreover have "server_loop_cleanup uv (k # hs) w = server_loop_cleanup uv hs ?w"
    by (simp add: server_loop_cleanup_def)
  ultimately show ?case
    using Cons.IH[of ?w] Cons.prems c by (metis list.set_intros(2) set_ConsD)
qed

lemma known_handle_exists:
  assumes "world_ok uv X p w" "loop_handles w h"
  shows "handle_of w h \<noteq> None"
  using assms by (cases h) (auto simp: handle_of_def world_ok_def timers_ok_def conns_ok_def)

section \<open>Properties\<close>

text \<open>
  C22 Shutdown: whatever the event loop did before, the walk of \<open>server_loop\<close> over the handles that the loop
  knows touches no freed memory and leaves every handle closing, so that the finalizers which
  \<open>lua_close\<close> runs afterwards, when the loop is gone, do not close any of them again.
\<close>

theorem shutdown_closes_all:
  assumes "uv_contract uv" "reachable uv w" "set hs = {h. loop_handles w h}"
  shows "\<not> crashed (server_loop_cleanup uv hs w) \<and>
    (\<forall>h. loop_handles w h \<longrightarrow> (\<exists>x. handle_of (server_loop_cleanup uv hs w) h = Some x \<and>
       uv_is_closing uv x \<and> close_if_active uv x = x))"
proof -
  note ok = reachable_ok[OF assms(2,1)]
  have "handle_of w h \<noteq> None" if "loop_handles w h" for h by (rule known_handle_exists[OF ok that])
  moreover have "\<not> crashed w" using ok by (simp add: world_ok_def)
  ultimately show ?thesis
    using walk_closes[OF assms(1), of hs w] assms(3) by (fastforce simp: close_if_active_def)
qed

definition served :: "(bool \<times> bool) luaw" where
  "served = on_server_connect flag_uv (run_lua flag_uv (Done (Returned False Nil_val)))
     (run_lua flag_uv (Done (Returned False Nil_val))) 0 True True 0 init_world"

lemma served_handles: "{h. loop_handles served h} = {Tcp 0, Read_timer 0, Write_timer 0}"
  by (auto simp: served_def on_server_connect_def new_connection_def init_world_def push_def set_conn_def
      with_conn_def flag_uv_def split: if_splits)

lemma served_reachable: "reachable flag_uv served"
  unfolding served_def by (rule reachable.step[OF reachable.start loop_step.accept])

theorem shutdown_closes_all_witness:
  "\<not> crashed (server_loop_cleanup flag_uv [Tcp 0, Read_timer 0, Write_timer 0] served) \<and>
    (\<exists>x. handle_of (server_loop_cleanup flag_uv [Tcp 0, Read_timer 0, Write_timer 0] served) (Tcp 0) = Some x
       \<and> uv_is_closing flag_uv x)"
proof -
  have "set [Tcp 0, Read_timer 0, Write_timer 0] = {h. loop_handles served h}" by (simp add: served_handles)
  note c = shutdown_closes_all[OF flag_uv_contract served_reachable this]
  moreover have "loop_handles served (Tcp 0)" using served_handles by auto
  ultimately show ?thesis by blast
qed

end
