(* ===== verification/Lfs.thy ===== *)
theory Lfs
  imports Luaw_Prelude "HOL-Library.AList"
begin

text \<open>
  LuaFileSystem, \<^verbatim>\<open>src/src/lfs.c\<close>, as it is compiled for POSIX systems. A function of the library takes
  the arguments of the Lua call, which are the Lua stack on entry, and returns the values that it pushes,
  raises an error or crashes. The calls into the operating system are the fields of the record \<open>posix\<close>, a
  parameter of the functions that use them; a failing call gives the value of \<open>errno\<close>. Directory streams
  are the C library's: an open stream is the list of names that \<open>readdir\<close> has still to deliver.
\<close>

section \<open>Lua values and the argument checks of the auxiliary library\<close>

datatype udata = Dir nat | Lock nat | File "nat option" | Other_udata

datatype 'n lval = LNil | LBool bool | LNum 'n | LStr string | LTab "(string \<times> 'n lval) list"
  | LFun string | LUser udata

datatype lua_error = Bad_argument nat | Arg_error nat string | Lua_error string

datatype 'n outcome = Returns "'n lval list" | Raises lua_error | Crashes

text \<open>Lua's numbers: their printed form, parsing, and the conversions from and to integers.\<close>

record 'n lua_num =
  n_str :: "'n \<Rightarrow> string"
  n_parse :: "string \<Rightarrow> 'n option"
  n_of_int :: "int \<Rightarrow> 'n"
  n_int :: "'n \<Rightarrow> int"
  n_cast :: "'n \<Rightarrow> int"

definition arg :: "nat \<Rightarrow> 'n lval list \<Rightarrow> 'n lval" where
  "arg i args = (if i \<le> length args then args ! (i - 1) else LNil)"

text \<open>What C sees of a Lua string: the bytes before the first \<open>NUL\<close>.\<close>

definition cstring :: "string \<Rightarrow> string" where
  "cstring s = takeWhile (\<lambda>ch. ch \<noteq> NUL) s"

fun lua_tostring :: "'n lua_num \<Rightarrow> 'n lval \<Rightarrow> string option" where
  "lua_tostring N (LStr s) = Some s"
| "lua_tostring N (LNum n) = Some (n_str N n)"
| "lua_tostring N _ = None"

definition luaL_checkstring :: "'n lua_num \<Rightarrow> 'n lval list \<Rightarrow> nat \<Rightarrow> lua_error + string" where
  "luaL_checkstring N args i =
     (case lua_tostring N (arg i args) of None \<Rightarrow> Inl (Bad_argument i) | Some s \<Rightarrow> Inr (cstring s))"

definition luaL_optnumber :: "'n lua_num \<Rightarrow> 'n lval list \<Rightarrow> nat \<Rightarrow> 'n \<Rightarrow> lua_error + 'n" where
  "luaL_optnumber N args i d = (case arg i args of
     LNil \<Rightarrow> Inr d
   | LNum n \<Rightarrow> Inr n
   | LStr s \<Rightarrow> (case n_parse N s of None \<Rightarrow> Inl (Bad_argument i) | Some n \<Rightarrow> Inr n)
   | _ \<Rightarrow> Inl (Bad_argument i))"

definition luaL_optinteger :: "'n lua_num \<Rightarrow> 'n lval list \<Rightarrow> nat \<Rightarrow> int \<Rightarrow> lua_error + int" where
  "luaL_optinteger N args i d = (case arg i args of
     LNil \<Rightarrow> Inr d
   | LNum n \<Rightarrow> Inr (n_int N n)
   | LStr s \<Rightarrow> (case n_parse N s of None \<Rightarrow> Inl (Bad_argument i) | Some n \<Rightarrow> Inr (n_int N n))
   | _ \<Rightarrow> Inl (Bad_argument i))"

definition lua_toboolean :: "'n lval \<Rightarrow> bool" where
  "lua_toboolean v = (case v of LNil \<Rightarrow> False | LBool b \<Rightarrow> b | _ \<Rightarrow> True)"

definition check :: "lua_error + 'a \<Rightarrow> ('a \<Rightarrow> 'n outcome \<times> 's) \<Rightarrow> 's \<Rightarrow> 'n outcome \<times> 's" where
  "check r f s = (case r of Inl e \<Rightarrow> (Raises e, s) | Inr x \<Rightarrow> f x)"

lemma check_simps [simp]: "check (Inl e) f s = (Raises e, s)" "check (Inr x) f s = f x"
  by (simp_all add: check_def)

section \<open>The operating system\<close>

datatype lock_type = F_RDLCK | F_WRLCK | F_UNLCK

record flock =
  l_type :: lock_type
  l_start :: int
  l_len :: int

record stat =
  st_mode :: "32 word"
  st_dev :: int
  st_ino :: int
  st_nlink :: int
  st_uid :: int
  st_gid :: int
  st_rdev :: int
  st_atime :: int
  st_mtime :: int
  st_ctime :: int
  st_size :: int
  st_blocks :: int
  st_blksize :: int

record 's posix =
  os_strerror :: "int \<Rightarrow> string"
  os_chdir :: "string \<Rightarrow> 's \<Rightarrow> (int + unit) \<times> 's"
  os_getcwd :: "nat \<Rightarrow> 's \<Rightarrow> int + string"
  os_setlk :: "nat \<Rightarrow> flock \<Rightarrow> 's \<Rightarrow> (int + unit) \<times> 's"
  os_malloc :: "nat \<Rightarrow> 's \<Rightarrow> int + unit"
  os_symlink :: "string \<Rightarrow> string \<Rightarrow> 's \<Rightarrow> (int + unit) \<times> 's"
  os_link :: "string \<Rightarrow> string \<Rightarrow> 's \<Rightarrow> (int + unit) \<times> 's"
  os_unlink :: "string \<Rightarrow> 's \<Rightarrow> 's"
  os_mkdir :: "string \<Rightarrow> 32 word \<Rightarrow> 's \<Rightarrow> (int + unit) \<times> 's"
  os_rmdir :: "string \<Rightarrow> 's \<Rightarrow> (int + unit) \<times> 's"
  os_utime :: "string \<Rightarrow> (int \<times> int) option \<Rightarrow> 's \<Rightarrow> (int + unit) \<times> 's"
  os_stat :: "string \<Rightarrow> 's \<Rightarrow> int + stat"
  os_lstat :: "string \<Rightarrow> 's \<Rightarrow> int + stat"
  os_opendir :: "string \<Rightarrow> 's \<Rightarrow> int + string list"

section \<open>The state of the library\<close>

text \<open>\<open>dir_data\<close>; a \<open>DIR*\<close> is the number of a stream, \<^const>\<open>None\<close> the null pointer.\<close>

record dir_data =
  closed :: bool
  dir :: "nat option"

text \<open>\<open>lfs_Lock\<close>; \<^const>\<open>None\<close> is the null pointer.\<close>

record lfs_Lock =
  ln :: "string option"

record 's lfs =
  os :: 's
  streams :: "nat \<Rightarrow> string list option"
  dirs :: "nat \<Rightarrow> dir_data option"
  locks :: "nat \<Rightarrow> lfs_Lock option"
  next_id :: nat

definition init_lfs :: "'s \<Rightarrow> 's lfs" where
  "init_lfs s = \<lparr>os = s, streams = Map.empty, dirs = Map.empty, locks = Map.empty, next_id = 0\<rparr>"

section \<open>Utility functions\<close>

definition pusherror :: "'s posix \<Rightarrow> 'n lua_num \<Rightarrow> int \<Rightarrow> string option \<Rightarrow> 'n lval list" where
  "pusherror P N errno info =
     [LNil,
      LStr (case info of None \<Rightarrow> os_strerror P errno | Some i \<Rightarrow> i @ '': '' @ os_strerror P errno),
      LNum (n_of_int N errno)]"

definition pushresult :: "'s posix \<Rightarrow> 'n lua_num \<Rightarrow> int + unit \<Rightarrow> string option \<Rightarrow> 'n lval list" where
  "pushresult P N r info = (case r of
     Inl errno \<Rightarrow> pusherror P N errno info
   | Inr _ \<Rightarrow> [LNum (n_of_int N 0)])"

text \<open>The values of most functions: \<open>true\<close>, or \<open>nil\<close> and a message.\<close>

definition ok_or_message :: "int + unit \<Rightarrow> (int \<Rightarrow> string) \<Rightarrow> 'n outcome" where
  "ok_or_message r msg = (case r of
     Inl errno \<Rightarrow> Returns [LNil, LStr (msg errno)]
   | Inr _ \<Rightarrow> Returns [LBool True])"

definition in_os :: "('s \<Rightarrow> 'r \<times> 's) \<Rightarrow> 's lfs \<Rightarrow> 'r \<times> 's lfs" where
  "in_os f s = (case f (os s) of (r, o') \<Rightarrow> (r, s\<lparr>os := o'\<rparr>))"

section \<open>Directories and the working directory\<close>

definition change_dir :: "'s posix \<Rightarrow> 'n lua_num \<Rightarrow> 'n lval list \<Rightarrow> 's lfs \<Rightarrow> 'n outcome \<times> 's lfs" where
  "change_dir P N args s = check (luaL_checkstring N args 1) (\<lambda>path.
     case in_os (os_chdir P path) s of (r, s1) \<Rightarrow>
       (ok_or_message r (\<lambda>errno. ''Unable to change working directory to '' @ [CHR 0x27] @ path @ [CHR 0x27, LF] @
          os_strerror P errno @ [LF]), s1)) s"

definition LFS_MAXPATHLEN :: nat where "LFS_MAXPATHLEN = 4096"

definition get_dir :: "'s posix \<Rightarrow> 'n lval list \<Rightarrow> 's lfs \<Rightarrow> 'n outcome \<times> 's lfs" where
  "get_dir P args s = (case os_getcwd P LFS_MAXPATHLEN (os s) of
     Inl errno \<Rightarrow> (Returns [LNil, LStr (os_strerror P errno)], s)
   | Inr path \<Rightarrow> (Returns [LStr path], s))"

definition make_link :: "'s posix \<Rightarrow> 'n lua_num \<Rightarrow> 'n lval list \<Rightarrow> 's lfs \<Rightarrow> 'n outcome \<times> 's lfs" where
  "make_link P N args s = check (luaL_checkstring N args 1) (\<lambda>oldpath.
     check (luaL_checkstring N args 2) (\<lambda>newpath.
       case in_os ((if lua_toboolean (arg 3 args) then os_symlink P else os_link P) oldpath newpath) s of
         (r, s1) \<Rightarrow> (Returns (pushresult P N r None), s1)) s) s"

definition S_IRUSR :: "32 word" where "S_IRUSR = 0x100"
definition S_IWUSR :: "32 word" where "S_IWUSR = 0x80"
definition S_IXUSR :: "32 word" where "S_IXUSR = 0x40"
definition S_IRGRP :: "32 word" where "S_IRGRP = 0x20"
definition S_IWGRP :: "32 word" where "S_IWGRP = 0x10"
definition S_IXGRP :: "32 word" where "S_IXGRP = 0x8"
definition S_IROTH :: "32 word" where "S_IROTH = 0x4"
definition S_IWOTH :: "32 word" where "S_IWOTH = 0x2"
definition S_IXOTH :: "32 word" where "S_IXOTH = 0x1"

lemmas perm_bits = S_IRUSR_def S_IWUSR_def S_IXUSR_def S_IRGRP_def S_IWGRP_def S_IXGRP_def
  S_IROTH_def S_IWOTH_def S_IXOTH_def

definition make_dir :: "'s posix \<Rightarrow> 'n lua_num \<Rightarrow> 'n lval list \<Rightarrow> 's lfs \<Rightarrow> 'n outcome \<times> 's lfs" where
  "make_dir P N args s = check (luaL_checkstring N args 1) (\<lambda>path.
     case in_os (os_mkdir P path (S_IRUSR OR S_IWUSR OR S_IXUSR OR S_IRGRP OR
                   S_IWGRP OR S_IXGRP OR S_IROTH OR S_IXOTH)) s of
       (r, s1) \<Rightarrow> (ok_or_message r (os_strerror P), s1)) s"

definition remove_dir :: "'s posix \<Rightarrow> 'n lua_num \<Rightarrow> 'n lval list \<Rightarrow> 's lfs \<Rightarrow> 'n outcome \<times> 's lfs" where
  "remove_dir P N args s = check (luaL_checkstring N args 1) (\<lambda>path.
     case in_os (os_rmdir P path) s of (r, s1) \<Rightarrow> (ok_or_message r (os_strerror P), s1)) s"

section \<open>File locks\<close>

text \<open>\<open>luaL_checkudata\<close> raises an error on anything but a file, so that it never returns a null pointer.\<close>

definition check_file :: "'n lval list \<Rightarrow> nat \<Rightarrow> string \<Rightarrow> lua_error + nat" where
  "check_file args idx funcname = (case arg idx args of
     LUser (File None) \<Rightarrow> Inl (Lua_error (funcname @ '': closed file''))
   | LUser (File (Some fd)) \<Rightarrow> Inr fd
   | _ \<Rightarrow> Inl (Bad_argument idx))"

text \<open>The switch on \<open>*mode\<close>; on an empty string that is the terminator.\<close>

definition mode_lock :: "string \<Rightarrow> lock_type option" where
  "mode_lock mode = (case mode of
     [] \<Rightarrow> None
   | ch # _ \<Rightarrow> if ch = CHR ''w'' then Some F_WRLCK else if ch = CHR ''r'' then Some F_RDLCK
       else if ch = CHR ''u'' then Some F_UNLCK else None)"

definition do_file_lock ::
  "'s posix \<Rightarrow> nat \<Rightarrow> string \<Rightarrow> int \<Rightarrow> int \<Rightarrow> string \<Rightarrow> 's lfs \<Rightarrow> 'n outcome \<times> 's lfs" where
  "do_file_lock P fh mode start len funcname s = (case mode_lock mode of
     None \<Rightarrow> (Raises (Lua_error (funcname @ '': invalid mode'')), s)
   | Some t \<Rightarrow>
       (case in_os (os_setlk P fh \<lparr>l_type = t, l_start = start, l_len = len\<rparr>) s of
          (r, s1) \<Rightarrow> (ok_or_message r (os_strerror P), s1)))"

definition file_lock :: "'s posix \<Rightarrow> 'n lua_num \<Rightarrow> 'n lval list \<Rightarrow> 's lfs \<Rightarrow> 'n outcome \<times> 's lfs" where
  "file_lock P N args s = check (check_file args 1 ''lock'') (\<lambda>fh.
     check (luaL_checkstring N args 2) (\<lambda>mode.
     check (luaL_optinteger N args 3 0) (\<lambda>start.
     check (luaL_optinteger N args 4 0) (\<lambda>len.
       do_file_lock P fh mode start len ''lock'' s) s) s) s) s"

definition file_unlock :: "'s posix \<Rightarrow> 'n lua_num \<Rightarrow> 'n lval list \<Rightarrow> 's lfs \<Rightarrow> 'n outcome \<times> 's lfs" where
  "file_unlock P N args s = check (check_file args 1 ''unlock'') (\<lambda>fh.
     check (luaL_optinteger N args 2 0) (\<lambda>start.
     check (luaL_optinteger N args 3 0) (\<lambda>len.
       do_file_lock P fh ''u'' start len ''unlock'' s) s) s) s"

text \<open>\<open>setmode\<close>: both modes are 0 here, and so is what \<open>lfs_setmode\<close> returns.\<close>

definition modenames :: "string list" where "modenames = [''binary'', ''text'']"
definition O_modes :: "int list" where "O_modes = [0, 0]"
definition lfs_setmode :: "nat \<Rightarrow> int \<Rightarrow> int" where "lfs_setmode f m = 0"

definition luaL_checkoption :: "'n lua_num \<Rightarrow> 'n lval list \<Rightarrow> nat \<Rightarrow> string list \<Rightarrow> lua_error + nat" where
  "luaL_checkoption N args i names = (case luaL_checkstring N args i of
     Inl e \<Rightarrow> Inl e
   | Inr name \<Rightarrow>
       (case List.find (\<lambda>k. names ! k = name) [0..<length names] of
          None \<Rightarrow> Inl (Arg_error i (''invalid option '' @ name)) | Some k \<Rightarrow> Inr k))"

definition lfs_g_setmode :: "'n lua_num \<Rightarrow> 'n lval list \<Rightarrow> nat \<Rightarrow> nat \<Rightarrow> 's lfs \<Rightarrow> 'n outcome \<times> 's lfs" where
  "lfs_g_setmode N args f i s = check (luaL_checkoption N args i modenames) (\<lambda>op.
     let res = lfs_setmode f (O_modes ! op) in
     (Returns [LBool True,
        (case List.find (\<lambda>k. O_modes ! k = res) [0..<length modenames] of
           None \<Rightarrow> LNil | Some k \<Rightarrow> LStr (modenames ! k))], s)) s"

definition lfs_f_setmode :: "'n lua_num \<Rightarrow> 'n lval list \<Rightarrow> 's lfs \<Rightarrow> 'n outcome \<times> 's lfs" where
  "lfs_f_setmode N args s = check (check_file args 1 ''setmode'') (\<lambda>f. lfs_g_setmode N args f 2 s) s"

section \<open>Directory locks\<close>

definition lockfile :: string where "lockfile = ''/lockfile.lfs''"

definition lfs_lock_dir :: "'s posix \<Rightarrow> 'n lua_num \<Rightarrow> 'n lval list \<Rightarrow> 's lfs \<Rightarrow> 'n outcome \<times> 's lfs" where
  "lfs_lock_dir P N args s = (case lua_tostring N (arg 1 args) of
     None \<Rightarrow> (Raises (Bad_argument 1), s)
   | Some path \<Rightarrow>
       (case os_malloc P (length path + length lockfile + 1) (os s) of
          Inl errno \<Rightarrow> (Returns [LNil, LStr (os_strerror P errno)], s)
        | Inr _ \<Rightarrow>
            (let name = cstring path @ lockfile in
             case in_os (os_symlink P ''lock'' name) s of
               (Inl errno, s1) \<Rightarrow> (Returns [LNil, LStr (os_strerror P errno)], s1)
             | (Inr _, s1) \<Rightarrow>
                 (Returns [LUser (Lock (next_id s1))],
                  s1\<lparr>locks := (locks s1)(next_id s1 \<mapsto> \<lparr>ln = Some name\<rparr>), next_id := next_id s1 + 1\<rparr>))))"

definition lfs_unlock_dir :: "'s posix \<Rightarrow> 'n lval list \<Rightarrow> 's lfs \<Rightarrow> 'n outcome \<times> 's lfs" where
  "lfs_unlock_dir P args s = (case arg 1 args of
     LUser (Lock a) \<Rightarrow>
       (case locks s a of
          None \<Rightarrow> (Crashes, s)
        | Some lock \<Rightarrow>
            (case ln lock of
               None \<Rightarrow> (Returns [], s)
             | Some name \<Rightarrow>
                 (Returns [], s\<lparr>os := os_unlink P name (os s), locks := (locks s)(a \<mapsto> lock\<lparr>ln := None\<rparr>)\<rparr>)))
   | _ \<Rightarrow> (Raises (Bad_argument 1), s))"

section \<open>Directory iterators\<close>

text \<open>
  A stream holds the names that \<open>readdir\<close> has still to deliver. \<open>dir_iter\<close> does not tell an error of \<open>readdir\<close>
  from the end of the directory, so a stream that ends in an error is one whose names end there.
\<close>

definition dir_iter :: "'n lval list \<Rightarrow> 's lfs \<Rightarrow> 'n outcome \<times> 's lfs" where
  "dir_iter args s = (case arg 1 args of
     LUser (Dir a) \<Rightarrow>
       (case dirs s a of
          None \<Rightarrow> (Crashes, s)
        | Some d \<Rightarrow>
            if closed d then (Raises (Arg_error 1 ''closed directory''), s)
            else (case dir d of
               None \<Rightarrow> (Crashes, s)
             | Some h \<Rightarrow>
                 (case streams s h of
                    None \<Rightarrow> (Crashes, s)
                  | Some (entry # rest) \<Rightarrow> (Returns [LStr entry], s\<lparr>streams := (streams s)(h \<mapsto> rest)\<rparr>)
                  | Some [] \<Rightarrow>
                      (Returns [], s\<lparr>streams := (streams s)(h := None), dirs := (dirs s)(a \<mapsto> d\<lparr>closed := True\<rparr>)\<rparr>))))
   | _ \<Rightarrow> (Raises (Bad_argument 1), s))"

text \<open>
  \<open>dir_close\<close> takes its argument with \<open>lua_touserdata\<close>, which gives a null pointer for anything but
  userdata and does not look at the kind of userdata.
\<close>

definition dir_close :: "'n lval list \<Rightarrow> 's lfs \<Rightarrow> 'n outcome \<times> 's lfs" where
  "dir_close args s = (case arg 1 args of
     LUser (Dir a) \<Rightarrow>
       (case dirs s a of
          None \<Rightarrow> (Crashes, s)
        | Some d \<Rightarrow>
            (let s1 = s\<lparr>dirs := (dirs s)(a \<mapsto> d\<lparr>closed := True\<rparr>)\<rparr> in
             if closed d then (Returns [], s1)
             else (case dir d of
                None \<Rightarrow> (Returns [], s1)
              | Some h \<Rightarrow>
                  if streams s h = None then (Crashes, s)
                  else (Returns [], s1\<lparr>streams := (streams s)(h := None)\<rparr>))))
   | _ \<Rightarrow> (Crashes, s))"

definition dir_iter_factory :: "'s posix \<Rightarrow> 'n lua_num \<Rightarrow> 'n lval list \<Rightarrow> 's lfs \<Rightarrow> 'n outcome \<times> 's lfs" where
  "dir_iter_factory P N args s = check (luaL_checkstring N args 1) (\<lambda>path.
     let a = next_id s in
     case os_opendir P path (os s) of
       Inl errno \<Rightarrow>
         (Raises (Lua_error (''cannot open '' @ path @ '': '' @ os_strerror P errno)),
          s\<lparr>dirs := (dirs s)(a \<mapsto> \<lparr>closed = False, dir = None\<rparr>), next_id := a + 1\<rparr>)
     | Inr names \<Rightarrow>
         (Returns [LFun ''dir_iter'', LUser (Dir a)],
          s\<lparr>streams := (streams s)(a \<mapsto> names), dirs := (dirs s)(a \<mapsto> \<lparr>closed = False, dir = Some a\<rparr>),
            next_id := a + 1\<rparr>)) s"

section \<open>File information\<close>

definition S_IFMT :: "32 word" where "S_IFMT = 0xF000"

definition mode2string :: "32 word \<Rightarrow> string" where
  "mode2string mode =
     (if mode AND S_IFMT = 0x8000 then ''file''
      else if mode AND S_IFMT = 0x4000 then ''directory''
      else if mode AND S_IFMT = 0xA000 then ''link''
      else if mode AND S_IFMT = 0xC000 then ''socket''
      else if mode AND S_IFMT = 0x1000 then ''named pipe''
      else if mode AND S_IFMT = 0x2000 then ''char device''
      else if mode AND S_IFMT = 0x6000 then ''block device''
      else ''other'')"

definition file_utime :: "'s posix \<Rightarrow> 'n lua_num \<Rightarrow> 'n lval list \<Rightarrow> 's lfs \<Rightarrow> 'n outcome \<times> 's lfs" where
  "file_utime P N args s = check (luaL_checkstring N args 1) (\<lambda>file.
     let finish = (\<lambda>buf. case in_os (os_utime P file buf) s of (r, s1) \<Rightarrow> (ok_or_message r (os_strerror P), s1)) in
     if length args = 1 then finish None
     else check (luaL_optnumber N args 2 (n_of_int N 0)) (\<lambda>n2.
       let actime = n_cast N n2 in
       check (luaL_optnumber N args 3 (n_of_int N actime)) (\<lambda>n3.
         finish (Some (actime, n_cast N n3))) s) s) s"

text \<open>\<open>if (mode & bit) perms[i] = ch\<close>\<close>

definition set_perm :: "32 word \<Rightarrow> 32 word \<Rightarrow> nat \<Rightarrow> char \<Rightarrow> string \<Rightarrow> string" where
  "set_perm mode b i ch perms = (if mode AND b \<noteq> 0 then perms[i := ch] else perms)"

definition perm2string :: "32 word \<Rightarrow> string" where
  "perm2string mode =
     (let perms = replicate 9 (CHR ''-'');
          perms = set_perm mode S_IRUSR 0 (CHR ''r'') perms;
          perms = set_perm mode S_IWUSR 1 (CHR ''w'') perms;
          perms = set_perm mode S_IXUSR 2 (CHR ''x'') perms;
          perms = set_perm mode S_IRGRP 3 (CHR ''r'') perms;
          perms = set_perm mode S_IWGRP 4 (CHR ''w'') perms;
          perms = set_perm mode S_IXGRP 5 (CHR ''x'') perms;
          perms = set_perm mode S_IROTH 6 (CHR ''r'') perms;
          perms = set_perm mode S_IWOTH 7 (CHR ''w'') perms;
          perms = set_perm mode S_IXOTH 8 (CHR ''x'') perms
      in perms)"

definition push_st_mode :: "'n lua_num \<Rightarrow> stat \<Rightarrow> 'n lval" where
  "push_st_mode N info = LStr (mode2string (st_mode info))"

definition push_st_perm :: "'n lua_num \<Rightarrow> stat \<Rightarrow> 'n lval" where
  "push_st_perm N info = LStr (perm2string (st_mode info))"

text \<open>The other push functions convert one field to a number.\<close>

definition push_st :: "(stat \<Rightarrow> int) \<Rightarrow> 'n lua_num \<Rightarrow> stat \<Rightarrow> 'n lval" where
  "push_st field N info = LNum (n_of_int N (field info))"

definition members :: "(string \<times> ('n lua_num \<Rightarrow> stat \<Rightarrow> 'n lval)) list" where
  "members =
     [(''mode'', push_st_mode),
      (''dev'', push_st st_dev),
      (''ino'', push_st st_ino),
      (''nlink'', push_st st_nlink),
      (''uid'', push_st st_uid),
      (''gid'', push_st st_gid),
      (''rdev'', push_st st_rdev),
      (''access'', push_st st_atime),
      (''modification'', push_st st_mtime),
      (''change'', push_st st_ctime),
      (''size'', push_st st_size),
      (''permissions'', push_st_perm),
      (''blocks'', push_st st_blocks),
      (''blksize'', push_st st_blksize)]"

text \<open>
  The last loop of \<open>_file_info_\<close> stores into whatever is on top of the stack: a new table, or the last
  argument. \<open>lua_rawset\<close> does not check that this is a table.
\<close>

definition store_members :: "'n lua_num \<Rightarrow> stat \<Rightarrow> 'n lval \<Rightarrow> 'n outcome" where
  "store_members N info target = (case target of
     LTab t \<Rightarrow> Returns [LTab (fold (\<lambda>(name, push) t. AList.update name (push N info) t) members t)]
   | _ \<Rightarrow> Crashes)"

definition do_file_info ::
  "(string \<Rightarrow> 's \<Rightarrow> int + stat) \<Rightarrow> 'n lua_num \<Rightarrow> 'n lval list \<Rightarrow> 's lfs \<Rightarrow> 'n outcome \<times> 's lfs" where
  "do_file_info st N args s = check (luaL_checkstring N args 1) (\<lambda>file.
     case st file (os s) of
       Inl _ \<Rightarrow> (Returns [LNil, LStr (''cannot obtain information from file `'' @ file @ [CHR 0x27])], s)
     | Inr info \<Rightarrow>
         (case lua_tostring N (arg 2 args) of
            Some member \<Rightarrow>
              (case map_of members (cstring member) of
                 Some push \<Rightarrow> (Returns [push N info], s)
               | None \<Rightarrow> (Raises (Lua_error ''invalid attribute name''), s))
          | None \<Rightarrow>
              (case arg 2 args of
                 LTab t \<Rightarrow> (store_members N info (last args), s)
               | _ \<Rightarrow> (store_members N info (LTab []), s)))) s"

definition file_info :: "'s posix \<Rightarrow> 'n lua_num \<Rightarrow> 'n lval list \<Rightarrow> 's lfs \<Rightarrow> 'n outcome \<times> 's lfs" where
  "file_info P = do_file_info (os_stat P)"

definition link_info :: "'s posix \<Rightarrow> 'n lua_num \<Rightarrow> 'n lval list \<Rightarrow> 's lfs \<Rightarrow> 'n outcome \<times> 's lfs" where
  "link_info P = do_file_info (os_lstat P)"

section \<open>The tables of the library\<close>

type_synonym ('s, 'n) lfs_fun = "'s posix \<Rightarrow> 'n lua_num \<Rightarrow> 'n lval list \<Rightarrow> 's lfs \<Rightarrow> 'n outcome \<times> 's lfs"

definition fslib :: "(string \<times> ('s, 'n) lfs_fun) list" where
  "fslib =
     [(''attributes'', file_info),
      (''chdir'', change_dir),
      (''currentdir'', \<lambda>P N. get_dir P),
      (''dir'', dir_iter_factory),
      (''link'', make_link),
      (''lock'', file_lock),
      (''mkdir'', make_dir),
      (''rmdir'', remove_dir),
      (''symlinkattributes'', link_info),
      (''setmode'', \<lambda>P. lfs_f_setmode),
      (''touch'', file_utime),
      (''unlock'', file_unlock),
      (''lock_dir'', lfs_lock_dir)]"

definition dir_methods :: "(string \<times> ('s, 'n) lfs_fun) list" where
  "dir_methods = [(''next'', \<lambda>P N. dir_iter), (''close'', \<lambda>P N. dir_close)]"

definition lock_methods :: "(string \<times> ('s, 'n) lfs_fun) list" where
  "lock_methods = [(''free'', \<lambda>P N. lfs_unlock_dir P)]"

text \<open>The collector runs the metamethod \<open>__gc\<close> and gives the memory back.\<close>

definition gc_dir :: "nat \<Rightarrow> 's lfs \<Rightarrow> 'n outcome \<times> 's lfs" where
  "gc_dir a s = (case dir_close [LUser (Dir a)] s of (r, s1) \<Rightarrow> (r, s1\<lparr>dirs := (dirs s1)(a := None)\<rparr>))"

definition gc_lock :: "'s posix \<Rightarrow> nat \<Rightarrow> 's lfs \<Rightarrow> 'n outcome \<times> 's lfs" where
  "gc_lock P a s = (case lfs_unlock_dir P [LUser (Lock a)] s of
     (r, s1) \<Rightarrow> (r, s1\<lparr>locks := (locks s1)(a := None)\<rparr>))"

definition set_info :: "(string \<times> 'n lval) list \<Rightarrow> (string \<times> 'n lval) list" where
  "set_info t = AList.update ''_VERSION'' (LStr ''LuaFileSystem 1.6.2'')
     (AList.update ''_DESCRIPTION'' (LStr (''LuaFileSystem is a Lua library developed to complement '' @
        ''the set of functions related to file systems offered by the standard Lua distribution''))
     (AList.update ''_COPYRIGHT'' (LStr ''Copyright (C) 2003-2012 Kepler Project'') t))"

text \<open>The table that \<open>luaopen_lfs\<close> leaves on the stack and in the global \<open>lfs\<close>.\<close>

definition luaopen_lfs :: "(string \<times> 'n lval) list" where
  "luaopen_lfs = set_info (map (\<lambda>name. (name, LFun name)) (map fst (fslib :: (string \<times> (unit, 'n) lfs_fun) list)))"

end
