(* ===== verification/Posix_Fs.thy ===== *)
theory Posix_Fs
  imports Lfs "HOL-Library.AList"
begin

text \<open>
  A small POSIX file system, on which the properties of the file system library are applied to concrete
  calls: directories with a number each and a parent, symbolic links that path resolution follows wherever
  they stand before the last component, a working directory, and system calls that fail with the error numbers
  that POSIX documents for them. It is an instance of the record \<open>posix\<close>; the library does not depend on it.
\<close>

section \<open>Directories and path resolution\<close>

datatype node = Sub nat | Link string | Plain

record fsys =
  tree :: "((nat \<times> string) \<times> node) list"
  parents :: "(nat \<times> nat) list"
  cwd :: nat

definition parent :: "fsys \<Rightarrow> nat \<Rightarrow> nat" where
  "parent x d = (case map_of (parents x) d of None \<Rightarrow> 0 | Some e \<Rightarrow> e)"

text \<open>The components of a path; an empty one stands for a slash too many.\<close>

fun components :: "string \<Rightarrow> string list" where
  "components [] = [[]]"
| "components (ch # p) = (case components p of
     [] \<Rightarrow> []
   | c # cs \<Rightarrow> if ch = CHR ''/'' then [] # c # cs else (ch # c) # cs)"

definition absolute :: "string \<Rightarrow> bool" where
  "absolute p = (case p of [] \<Rightarrow> False | ch # _ \<Rightarrow> ch = CHR ''/'')"

text \<open>
  \<open>walk n x d cs\<close> resolves the components \<open>cs\<close> from directory \<open>d\<close> on. Its result is the list of the entries
  looked up before the last component, and the entry that the path denotes: a directory and a name, whether it
  exists or not. \<open>n\<close> bounds the steps, as the system bounds the length of a path and the links followed.
\<close>

fun walk :: "nat \<Rightarrow> fsys \<Rightarrow> nat \<Rightarrow> string list \<Rightarrow> (nat \<times> string) list \<times> (nat \<times> string) option" where
  "walk 0 x d cs = ([], None)"
| "walk (Suc n) x d [] = ([], None)"
| "walk (Suc n) x d [c] = ([], if c = [] \<or> c = ''.'' \<or> c = ''..'' then None else Some (d, c))"
| "walk (Suc n) x d (c # c' # cs) =
     (if c = [] \<or> c = ''.'' then walk n x d (c' # cs)
      else if c = ''..'' then walk n x (parent x d) (c' # cs)
      else (case map_of (tree x) (d, c) of
          Some (Sub e) \<Rightarrow> apfst (Cons (d, c)) (walk n x e (c' # cs))
        | Some (Link t) \<Rightarrow> apfst (Cons (d, c)) (walk n x (if absolute t then 0 else d) (components t @ c' # cs))
        | _ \<Rightarrow> ([(d, c)], None)))"

definition path_steps :: nat where "path_steps = 40"

definition origin :: "fsys \<Rightarrow> string \<Rightarrow> nat" where
  "origin x p = (if absolute p then 0 else cwd x)"

definition resolve :: "fsys \<Rightarrow> string \<Rightarrow> (nat \<times> string) list \<times> (nat \<times> string) option" where
  "resolve x p = walk path_steps x (origin x p) (components p)"

definition path_entry :: "fsys \<Rightarrow> string \<Rightarrow> (nat \<times> string) option" where
  "path_entry x p = snd (resolve x p)"

definition path_way :: "fsys \<Rightarrow> string \<Rightarrow> (nat \<times> string) set" where
  "path_way x p = set (fst (resolve x p))"

definition entries :: "fsys \<Rightarrow> (nat \<times> string) set" where
  "entries x = dom (map_of (tree x))"

text \<open>The directory that a path leads to, links followed to the end.\<close>

definition path_dir :: "fsys \<Rightarrow> string \<Rightarrow> nat option" where
  "path_dir x p = (if p = [] then None
     else map_option fst (snd (walk path_steps x (origin x p) (components p @ [''f'']))))"

section \<open>The system calls\<close>

definition ENOENT :: int where "ENOENT = 2"
definition EEXIST :: int where "EEXIST = 17"

definition fs_create :: "node \<Rightarrow> string \<Rightarrow> fsys \<Rightarrow> (int + unit) \<times> fsys" where
  "fs_create v n x = (case path_entry x n of
     None \<Rightarrow> (Inl ENOENT, x)
   | Some e \<Rightarrow>
       if map_of (tree x) e = None then (Inr (), x\<lparr>tree := (e, v) # tree x\<rparr>) else (Inl EEXIST, x))"

definition fs_unlink :: "string \<Rightarrow> fsys \<Rightarrow> fsys" where
  "fs_unlink n x = (case path_entry x n of
     None \<Rightarrow> x
   | Some e \<Rightarrow>
       (case map_of (tree x) e of Some (Sub d) \<Rightarrow> x | _ \<Rightarrow> x\<lparr>tree := AList.delete e (tree x)\<rparr>))"

definition fs_mkdir :: "string \<Rightarrow> fsys \<Rightarrow> (int + unit) \<times> fsys" where
  "fs_mkdir n x =
     (let d = Suc (length (parents x)) in
      case fs_create (Sub d) n x of
        (Inl e, x') \<Rightarrow> (Inl e, x')
      | (Inr _, x') \<Rightarrow>
          (Inr (), x'\<lparr>parents := (d, (case path_entry x n of None \<Rightarrow> 0 | Some e \<Rightarrow> fst e)) # parents x\<rparr>))"

definition dir_names :: "fsys \<Rightarrow> nat \<Rightarrow> string list" where
  "dir_names x d = map (snd \<circ> fst) (filter (\<lambda>(e, v). fst e = d) (tree x))"

definition fs_rmdir :: "string \<Rightarrow> fsys \<Rightarrow> (int + unit) \<times> fsys" where
  "fs_rmdir n x = (case path_entry x n of
     None \<Rightarrow> (Inl ENOENT, x)
   | Some e \<Rightarrow>
       (case map_of (tree x) e of
          Some (Sub d) \<Rightarrow>
            if dir_names x d = [] then (Inr (), x\<lparr>tree := AList.delete e (tree x)\<rparr>) else (Inl 39, x)
        | Some _ \<Rightarrow> (Inl 20, x)
        | None \<Rightarrow> (Inl ENOENT, x)))"

definition fs_chdir :: "string \<Rightarrow> fsys \<Rightarrow> (int + unit) \<times> fsys" where
  "fs_chdir p x = (case path_dir x p of None \<Rightarrow> (Inl ENOENT, x) | Some d \<Rightarrow> (Inr (), x\<lparr>cwd := d\<rparr>))"

definition fs_opendir :: "string \<Rightarrow> fsys \<Rightarrow> int + string list" where
  "fs_opendir p x = (case path_dir x p of
     None \<Rightarrow> Inl ENOENT | Some d \<Rightarrow> Inr (''.'' # ''..'' # dir_names x d))"

definition fs_info :: "node \<Rightarrow> stat" where
  "fs_info v = \<lparr>st_mode = (case v of Sub _ \<Rightarrow> 0x41ED | Link _ \<Rightarrow> 0xA1FF | Plain \<Rightarrow> 0x81A4), st_dev = 1,
     st_ino = 2, st_nlink = 1, st_uid = 0, st_gid = 10, st_rdev = 0, st_atime = 3, st_mtime = 4, st_ctime = 5,
     st_size = 6, st_blocks = 8, st_blksize = 4096\<rparr>"

definition fs_lstat :: "string \<Rightarrow> fsys \<Rightarrow> int + stat" where
  "fs_lstat p x = (case path_entry x p of
     None \<Rightarrow> (case path_dir x p of None \<Rightarrow> Inl ENOENT | Some d \<Rightarrow> Inr (fs_info (Sub d)))
   | Some e \<Rightarrow> (case map_of (tree x) e of None \<Rightarrow> Inl ENOENT | Some v \<Rightarrow> Inr (fs_info v)))"

text \<open>\<open>stat\<close> of a link is what the link leads to: a directory, or another entry of the link's directory.\<close>

fun follow :: "nat \<Rightarrow> fsys \<Rightarrow> nat \<Rightarrow> string \<Rightarrow> int + stat" where
  "follow 0 x d p = Inl 40"
| "follow (Suc n) x d p = (case snd (walk path_steps x (if absolute p then 0 else d) (components p)) of
     None \<Rightarrow> (case path_dir (x\<lparr>cwd := d\<rparr>) p of None \<Rightarrow> Inl ENOENT | Some e \<Rightarrow> Inr (fs_info (Sub e)))
   | Some e \<Rightarrow>
       (case map_of (tree x) e of
          None \<Rightarrow> Inl ENOENT
        | Some (Link t) \<Rightarrow> follow n x (fst e) t
        | Some v \<Rightarrow> Inr (fs_info v)))"

definition fs_stat :: "string \<Rightarrow> fsys \<Rightarrow> int + stat" where
  "fs_stat p x = follow path_steps x (cwd x) p"

definition posix_fs :: "fsys posix" where
  "posix_fs = \<lparr>os_strerror = (\<lambda>e. if e = EEXIST then ''File exists'' else ''No such file or directory''),
     os_chdir = fs_chdir, os_getcwd = (\<lambda>n x. Inr ''/''), os_setlk = (\<lambda>fd l x. (Inr (), x)),
     os_malloc = (\<lambda>n x. Inr ()), os_symlink = (\<lambda>t. fs_create (Link t)), os_link = (\<lambda>t. fs_create Plain),
     os_unlink = fs_unlink, os_mkdir = (\<lambda>n m. fs_mkdir n), os_rmdir = fs_rmdir,
     os_utime = (\<lambda>n t x. (Inr (), x)), os_stat = fs_stat, os_lstat = fs_lstat, os_opendir = fs_opendir\<rparr>"

section \<open>What path resolution depends on\<close>

lemma components_not_Nil [simp]: "components p \<noteq> []"
  by (induction p) (auto split: list.splits)

lemma components_append_slash: "components (p @ CHR ''/'' # q) = components p @ components q"
proof (induction p)
  case (Cons ch p)
  then show ?case by (cases "components p") auto
qed (simp split: list.split)

lemma walk_last: "snd (walk n x d cs) = Some e \<Longrightarrow> snd e = last cs"
proof (induction n x d cs rule: walk.induct)
  case (4 n x d c c' cs)
  then show ?case
    by (cases "c = [] \<or> c = ''.''"; cases "c = ''..''"; cases "map_of (tree x) (d, c)")
      (simp_all split: node.splits)
qed (auto split: if_splits)

lemma walk_existing:
  "snd (walk n x d cs) \<noteq> None \<Longrightarrow> e \<in> set (fst (walk n x d cs)) \<Longrightarrow> map_of (tree x) e \<noteq> None"
  by (induction n x d cs rule: walk.induct) (auto split: if_splits option.splits node.splits)

text \<open>Only the entries on the way matter.\<close>

lemma walk_cong:
  assumes "parents x' = parents x"
    "\<And>e. e \<in> set (fst (walk n x d cs)) \<Longrightarrow> map_of (tree x') e = map_of (tree x) e"
  shows "walk n x' d cs = walk n x d cs"
  using assms
proof (induction n x d cs rule: walk.induct)
  case (4 n x d c c' cs)
  have p: "parent x' = parent x" using 4(5) by (simp add: parent_def fun_eq_iff)
  show ?case
  proof (cases "c = [] \<or> c = ''.'' \<or> c = ''..''")
    case True
    then show ?thesis
    proof (cases "c = ''..''")
      case up: True
      have "walk n x' (parent x d) (c' # cs) = walk n x (parent x d) (c' # cs)"
        by (rule 4(2)) (use up 4(5,6) in simp_all)
      with up p show ?thesis by simp
    next
      case stay: False
      with True have "walk n x' d (c' # cs) = walk n x d (c' # cs)" by (intro 4(1)) (use 4(5,6) in auto)
      with True stay show ?thesis by auto
    qed
  next
    case False
    have m: "map_of (tree x') (d, c) = map_of (tree x) (d, c)"
      by (rule 4(6)) (use False in \<open>auto split: option.split node.split\<close>)
    show ?thesis
    proof (cases "map_of (tree x) (d, c)")
      case None
      with m False show ?thesis by simp
    next
      case (Some v)
      show ?thesis
      proof (cases v)
        case (Sub f)
        have "walk n x' f (c' # cs) = walk n x f (c' # cs)"
          by (rule 4(3)[OF _ _ Some Sub]) (use False Some Sub 4(5,6) in simp_all)
        with m Some Sub False show ?thesis by simp
      next
        case (Link t)
        let ?f = "if absolute t then 0 else d"
        have "walk n x' ?f (components t @ c' # cs) = walk n x ?f (components t @ c' # cs)"
          by (rule 4(4)[OF _ _ Some Link]) (use False Some Link 4(5,6) in simp_all)
        with m Some Link False show ?thesis by simp
      next
        case Plain
        with m Some False show ?thesis by simp
      qed
    qed
  qed
qed simp_all

lemma resolve_cong:
  assumes "parents x' = parents x" "cwd x' = cwd x"
    "\<And>e. e \<in> path_way x p \<Longrightarrow> map_of (tree x') e = map_of (tree x) e"
  shows "path_entry x' p = path_entry x p \<and> path_way x' p = path_way x p"
proof -
  have "origin x' p = origin x p" using assms(2) by (simp add: origin_def)
  then have "resolve x' p = resolve x p"
    using walk_cong[OF assms(1), of path_steps "origin x p" "components p"] assms(3)
    by (simp add: resolve_def path_way_def)
  then show ?thesis by (simp add: path_entry_def path_way_def)
qed

text \<open>Creating and removing an entry.\<close>

lemma fs_create_ok:
  assumes "fs_create v n x = (Inr (), x')"
  shows "\<exists>e. path_entry x n = Some e \<and> e \<notin> entries x \<and> entries x' = insert e (entries x) \<and>
     (\<forall>m. e \<notin> path_way x m \<longrightarrow> path_entry x' m = path_entry x m \<and> path_way x' m = path_way x m)"
proof -
  obtain e where e: "path_entry x n = Some e" "map_of (tree x) e = None" "x' = x\<lparr>tree := (e, v) # tree x\<rparr>"
    using assms by (auto simp: fs_create_def split: option.splits if_splits)
  have "path_entry x' m = path_entry x m \<and> path_way x' m = path_way x m" if "e \<notin> path_way x m" for m
    by (rule resolve_cong) (use e that in auto)
  moreover have "entries x' = insert e (entries x)" using e by (auto simp: entries_def)
  ultimately show ?thesis using e by (auto simp: entries_def)
qed

lemma fs_create_failed: "fs_create v n x = (Inl k, x') \<Longrightarrow> x' = x"
  by (auto simp: fs_create_def split: option.splits if_splits)

lemma fs_unlink_nothing: "path_entry x n = None \<Longrightarrow> fs_unlink n x = x"
  by (simp add: fs_unlink_def)

lemma fs_unlink_entry:
  assumes "path_entry x n = Some e"
  shows "entries x - {e} \<subseteq> entries (fs_unlink n x)" "entries (fs_unlink n x) \<subseteq> entries x"
    "e \<notin> path_way x m \<Longrightarrow>
      path_entry (fs_unlink n x) m = path_entry x m \<and> path_way (fs_unlink n x) m = path_way x m"
proof -
  have c: "fs_unlink n x = x \<or> fs_unlink n x = x\<lparr>tree := AList.delete e (tree x)\<rparr>"
    using assms by (auto simp: fs_unlink_def split: option.split node.split)
  have d: "map_of (AList.delete e (tree x)) = (map_of (tree x))(e := None)"
    by (simp add: AList.delete_conv' fun_eq_iff)
  show "entries x - {e} \<subseteq> entries (fs_unlink n x)" "entries (fs_unlink n x) \<subseteq> entries x"
    using c d by (auto simp: entries_def split: if_splits)
  show "path_entry (fs_unlink n x) m = path_entry x m \<and> path_way (fs_unlink n x) m = path_way x m"
    if "e \<notin> path_way x m"
    by (rule resolve_cong) (use c d that in auto)
qed

lemma path_way_exists: "path_entry x n = Some e \<Longrightarrow> path_way x n \<subseteq> entries x"
  using walk_existing[of path_steps x "origin x n" "components n"]
  by (auto simp: path_entry_def path_way_def resolve_def entries_def dom_def)

lemma path_entry_name:
  assumes "path_entry x (p @ lockfile) = Some (d, c)"
  shows "c = ''lockfile.lfs''"
proof -
  have "components (p @ lockfile) = components p @ [''lockfile.lfs'']"
    using components_append_slash[of p "''lockfile.lfs''"] by (simp add: lockfile_def)
  with assms walk_last[of path_steps x _ "components (p @ lockfile)"] show ?thesis
    by (fastforce simp: path_entry_def resolve_def)
qed

end
