(* ===== verification/Lfs_Props.thy ===== *)
theory Lfs_Props
  imports Posix_Fs
begin

text \<open>
  Properties of the file system library: directory streams are closed exactly once, directory locks exclude
  each other as long as the working directory stays, attributes have the types that the names promise.
\<close>

section \<open>Permissions\<close>

lemma bit_test: "mode AND 2 ^ n \<noteq> 0 \<longleftrightarrow> bit mode n" for mode :: "32 word"
  by (simp add: and_exp_eq_0_iff_not_bit)

lemma perm_test:
  "mode AND S_IRUSR \<noteq> 0 \<longleftrightarrow> bit mode 8" "mode AND S_IWUSR \<noteq> 0 \<longleftrightarrow> bit mode 7" "mode AND S_IXUSR \<noteq> 0 \<longleftrightarrow> bit mode 6"
  "mode AND S_IRGRP \<noteq> 0 \<longleftrightarrow> bit mode 5" "mode AND S_IWGRP \<noteq> 0 \<longleftrightarrow> bit mode 4" "mode AND S_IXGRP \<noteq> 0 \<longleftrightarrow> bit mode 3"
  "mode AND S_IROTH \<noteq> 0 \<longleftrightarrow> bit mode 2" "mode AND S_IWOTH \<noteq> 0 \<longleftrightarrow> bit mode 1" "mode AND S_IXOTH \<noteq> 0 \<longleftrightarrow> bit mode 0"
  using bit_test[of mode 8] bit_test[of mode 7] bit_test[of mode 6] bit_test[of mode 5] bit_test[of mode 4]
    bit_test[of mode 3] bit_test[of mode 2] bit_test[of mode 1] bit_test[of mode 0]
  by (simp_all add: perm_bits)

definition perm_char :: "32 word \<Rightarrow> nat \<Rightarrow> char" where
  "perm_char mode i = (if bit mode (8 - i) then ''rwxrwxrwx'' ! i else CHR ''-'')"

lemma perm2string_chars: "perm2string mode = map (perm_char mode) [0..<9]"
  by (simp add: perm2string_def set_perm_def perm_test perm_char_def upt_rec eval_nat_numeral Let_def)

definition parse_perm :: "string \<Rightarrow> 32 word" where
  "parse_perm p = horner_sum of_bool 2 (rev (map (\<lambda>ch. ch \<noteq> CHR ''-'') p))"

lemma perm_char_set: "i < 9 \<Longrightarrow> perm_char mode i \<noteq> CHR ''-'' \<longleftrightarrow> bit mode (8 - i)"
  by (auto simp: perm_char_def less_Suc_eq eval_nat_numeral)

lemma parse_perm2string: "parse_perm (perm2string mode) = mode AND 0x1FF"
proof -
  have "map (\<lambda>ch. ch \<noteq> CHR ''-'') (perm2string mode) = map (\<lambda>i. bit mode (8 - i)) [0..<9]"
    using perm_char_set by (auto simp: perm2string_chars)
  also have "rev \<dots> = map (bit mode) [0..<9]" by (simp add: upt_rec eval_nat_numeral)
  finally have "parse_perm (perm2string mode) = take_bit 9 mode"
    by (simp add: parse_perm_def horner_sum_bit_eq_take_bit)
  also have "\<dots> = mode AND 0x1FF" by (simp add: take_bit_eq_mask mask_eq_exp_minus_1)
  finally show ?thesis .
qed

section \<open>Attributes\<close>

definition attribute_table :: "'n lua_num \<Rightarrow> stat \<Rightarrow> (string \<times> 'n lval) list" where
  "attribute_table N info = map (\<lambda>(name, push). (name, push N info)) members"

lemma store_members_new: "store_members N info (LTab []) = Returns [LTab (attribute_table N info)]"
  by (simp add: store_members_def members_def attribute_table_def)

lemma map_of_attribute_table:
  "map_of (attribute_table N info) m = map_option (\<lambda>push. push N info) (map_of members m)"
  unfolding attribute_table_def by (simp add: map_of_map)

lemma map_of_store_fold:
  assumes "distinct (map fst ms)"
  shows "map_of (fold (\<lambda>(name, push) t. AList.update name (push N info) t) ms t0) =
    map_of t0 ++ map_of (map (\<lambda>(name, push). (name, push N info)) ms)"
  using assms
proof (induction ms arbitrary: t0)
  case (Cons a ms)
  obtain k p where a: "a = (k, p)" by (cases a)
  let ?m = "map_of (map (\<lambda>(name, push). (name, push N info)) ms)"
  have "dom ?m = fst ` set ms" by (simp add: dom_map_of_conv_image_fst image_image case_prod_beta)
  then have "k \<notin> dom ?m" using Cons.prems a by simp
  then have m: "(map_of t0)(k \<mapsto> p N info) ++ ?m = map_of t0 ++ ?m(k \<mapsto> p N info)"
    by (auto simp: map_add_def fun_eq_iff split: option.split)
  have "map_of (fold (\<lambda>(name, push) t. AList.update name (push N info) t) (a # ms) t0) =
      map_of (AList.update k (p N info) t0) ++ ?m"
    using Cons a by simp
  also have "map_of (AList.update k (p N info) t0) = (map_of t0)(k \<mapsto> p N info)"
    by (simp only: AList.update_conv')
  finally show ?case by (simp only: m a list.map map_of.simps prod.case fst_conv snd_conv)
qed simp

lemma store_members_given:
  "\<exists>t1. store_members N info (LTab t0) = Returns [LTab t1] \<and> map_of t1 = map_of t0 ++ map_of (attribute_table N info)"
proof -
  have "distinct (map fst (members :: (string \<times> ('n lua_num \<Rightarrow> stat \<Rightarrow> 'n lval)) list))" by (simp add: members_def)
  from map_of_store_fold[OF this, of N info t0] show ?thesis by (simp add: store_members_def attribute_table_def)
qed

section \<open>Directory streams\<close>

text \<open>
  A history of the library: calls with arguments that Lua can have, collections, and changes that other
  processes make in the file system. \<open>live\<close> says that userdata given as arguments has not been collected;
  the object of a directory that could not be opened never reaches Lua. \<open>proper\<close> excludes the two kinds of
  call that the library does not check.
\<close>

definition live :: "'n lval list \<Rightarrow> 's lfs \<Rightarrow> bool" where
  "live args s \<longleftrightarrow> (\<forall>a. LUser (Dir a) \<in> set args \<longrightarrow> (\<exists>d h. dirs s a = Some d \<and> dir d = Some h)) \<and>
     (\<forall>a. LUser (Lock a) \<in> set args \<longrightarrow> locks s a \<noteq> None)"

definition is_table :: "'n lval \<Rightarrow> bool" where
  "is_table v = (case v of LTab _ \<Rightarrow> True | _ \<Rightarrow> False)"

definition is_dir :: "'n lval \<Rightarrow> bool" where
  "is_dir v = (case v of LUser (Dir _) \<Rightarrow> True | _ \<Rightarrow> False)"

definition proper :: "string \<Rightarrow> 'n lval list \<Rightarrow> bool" where
  "proper name args \<longleftrightarrow> (name = ''close'' \<longrightarrow> is_dir (arg 1 args)) \<and>
     (name = ''attributes'' \<or> name = ''symlinkattributes'' \<longrightarrow> length args \<le> 2 \<or> \<not> is_table (arg 2 args))"

inductive lfs_step :: "'s posix \<Rightarrow> 'n lua_num \<Rightarrow> 's lfs \<Rightarrow> 'n outcome \<Rightarrow> 's lfs \<Rightarrow> bool" for P N where
  call: "(name, f) \<in> set (fslib @ dir_methods @ lock_methods) \<Longrightarrow> live args s \<Longrightarrow> proper name args \<Longrightarrow>
    f P N args s = (r, s') \<Longrightarrow> lfs_step P N s r s'"
| collect_dir: "dirs s a \<noteq> None \<Longrightarrow> gc_dir a s = (r, s') \<Longrightarrow> lfs_step P N s r s'"
| collect_lock: "locks s a \<noteq> None \<Longrightarrow> gc_lock P a s = (r, s') \<Longrightarrow> lfs_step P N s r s'"
| elsewhere: "lfs_step P N s (Returns []) (s\<lparr>os := x\<rparr>)"

inductive lfs_reachable :: "'s posix \<Rightarrow> 'n lua_num \<Rightarrow> 's lfs \<Rightarrow> bool" for P N where
  start: "lfs_reachable P N (init_lfs x)"
| step: "lfs_reachable P N s \<Longrightarrow> lfs_step P N s r s' \<Longrightarrow> lfs_reachable P N s'"

text \<open>
  The invariant: object and stream of a directory have the same number, and the stream is open exactly as
  long as the object says so.
\<close>

definition dir_ok :: "nat \<Rightarrow> nat \<Rightarrow> dir_data option \<Rightarrow> string list option \<Rightarrow> bool" where
  "dir_ok n a x y = (case x of
     None \<Rightarrow> y = None
   | Some d \<Rightarrow> a < n \<and> (dir d = None \<or> dir d = Some a) \<and> (y \<noteq> None \<longleftrightarrow> \<not> closed d \<and> dir d \<noteq> None))"

definition dirs_ok :: "'s lfs \<Rightarrow> bool" where
  "dirs_ok s \<longleftrightarrow> (\<forall>a. dir_ok (next_id s) a (dirs s a) (streams s a))"

lemma dir_ok_mono: "dir_ok n a x y \<Longrightarrow> n \<le> m \<Longrightarrow> dir_ok m a x y"
  by (auto simp: dir_ok_def split: option.splits)

text \<open>A step changes one directory at most.\<close>

lemma dirs_ok_upd:
  assumes "dirs_ok s" "next_id s \<le> next_id s'" "dir_ok (next_id s') a (dirs s' a) (streams s' a)"
    "\<And>b. b \<noteq> a \<Longrightarrow> dirs s' b = dirs s b \<and> streams s' b = streams s b"
  shows "dirs_ok s'"
  unfolding dirs_ok_def
proof
  fix b
  show "dir_ok (next_id s') b (dirs s' b) (streams s' b)"
    using assms dir_ok_mono[of "next_id s" b "dirs s b" "streams s b" "next_id s'"]
    by (cases "b = a") (auto simp: dirs_ok_def)
qed

lemma dirs_okD: "dirs_ok s \<Longrightarrow> dir_ok (next_id s) a (dirs s a) (streams s a)"
  by (simp add: dirs_ok_def)

lemma arg_in_args: "arg i args \<noteq> LNil \<Longrightarrow> 0 < i \<Longrightarrow> arg i args \<in> set args"
  by (auto simp: arg_def split: if_splits)

text \<open>Most functions only use the operating system.\<close>

definition inert :: "'n outcome \<times> 's lfs \<Rightarrow> 's lfs \<Rightarrow> bool" where
  "inert rs s \<longleftrightarrow> fst rs \<noteq> Crashes \<and> streams (snd rs) = streams s \<and> dirs (snd rs) = dirs s \<and>
     next_id s \<le> next_id (snd rs)"

lemma inert_ok: "dirs_ok s \<Longrightarrow> inert (r, s') s \<Longrightarrow> dirs_ok s' \<and> r \<noteq> Crashes"
  unfolding dirs_ok_def inert_def by (auto intro: dir_ok_mono)

lemma inert_check: "(\<And>x. inert (f x) s) \<Longrightarrow> inert (check r f s) s"
  by (cases r) (simp_all add: inert_def)

lemma inert_os: "inert (case in_os f s of (r, s1) \<Rightarrow> (ok_or_message r m, s1)) s"
  "inert (case in_os f s of (r, s1) \<Rightarrow> (Returns (g r), s1)) s"
  by (auto simp: inert_def in_os_def ok_or_message_def split: prod.splits sum.splits)

lemma inert_returns: "inert (Returns v, s) s" "inert (Raises e, s) s"
  by (simp_all add: inert_def)

lemmas inert_rules = inert_check inert_os inert_returns

lemma inert_lock: "inert (do_file_lock P fh mode start len fn s) s"
  by (simp add: do_file_lock_def inert_rules split: option.split)

lemma inert_attributes:
  assumes "length args \<le> 2 \<or> \<not> is_table (arg 2 args)"
  shows "inert (do_file_info st N args s) s"
proof -
  have t: "store_members N info (LTab t) \<noteq> Crashes" for info t by (simp add: store_members_def)
  have "last args = arg 2 args" if "is_table (arg 2 args)"
  proof -
    have "length args = 2" using that assms by (auto simp: arg_def is_table_def split: if_splits)
    then obtain x y where "args = [x, y]" by (auto simp: length_Suc_conv eval_nat_numeral)
    then show ?thesis by (simp add: arg_def)
  qed
  then have l: "arg 2 args = LTab t \<Longrightarrow> last args = LTab t" for t by (simp add: is_table_def)
  show ?thesis
    unfolding do_file_info_def
    by (rule inert_check) (auto simp: inert_returns inert_def t dest: l split: sum.split option.split lval.split)
qed

lemma inert_lock_dir: "inert (lfs_lock_dir P N args s) s"
  by (auto simp: lfs_lock_dir_def inert_def in_os_def Let_def split: option.split sum.split prod.split)

lemma inert_functions:
  "inert (change_dir P N args s) s" "inert (get_dir P args s) s" "inert (make_link P N args s) s"
  "inert (file_lock P N args s) s" "inert (make_dir P N args s) s" "inert (remove_dir P N args s) s"
  "inert (lfs_f_setmode N args s) s" "inert (file_utime P N args s) s" "inert (file_unlock P N args s) s"
  "inert (lfs_lock_dir P N args s) s"
  unfolding change_dir_def get_dir_def make_link_def file_lock_def make_dir_def remove_dir_def
    lfs_f_setmode_def lfs_g_setmode_def file_utime_def file_unlock_def Let_def
  by (simp_all add: inert_rules inert_lock inert_lock_dir split: sum.split)

lemma fslib_cases:
  assumes "(name, f) \<in> set fslib"
  obtains "f = file_info" "name = ''attributes''" | "f = link_info" "name = ''symlinkattributes''"
    | "f = dir_iter_factory" | "\<And>P N args s. inert (f P N args s) s"
  using assms unfolding fslib_def list.set insert_iff empty_iff prod.inject
  by (elim disjE conjE) (simp_all only: inert_functions simp_thms)

lemma dir_iter_factory_ok:
  assumes "dirs_ok s" "dir_iter_factory P N args s = (r, s')"
  shows "dirs_ok s' \<and> r \<noteq> Crashes"
proof (cases "luaL_checkstring N args 1")
  case (Inl e)
  then show ?thesis using assms by (auto simp: dir_iter_factory_def)
next
  case (Inr path)
  have "streams s (next_id s) = None"
    using dirs_okD[OF assms(1), of "next_id s"] by (auto simp: dir_ok_def split: option.splits)
  with assms(2) Inr have "next_id s \<le> next_id s'" "dir_ok (next_id s') (next_id s) (dirs s' (next_id s)) (streams s' (next_id s))"
    "\<And>b. b \<noteq> next_id s \<Longrightarrow> dirs s' b = dirs s b \<and> streams s' b = streams s b" "r \<noteq> Crashes"
    by (auto simp: dir_iter_factory_def Let_def dir_ok_def split: sum.splits)
  then show ?thesis using dirs_ok_upd[OF assms(1)] by blast
qed

lemma dir_iter_ok:
  assumes "dirs_ok s" "live args s" "dir_iter args s = (r, s')"
  shows "dirs_ok s' \<and> r \<noteq> Crashes"
proof (cases "is_dir (arg 1 args)")
  case True
  then obtain a where a: "arg 1 args = LUser (Dir a)" by (auto simp: is_dir_def split: lval.splits udata.splits)
  then have "LUser (Dir a) \<in> set args" using arg_in_args[of 1 args] by simp
  then obtain d h where d: "dirs s a = Some d" "dir d = Some h" using assms(2) unfolding live_def by blast
  note k = dirs_okD[OF assms(1), of a, unfolded d(1) dir_ok_def, simplified]
  have h: "h = a" using k d(2) by simp
  show ?thesis
  proof (cases "closed d")
    case True
    then show ?thesis using assms a d by (auto simp: dir_iter_def)
  next
    case False
    then obtain ns where ns: "streams s a = Some ns" using k d(2) by auto
    have "next_id s' = next_id s" "dir_ok (next_id s') a (dirs s' a) (streams s' a)"
      "\<And>b. b \<noteq> a \<Longrightarrow> dirs s' b = dirs s b \<and> streams s' b = streams s b" "r \<noteq> Crashes"
      using assms(3) a d False ns h k by (auto simp: dir_iter_def dir_ok_def split: list.splits)
    then show ?thesis using dirs_ok_upd[OF assms(1)] by (metis order_refl)
  qed
next
  case False
  then show ?thesis using assms by (auto simp: dir_iter_def is_dir_def split: lval.splits udata.splits)
qed

lemma dir_close_ok:
  assumes "dirs_ok s" "dirs s a \<noteq> None" "arg 1 args = LUser (Dir a)" "dir_close args s = (r, s')"
  shows "dirs_ok s'" "r \<noteq> Crashes" "streams s' a = None"
proof -
  obtain d where d: "dirs s a = Some d" using assms(2) by auto
  note k = dirs_okD[OF assms(1), of a, unfolded d dir_ok_def, simplified]
  have x: "next_id s' = next_id s" "dir_ok (next_id s') a (dirs s' a) (streams s' a)"
    "\<And>b. b \<noteq> a \<Longrightarrow> dirs s' b = dirs s b \<and> streams s' b = streams s b" "r \<noteq> Crashes" "streams s' a = None"
    using assms(3,4) d k by (auto simp: dir_close_def dir_ok_def Let_def split: if_splits option.splits)
  then show "dirs_ok s'" "r \<noteq> Crashes" "streams s' a = None"
    using dirs_ok_upd[OF assms(1) _ x(2,3)] by simp_all
qed

lemma gc_dir_ok:
  assumes "dirs_ok s" "dirs s a \<noteq> None" "gc_dir a s = (r, s')"
  shows "dirs_ok s' \<and> r \<noteq> Crashes"
proof -
  obtain s1 where c: "dir_close [LUser (Dir a)] s = (r, s1)" "s' = s1\<lparr>dirs := (dirs s1)(a := None)\<rparr>"
    using assms(3) by (auto simp: gc_dir_def split: prod.splits)
  note k = dir_close_ok[OF assms(1,2) _ c(1)]
  have "dirs_ok s1" "r \<noteq> Crashes" "streams s1 a = None" using k by (simp_all add: arg_def)
  then show ?thesis using dirs_ok_upd[of s1 s' a] c(2) by (simp add: dir_ok_def)
qed

lemma unlock_ok:
  assumes "dirs_ok s" "live args s" "lfs_unlock_dir P args s = (r, s')"
  shows "dirs_ok s' \<and> r \<noteq> Crashes"
proof -
  have "inert (lfs_unlock_dir P args s) s"
  proof (cases "\<exists>a. arg 1 args = LUser (Lock a)")
    case True
    then obtain a where a: "arg 1 args = LUser (Lock a)" by blast
    then have "LUser (Lock a) \<in> set args" using arg_in_args[of 1 args] by simp
    then obtain l where "locks s a = Some l" using assms(2) unfolding live_def by blast
    with a show ?thesis by (simp add: lfs_unlock_dir_def inert_def split: option.split)
  next
    case False
    then show ?thesis by (auto simp: lfs_unlock_dir_def inert_def split: lval.split udata.split)
  qed
  then show ?thesis using inert_ok[OF assms(1)] assms(3) by simp
qed

lemma call_ok:
  assumes "(name, f) \<in> set (fslib @ dir_methods @ lock_methods)" "live args s" "proper name args"
    "f P N args s = (r, s')" "dirs_ok s"
  shows "dirs_ok s' \<and> r \<noteq> Crashes"
proof -
  have "(name, f) \<in> set fslib \<or> f = (\<lambda>P N. dir_iter) \<or> (f = (\<lambda>P N. dir_close) \<and> name = ''close'') \<or>
      f = (\<lambda>P N. lfs_unlock_dir P)"
    using assms(1) unfolding set_append Un_iff by (auto simp: dir_methods_def lock_methods_def)
  then consider "(name, f) \<in> set fslib" | "f = (\<lambda>P N. dir_iter)" | "f = (\<lambda>P N. dir_close)" "name = ''close''"
    | "f = (\<lambda>P N. lfs_unlock_dir P)"
    by blast
  then show ?thesis
  proof cases
    case 1
    then show ?thesis
    proof (cases rule: fslib_cases)
      case 1
      then have "inert (f P N args s) s" using assms(3) by (simp add: file_info_def proper_def inert_attributes)
      then show ?thesis using inert_ok[OF assms(5)] assms(4) by simp
    next
      case 2
      then have "inert (f P N args s) s" using assms(3) by (simp add: link_info_def proper_def inert_attributes)
      then show ?thesis using inert_ok[OF assms(5)] assms(4) by simp
    next
      case 3
      with assms(4) show ?thesis by (simp add: dir_iter_factory_ok[OF assms(5)])
    next
      case 4
      then show ?thesis using inert_ok[OF assms(5)] assms(4) by metis
    qed
  next
    case 2
    with assms(4) show ?thesis by (simp add: dir_iter_ok[OF assms(5,2)])
  next
    case 3
    then obtain a where a: "arg 1 args = LUser (Dir a)"
      using assms(3) by (auto simp: proper_def is_dir_def split: lval.splits udata.splits)
    then have "LUser (Dir a) \<in> set args" using arg_in_args[of 1 args] by simp
    then have "dirs s a \<noteq> None" using assms(2) unfolding live_def by fastforce
    from dir_close_ok(1,2)[OF assms(5) this a] assms(4) 3 show ?thesis by simp
  next
    case 4
    with assms(4) show ?thesis by (simp add: unlock_ok[OF assms(5,2)])
  qed
qed

lemma lfs_step_ok:
  assumes "lfs_step P N s r s'" "dirs_ok s"
  shows "dirs_ok s' \<and> r \<noteq> Crashes"
  using assms(1)
proof cases
  case (call name f args)
  from call_ok[OF call assms(2)] show ?thesis .
next
  case (collect_dir a)
  then show ?thesis by (simp add: gc_dir_ok[OF assms(2)])
next
  case (collect_lock a)
  then obtain s1 where c: "lfs_unlock_dir P [LUser (Lock a)] s = (r, s1)" "s' = s1\<lparr>locks := (locks s1)(a := None)\<rparr>"
    by (auto simp: gc_lock_def split: prod.splits)
  have "live [LUser (Lock a)] s" using collect_lock(1) by (simp add: live_def)
  from unlock_ok[OF assms(2) this c(1)] c(2) show ?thesis by (simp add: dirs_ok_def)
next
  case (elsewhere x)
  then show ?thesis using assms(2) by (simp add: dirs_ok_def)
qed

lemma lfs_reachable_ok: "lfs_reachable P N s \<Longrightarrow> dirs_ok s"
proof (induction rule: lfs_reachable.induct)
  case (start x)
  then show ?case by (simp add: dirs_ok_def dir_ok_def init_lfs_def)
qed (use lfs_step_ok in blast)

section \<open>Listing a directory\<close>

text \<open>The generic \<open>for\<close> of Lua over \<open>lfs.dir\<close>; \<^const>\<open>None\<close> is an error, or that \<open>n\<close> calls were not enough.\<close>

fun for_dir :: "nat \<Rightarrow> nat \<Rightarrow> 's lfs \<Rightarrow> (string list \<times> 's lfs) option" where
  "for_dir 0 a s = None"
| "for_dir (Suc n) a s = (case dir_iter [LUser (Dir a) :: unit lval] s of
     (Returns [], s1) \<Rightarrow> Some ([], s1)
   | (Returns (LStr e # _), s1) \<Rightarrow> map_option (\<lambda>(es, s2). (e # es, s2)) (for_dir n a s1)
   | _ \<Rightarrow> None)"

lemma for_dir_all:
  assumes "dirs s a = Some \<lparr>closed = False, dir = Some h\<rparr>" "streams s h = Some names"
  shows "\<exists>s'. for_dir (length names + 1) a s = Some (names, s') \<and> streams s' h = None \<and>
     dirs s' a = Some \<lparr>closed = True, dir = Some h\<rparr> \<and> os s' = os s"
  using assms
proof (induction names arbitrary: s)
  case Nil
  then show ?case by (simp add: dir_iter_def arg_def)
next
  case (Cons e es)
  let ?s = "s\<lparr>streams := (streams s)(h \<mapsto> es)\<rparr>"
  have "dir_iter [LUser (Dir a) :: unit lval] s = (Returns [LStr e], ?s)"
    using Cons.prems by (simp add: dir_iter_def arg_def)
  moreover obtain s' where "for_dir (length es + 1) a ?s = Some (es, s')" "streams s' h = None"
      "dirs s' a = Some \<lparr>closed = True, dir = Some h\<rparr>" "os s' = os s"
    using Cons.IH[of ?s] Cons.prems by auto
  ultimately show ?case by simp
qed

section \<open>Directory locks\<close>

text \<open>
  What POSIX documents of \<open>symlink\<close> and \<open>unlink\<close>. \<open>denotes x n\<close> is the directory entry that the path \<open>n\<close> leads
  to in state \<open>x\<close>, a directory and the last component of the path, or \<^const>\<open>None\<close> where the path does not
  resolve; whether this entry exists is what \<open>present\<close> says. \<open>passes x n\<close> are the entries that path resolution
  looks up on the way, before the last component. A link is made only where there is no entry, a call that fails
  makes none, and \<open>unlink\<close>, whose result the library ignores, removes the entry of its path or, when it fails,
  nothing. Making or removing an entry changes only paths whose resolution looks this entry up. A path that
  resolves goes through entries that exist.
\<close>

definition same_paths :: "('s \<Rightarrow> string \<Rightarrow> ('d \<times> string) option) \<Rightarrow> ('s \<Rightarrow> string \<Rightarrow> ('d \<times> string) set) \<Rightarrow>
    'd \<times> string \<Rightarrow> 's \<Rightarrow> 's \<Rightarrow> bool" where
  "same_paths denotes passes e x x' \<longleftrightarrow>
     (\<forall>m. e \<notin> passes x m \<longrightarrow> denotes x' m = denotes x m \<and> passes x' m = passes x m)"

definition symlink_contract :: "'s posix \<Rightarrow> ('s \<Rightarrow> string \<Rightarrow> ('d \<times> string) option) \<Rightarrow>
    ('s \<Rightarrow> string \<Rightarrow> ('d \<times> string) set) \<Rightarrow> ('s \<Rightarrow> ('d \<times> string) set) \<Rightarrow> bool" where
  "symlink_contract P denotes passes present \<longleftrightarrow>
     (\<forall>t n x x'. os_symlink P t n x = (Inr (), x') \<longrightarrow>
        (\<exists>e. denotes x n = Some e \<and> e \<notin> present x \<and> present x' = insert e (present x) \<and>
           same_paths denotes passes e x x')) \<and>
     (\<forall>t n x x' k. os_symlink P t n x = (Inl k, x') \<longrightarrow>
        present x' = present x \<and> denotes x' = denotes x \<and> passes x' = passes x) \<and>
     (\<forall>n x e. denotes x n = Some e \<longrightarrow>
        present x - {e} \<subseteq> present (os_unlink P n x) \<and> present (os_unlink P n x) \<subseteq> present x \<and>
        same_paths denotes passes e x (os_unlink P n x)) \<and>
     (\<forall>n x. denotes x n \<noteq> None \<longrightarrow> passes x n \<subseteq> present x) \<and>
     (\<forall>p x e. denotes x (p @ lockfile) = Some e \<longrightarrow> snd e = ''lockfile.lfs'')"

lemma same_pathsD:
  "same_paths denotes passes e x x' \<Longrightarrow> e \<notin> passes x m \<Longrightarrow> denotes x' m = denotes x m \<and> passes x' m = passes x m"
  unfolding same_paths_def by blast

lemma symlink_contractD:
  assumes "symlink_contract P denotes passes present"
  shows "os_symlink P t n x = (Inr (), x') \<Longrightarrow>
      \<exists>e. denotes x n = Some e \<and> e \<notin> present x \<and> present x' = insert e (present x) \<and>
        same_paths denotes passes e x x'"
    "os_symlink P t n x = (Inl k, x') \<Longrightarrow> present x' = present x \<and> denotes x' = denotes x \<and> passes x' = passes x"
    "denotes x n = Some e \<Longrightarrow> present x - {e} \<subseteq> present (os_unlink P n x) \<and>
      present (os_unlink P n x) \<subseteq> present x \<and> same_paths denotes passes e x (os_unlink P n x)"
    "denotes x n \<noteq> None \<Longrightarrow> passes x n \<subseteq> present x"
    "denotes x (p @ lockfile) = Some e \<Longrightarrow> snd e = ''lockfile.lfs''"
proof -
  note c1 = assms[unfolded symlink_contract_def]
  note c2 = conjunct2[OF c1] note c3 = conjunct2[OF c2] note c4 = conjunct2[OF c3]
  show "os_symlink P t n x = (Inr (), x') \<Longrightarrow>
      \<exists>e. denotes x n = Some e \<and> e \<notin> present x \<and> present x' = insert e (present x) \<and>
        same_paths denotes passes e x x'" using conjunct1[OF c1] by simp
  show "os_symlink P t n x = (Inl k, x') \<Longrightarrow> present x' = present x \<and> denotes x' = denotes x \<and> passes x' = passes x"
    using conjunct1[OF c2] by blast
  show "denotes x n = Some e \<Longrightarrow> present x - {e} \<subseteq> present (os_unlink P n x) \<and>
      present (os_unlink P n x) \<subseteq> present x \<and> same_paths denotes passes e x (os_unlink P n x)"
    using conjunct1[OF c3] by blast
  show "denotes x n \<noteq> None \<Longrightarrow> passes x n \<subseteq> present x" using conjunct1[OF c4] by blast
  show "denotes x (p @ lockfile) = Some e \<Longrightarrow> snd e = ''lockfile.lfs''" using conjunct2[OF c4] by blast
qed

definition held :: "'s lfs \<Rightarrow> nat \<Rightarrow> string \<Rightarrow> bool" where
  "held s a n \<longleftrightarrow> locks s a = Some \<lparr>ln = Some n\<rparr>"

text \<open>
  Histories of locks: taking, freeing and collecting them, and whatever else happens in the file system (by
  other processes, or by this one, \<open>chdir\<close> included) as long as the held lock files stay and the paths that
  the locks keep still lead to them. A lock is not asked for under a path that goes through an entry with the
  name of a lock file, which would be a link itself.
\<close>

definition clean_path :: "('s \<Rightarrow> string \<Rightarrow> ('d \<times> string) set) \<Rightarrow> 's \<Rightarrow> string \<Rightarrow> bool" where
  "clean_path passes x n \<longleftrightarrow> (\<forall>e \<in> passes x n. snd e \<noteq> ''lockfile.lfs'')"

inductive lock_history :: "'s posix \<Rightarrow> 'n lua_num \<Rightarrow> ('s \<Rightarrow> string \<Rightarrow> ('d \<times> string) option) \<Rightarrow>
    ('s \<Rightarrow> string \<Rightarrow> ('d \<times> string) set) \<Rightarrow> ('s \<Rightarrow> ('d \<times> string) set) \<Rightarrow> 's lfs \<Rightarrow> bool"
  for P N denotes passes present where
  start: "lock_history P N denotes passes present (init_lfs x)"
| take_lock: "lock_history P N denotes passes present s \<Longrightarrow> lfs_lock_dir P N args s = (r, s') \<Longrightarrow>
    \<forall>path. lua_tostring N (arg 1 args) = Some path \<longrightarrow> clean_path passes (os s) (cstring path @ lockfile) \<Longrightarrow>
    lock_history P N denotes passes present s'"
| free: "lock_history P N denotes passes present s \<Longrightarrow> lfs_unlock_dir P (args :: 'n lval list) s = (r, s') \<Longrightarrow>
    lock_history P N denotes passes present s'"
| collect: "lock_history P N denotes passes present s \<Longrightarrow> gc_lock P a s = (r :: 'n outcome, s') \<Longrightarrow>
    lock_history P N denotes passes present s'"
| others: "lock_history P N denotes passes present s \<Longrightarrow>
    \<forall>a n e. held s a n \<longrightarrow> denotes (os s) n = Some e \<longrightarrow> denotes x n = Some e \<and> passes x n = passes (os s) n \<and>
      e \<in> present x \<Longrightarrow>
    lock_history P N denotes passes present (s\<lparr>os := x\<rparr>)"

definition lock_file_ok :: "('s \<Rightarrow> string \<Rightarrow> ('d \<times> string) option) \<Rightarrow> ('s \<Rightarrow> string \<Rightarrow> ('d \<times> string) set) \<Rightarrow>
    ('s \<Rightarrow> ('d \<times> string) set) \<Rightarrow> 's \<Rightarrow> string \<Rightarrow> bool" where
  "lock_file_ok denotes passes present x n \<longleftrightarrow>
     (\<exists>e. denotes x n = Some e \<and> e \<in> present x \<and> snd e = ''lockfile.lfs'') \<and> clean_path passes x n"

definition locks_ok :: "('s \<Rightarrow> string \<Rightarrow> ('d \<times> string) option) \<Rightarrow> ('s \<Rightarrow> string \<Rightarrow> ('d \<times> string) set) \<Rightarrow>
    ('s \<Rightarrow> ('d \<times> string) set) \<Rightarrow> 's lfs \<Rightarrow> bool" where
  "locks_ok denotes passes present s \<longleftrightarrow>
     (\<forall>a. locks s a \<noteq> None \<longrightarrow> a < next_id s) \<and>
     (\<forall>a n. held s a n \<longrightarrow> lock_file_ok denotes passes present (os s) n) \<and>
     (\<forall>a b n m. held s a n \<longrightarrow> held s b m \<longrightarrow> denotes (os s) n = denotes (os s) m \<longrightarrow> a = b)"

lemma locks_okD:
  assumes "locks_ok denotes passes present s"
  shows "locks s a \<noteq> None \<Longrightarrow> a < next_id s" "held s a n \<Longrightarrow> lock_file_ok denotes passes present (os s) n"
    "held s a n \<Longrightarrow> held s b m \<Longrightarrow> denotes (os s) n = denotes (os s) m \<Longrightarrow> a = b"
  using assms unfolding locks_ok_def by blast+

lemma locks_okI:
  assumes "\<And>a. locks s a \<noteq> None \<Longrightarrow> a < next_id s"
    "\<And>a n. held s a n \<Longrightarrow> lock_file_ok denotes passes present (os s) n"
    "\<And>a b n m. held s a n \<Longrightarrow> held s b m \<Longrightarrow> denotes (os s) n = denotes (os s) m \<Longrightarrow> a = b"
  shows "locks_ok denotes passes present s"
  using assms unfolding locks_ok_def by blast

text \<open>A lock file keeps its place when another entry, not on its way, comes or goes.\<close>

lemma lock_file_ok_keep:
  assumes "lock_file_ok denotes passes present x n" "same_paths denotes passes e x x'" "e \<notin> passes x n"
    "\<And>f. denotes x n = Some f \<Longrightarrow> f \<in> present x \<Longrightarrow> f \<in> present x'"
  shows "lock_file_ok denotes passes present x' n \<and> denotes x' n = denotes x n"
proof -
  from same_pathsD[OF assms(2,3)] have "denotes x' n = denotes x n" "passes x' n = passes x n" by auto
  with assms(1,4) show ?thesis unfolding lock_file_ok_def clean_path_def by auto
qed

lemma lock_file_passes_present:
  assumes "symlink_contract P denotes passes present" "lock_file_ok denotes passes present x n"
  shows "passes x n \<subseteq> present x"
  by (rule symlink_contractD(4)[OF assms(1)]) (use assms(2) in \<open>auto simp: lock_file_ok_def\<close>)

text \<open>The three ways in which \<open>lock_dir\<close> ends.\<close>

lemma lock_dir_cases:
  assumes "lfs_lock_dir P N args s = (r, s')"
  obtains (refused) "s' = s" "\<And>a. r \<noteq> Returns [LUser (Lock a)]"
  | (failed) name errno x e where "os_symlink P ''lock'' name (os s) = (Inl errno, x)" "s' = s\<lparr>os := x\<rparr>"
      "r = Returns [LNil, LStr e]"
  | (taken) path name x where "lua_tostring N (arg 1 args) = Some path" "name = cstring path @ lockfile"
      "os_symlink P ''lock'' name (os s) = (Inr (), x)"
      "s' = s\<lparr>os := x, locks := (locks s)(next_id s \<mapsto> \<lparr>ln = Some name\<rparr>), next_id := next_id s + 1\<rparr>"
      "r = Returns [LUser (Lock (next_id s))]"
proof (cases "lua_tostring N (arg 1 args)")
  case None
  then show ?thesis using refused assms by (auto simp: lfs_lock_dir_def)
next
  case path: (Some path)
  let ?name = "cstring path @ lockfile"
  show ?thesis
  proof (cases "os_malloc P (length path + length lockfile + 1) (os s)")
    case (Inl e)
    then show ?thesis using refused assms path by (auto simp: lfs_lock_dir_def)
  next
    case malloc: (Inr u)
    obtain y x where y: "os_symlink P ''lock'' ?name (os s) = (y, x)" by (cases "os_symlink P ''lock'' ?name (os s)")
    show ?thesis
    proof (cases y)
      case (Inl errno)
      then show ?thesis using failed[of ?name errno x] assms path malloc y
        by (auto simp: lfs_lock_dir_def in_os_def Let_def)
    next
      case (Inr v)
      then show ?thesis using taken[of path ?name x] assms path malloc y
        by (simp add: lfs_lock_dir_def in_os_def Let_def)
    qed
  qed
qed

lemma lock_dir_ok:
  assumes "symlink_contract P denotes passes present" "locks_ok denotes passes present s"
    "lfs_lock_dir P N args s = (r, s')"
    "\<forall>path. lua_tostring N (arg 1 args) = Some path \<longrightarrow> clean_path passes (os s) (cstring path @ lockfile)"
  shows "locks_ok denotes passes present s'"
  using assms(3)
proof (cases rule: lock_dir_cases)
  case refused
  then show ?thesis using assms(2) by simp
next
  case (failed name errno x e)
  from symlink_contractD(2)[OF assms(1) failed(1)] assms(2) failed(2) show ?thesis
    by (simp add: locks_ok_def held_def lock_file_ok_def clean_path_def)
next
  case (taken path name x)
  obtain e where e: "denotes (os s) name = Some e" "e \<notin> present (os s)" "present x = insert e (present (os s))"
      "same_paths denotes passes e (os s) x"
    using symlink_contractD(1)[OF assms(1) taken(3)] by blast
  note o = locks_okD[OF assms(2)]
  have h: "held s' a n \<longleftrightarrow> (if a = next_id s then n = name else held s a n)" for a n
    using taken(4) by (auto simp: held_def)
  have x: "os s' = x" "next_id s' = next_id s + 1" using taken(4) by simp_all
  have old: "lock_file_ok denotes passes present x n \<and> denotes x n = denotes (os s) n" if "held s a n" for a n
    by (rule lock_file_ok_keep[OF o(2)[OF that] e(4)])
      (use lock_file_passes_present[OF assms(1) o(2)[OF that]] e(2,3) in auto)
  have "e \<notin> passes (os s) name" using symlink_contractD(4)[OF assms(1), of "os s" name] e(1,2) by auto
  from same_pathsD[OF e(4) this]
  have new: "denotes x name = Some e" "passes x name = passes (os s) name" using e(1) by simp_all
  have "snd e = ''lockfile.lfs''" using symlink_contractD(5)[OF assms(1)] e(1) taken(2) by simp
  moreover have "clean_path passes x name" using assms(4) taken(1,2) new(2) by (simp add: clean_path_def)
  ultimately have name: "lock_file_ok denotes passes present x name" using new(1) e(3) by (simp add: lock_file_ok_def)
  have other: "denotes x n \<noteq> Some e" if "held s a n" for a n
    using old[OF that] o(2)[OF that] e(2) by (auto simp: lock_file_ok_def)
  show ?thesis
  proof (rule locks_okI)
    fix a
    show "locks s' a \<noteq> None \<Longrightarrow> a < next_id s'"
      using o(1)[of a] taken(4) by (auto split: if_splits)
  next
    fix a n
    show "held s' a n \<Longrightarrow> lock_file_ok denotes passes present (os s') n"
      using old name x by (auto simp: h split: if_splits)
  next
    fix a b n m
    assume p: "held s' a n" "held s' b m" "denotes (os s') n = denotes (os s') m"
    then have eq: "denotes x n = denotes x m" using x by simp
    show "a = b"
    proof (cases "a = next_id s")
      case True
      then have "denotes x m = Some e" using p(1) eq new(1) by (simp add: h)
      then show ?thesis using p(2) other[of b m] True by (auto simp: h split: if_splits)
    next
      case False
      then have a: "held s a n" using p(1) by (simp add: h)
      have "b \<noteq> next_id s" using p(2) eq new(1) other[OF a] by (auto simp: h)
      then have b: "held s b m" using p(2) by (simp add: h)
      show ?thesis by (rule o(3)[OF a b]) (use eq old[OF a] old[OF b] in simp)
    qed
  qed
qed

text \<open>Freeing a lock removes its own file only.\<close>

lemma unlock_cases:
  assumes "lfs_unlock_dir P args s = (r, s')"
  obtains (nothing) "s' = s"
  | (freed) a n where "held s a n" "s' = s\<lparr>os := os_unlink P n (os s), locks := (locks s)(a \<mapsto> \<lparr>ln = None\<rparr>)\<rparr>"
proof (cases "\<exists>a n. arg 1 args = LUser (Lock a) \<and> held s a n")
  case True
  then obtain a n where "arg 1 args = LUser (Lock a)" "held s a n" by blast
  then show ?thesis using freed[of a n] assms by (simp add: lfs_unlock_dir_def held_def)
next
  case False
  have "s' = s"
  proof (cases "arg 1 args")
    case (LUser x)
    show ?thesis
    proof (cases x)
      case (Lock a)
      have "ln l = None" if "locks s a = Some l" for l
        using False LUser Lock that by (cases l) (auto simp: held_def)
      then show ?thesis using assms LUser Lock by (simp add: lfs_unlock_dir_def split: option.splits)
    qed (use assms LUser in \<open>simp_all add: lfs_unlock_dir_def\<close>)
  qed (use assms in \<open>simp_all add: lfs_unlock_dir_def\<close>)
  then show ?thesis by (rule nothing)
qed

lemma unlock_dir_ok:
  assumes "symlink_contract P denotes passes present" "locks_ok denotes passes present s"
    "lfs_unlock_dir P args s = (r, s')"
  shows "locks_ok denotes passes present s'"
  using assms(3)
proof (cases rule: unlock_cases)
  case nothing
  then show ?thesis using assms(2) by simp
next
  case (freed a n)
  note o = locks_okD[OF assms(2)]
  obtain e where e: "denotes (os s) n = Some e" "snd e = ''lockfile.lfs''"
    using o(2)[OF freed(1)] by (auto simp: lock_file_ok_def)
  note k = symlink_contractD(3)[OF assms(1) e(1)]
  have h: "held s' b m \<longleftrightarrow> b \<noteq> a \<and> held s b m" for b m using freed(2) by (auto simp: held_def)
  have x: "os s' = os_unlink P n (os s)" "next_id s' = next_id s" using freed(2) by simp_all
  have old: "lock_file_ok denotes passes present (os s') m \<and> denotes (os s') m = denotes (os s) m"
    if "held s b m" "b \<noteq> a" for b m
    unfolding x
  proof (rule lock_file_ok_keep[OF o(2)[OF that(1)]])
    show "same_paths denotes passes e (os s) (os_unlink P n (os s))" using k by blast
    show "e \<notin> passes (os s) m" using o(2)[OF that(1)] e(2) by (auto simp: lock_file_ok_def clean_path_def)
    show "f \<in> present (os_unlink P n (os s))" if "denotes (os s) m = Some f" "f \<in> present (os s)" for f
      using that k o(3)[OF \<open>held s b m\<close> freed(1)] e(1) \<open>b \<noteq> a\<close> by auto
  qed
  show ?thesis
  proof (rule locks_okI)
    fix b
    show "locks s' b \<noteq> None \<Longrightarrow> b < next_id s'"
      using o(1)[of b] o(1)[of a] freed by (auto simp: held_def split: if_splits)
  next
    fix b m
    show "held s' b m \<Longrightarrow> lock_file_ok denotes passes present (os s') m" using old by (auto simp: h)
  next
    fix b c m l
    show "held s' b m \<Longrightarrow> held s' c l \<Longrightarrow> denotes (os s') m = denotes (os s') l \<Longrightarrow> b = c"
      using o(3)[of b m c l] old[of b m] old[of c l] by (simp add: h)
  qed
qed

lemma lock_history_ok:
  assumes "lock_history P N denotes passes present s" "symlink_contract P denotes passes present"
  shows "locks_ok denotes passes present s"
  using assms(1)
proof (induction rule: lock_history.induct)
  case (start x)
  then show ?case by (simp add: locks_ok_def held_def init_lfs_def)
next
  case (take_lock s args r s')
  then show ?case using lock_dir_ok[OF assms(2)] by blast
next
  case (free s args r s')
  then show ?case using unlock_dir_ok[OF assms(2)] by blast
next
  case (collect s a r s')
  then obtain s1 where c: "lfs_unlock_dir P [LUser (Lock a)] s = (r, s1)" "s' = s1\<lparr>locks := (locks s1)(a := None)\<rparr>"
    by (auto simp: gc_lock_def split: prod.splits)
  from unlock_dir_ok[OF assms(2) collect.IH c(1)] c(2) show ?case
    by (auto simp: locks_ok_def held_def split: if_splits)
next
  case (others s x)
  note o = locks_okD[OF others.IH]
  have same: "lock_file_ok denotes passes present x n \<and> denotes x n = denotes (os s) n" if "held s a n" for a n
    using o(2)[OF that] others.hyps(2) that by (fastforce simp: lock_file_ok_def clean_path_def)
  show ?case
  proof (rule locks_okI)
    fix a b n m
    assume "held (s\<lparr>os := x\<rparr>) a n" "held (s\<lparr>os := x\<rparr>) b m" "denotes (os (s\<lparr>os := x\<rparr>)) n = denotes (os (s\<lparr>os := x\<rparr>)) m"
    then have "held s a n" "held s b m" "denotes x n = denotes x m" by (simp_all add: held_def)
    then show "a = b" using same o(3) by metis
  qed (use o(1) same in \<open>auto simp: held_def\<close>)
qed

section \<open>The example file system\<close>

definition plain_num :: "int lua_num" where
  "plain_num = \<lparr>n_str = (\<lambda>_. ''0''), n_parse = (\<lambda>_. None), n_of_int = id, n_int = id, n_cast = id\<rparr>"

lemma posix_fs_contract: "symlink_contract posix_fs path_entry path_way entries"
  unfolding symlink_contract_def
proof (intro conjI allI impI)
  fix t n x x'
  assume "os_symlink posix_fs t n x = (Inr (), x')"
  then show "\<exists>e. path_entry x n = Some e \<and> e \<notin> entries x \<and> entries x' = insert e (entries x) \<and>
      same_paths path_entry path_way e x x'"
    using fs_create_ok[of "Link t" n x x'] by (simp add: posix_fs_def same_paths_def)
next
  fix t n x x' k
  assume "os_symlink posix_fs t n x = (Inl k, x')"
  then have "x' = x" using fs_create_failed by (simp add: posix_fs_def)
  then show "entries x' = entries x" "path_entry x' = path_entry x" "path_way x' = path_way x" by simp_all
next
  fix n x e
  assume "path_entry x n = Some e"
  from fs_unlink_entry[OF this]
  show "entries x - {e} \<subseteq> entries (os_unlink posix_fs n x)" "entries (os_unlink posix_fs n x) \<subseteq> entries x"
    "same_paths path_entry path_way e x (os_unlink posix_fs n x)"
    by (simp_all add: posix_fs_def same_paths_def)
next
  fix n x
  assume "path_entry x n \<noteq> None"
  then show "path_way x n \<subseteq> entries x" using path_way_exists by blast
next
  fix p x e
  assume "path_entry x (p @ lockfile) = Some e"
  then show "snd e = ''lockfile.lfs''" using path_entry_name by (cases e) simp
qed

text \<open>The directories \<open>/a\<close>, \<open>/a/w\<close>, \<open>/b\<close> and \<open>/b/w\<close>, a link \<open>/l\<close> to \<open>a/w\<close>, and a file \<open>/a/x\<close>; we are in \<open>/a\<close>.\<close>

definition example_fs :: fsys where
  "example_fs = \<lparr>tree = [((0, ''a''), Sub 1), ((1, ''w''), Sub 2), ((0, ''b''), Sub 3), ((3, ''w''), Sub 4),
     ((0, ''l''), Link ''a/w''), ((1, ''x''), Plain)], parents = [(1, 0), (2, 1), (3, 0), (4, 3)], cwd = 1\<rparr>"

section \<open>Properties\<close>

text \<open>
  C25 Directory streams: in every history of the library (calls with the arguments that they expect,
  collections, changes of the file system by others) every open stream belongs to exactly one directory
  object that is not closed, every such object has its stream open, and no call reads or closes a stream
  that is closed already or crashes otherwise.
\<close>

theorem dir_streams_owned:
  assumes "lfs_reachable P N s"
  shows "(\<forall>h. streams s h \<noteq> None \<longrightarrow> (\<exists>!a. \<exists>d. dirs s a = Some d \<and> \<not> closed d \<and> dir d = Some h)) \<and>
    (\<forall>a d h. dirs s a = Some d \<longrightarrow> \<not> closed d \<longrightarrow> dir d = Some h \<longrightarrow> streams s h \<noteq> None) \<and>
    (\<forall>r s'. lfs_step P N s r s' \<longrightarrow> r \<noteq> Crashes)"
proof -
  note ok = lfs_reachable_ok[OF assms]
  have o: "dir d = None \<or> dir d = Some a" "streams s a \<noteq> None \<longleftrightarrow> \<not> closed d \<and> dir d \<noteq> None"
    if "dirs s a = Some d" for a d
    using dirs_okD[OF ok, of a] that by (auto simp: dir_ok_def)
  have "\<exists>!a. \<exists>d. dirs s a = Some d \<and> \<not> closed d \<and> dir d = Some h" if h: "streams s h \<noteq> None" for h
  proof -
    obtain d where d: "dirs s h = Some d" using dirs_okD[OF ok, of h] h by (auto simp: dir_ok_def split: option.splits)
    with o[OF d] h show ?thesis using o(1) by (metis option.inject option.distinct(1))
  qed
  moreover have "streams s h \<noteq> None" if "dirs s a = Some d" "\<not> closed d" "dir d = Some h" for a d h
    using o[OF that(1)] that by auto
  ultimately show ?thesis using lfs_step_ok[OF _ ok] by blast
qed

definition dir_opened :: "fsys lfs" where
  "dir_opened = snd (dir_iter_factory posix_fs plain_num [LStr ''/''] (init_lfs example_fs))"

lemma dir_opened_reachable: "lfs_reachable posix_fs plain_num dir_opened"
proof (rule lfs_reachable.step[OF lfs_reachable.start lfs_step.call])
  show "(''dir'', dir_iter_factory) \<in> set (fslib @ dir_methods @ lock_methods)" by (simp add: fslib_def)
  show "live [LStr ''/''] (init_lfs example_fs)" by (simp add: live_def)
  show "proper ''dir'' [LStr ''/'']" by (simp add: proper_def)
  show "dir_iter_factory posix_fs plain_num [LStr ''/''] (init_lfs example_fs) =
      (fst (dir_iter_factory posix_fs plain_num [LStr ''/''] (init_lfs example_fs)), dir_opened)"
    by (simp add: dir_opened_def)
qed

lemma root_names: "os_opendir posix_fs (cstring ''/'') example_fs = Inr [''.'', ''..'', ''a'', ''b'', ''l'']"
  by code_simp

theorem dir_streams_owned_witness:
  "streams dir_opened 0 \<noteq> None \<and> (\<exists>!a. \<exists>d. dirs dir_opened a = Some d \<and> \<not> closed d \<and> dir d = Some 0)"
proof -
  have "streams dir_opened 0 \<noteq> None"
    using root_names
    by (simp add: dir_opened_def dir_iter_factory_def luaL_checkstring_def arg_def init_lfs_def Let_def)
  with dir_streams_owned[OF dir_opened_reachable] show ?thesis by blast
qed

text \<open>
  C27 Listing a directory: after \<open>lfs.dir(path)\<close> the generic \<open>for\<close> loop of Lua delivers every name that the
  stream has, in its order, and ends with the stream closed; a further call of the iterator is an error.
\<close>

theorem dir_lists_all:
  assumes "os_opendir P (cstring path) (os s) = Inr names"
  shows "\<exists>a s1 s2. dir_iter_factory P N [LStr path] s = (Returns [LFun ''dir_iter'', LUser (Dir a)], s1) \<and>
    for_dir (length names + 1) a s1 = Some (names, s2) \<and> streams s2 a = None \<and>
    dir_iter [LUser (Dir a) :: 'n lval] s2 = (Raises (Arg_error 1 ''closed directory''), s2)"
proof -
  let ?a = "next_id s"
  let ?s1 = "s\<lparr>streams := (streams s)(?a \<mapsto> names), dirs := (dirs s)(?a \<mapsto> \<lparr>closed = False, dir = Some ?a\<rparr>),
     next_id := ?a + 1\<rparr>"
  have f: "dir_iter_factory P N [LStr path] s = (Returns [LFun ''dir_iter'', LUser (Dir ?a)], ?s1)"
    using assms by (simp add: dir_iter_factory_def luaL_checkstring_def arg_def Let_def)
  obtain s2 where s2: "for_dir (length names + 1) ?a ?s1 = Some (names, s2)" "streams s2 ?a = None"
      "dirs s2 ?a = Some \<lparr>closed = True, dir = Some ?a\<rparr>"
    using for_dir_all[of ?s1 ?a ?a names] by auto
  have "dir_iter [LUser (Dir ?a) :: 'n lval] s2 = (Raises (Arg_error 1 ''closed directory''), s2)"
    using s2(3) by (simp add: dir_iter_def arg_def)
  with f s2 show ?thesis by blast
qed

theorem dir_lists_all_witness:
  "\<exists>a s1 s2. dir_iter_factory posix_fs plain_num [LStr ''/''] (init_lfs example_fs) =
      (Returns [LFun ''dir_iter'', LUser (Dir a)], s1) \<and>
    for_dir 6 a s1 = Some ([''.'', ''..'', ''a'', ''b'', ''l''], s2) \<and> streams s2 a = None"
proof -
  have "os_opendir posix_fs (cstring ''/'') (os (init_lfs example_fs)) = Inr [''.'', ''..'', ''a'', ''b'', ''l'']"
    using root_names by (simp add: init_lfs_def)
  moreover have "length [''.'', ''..'', ''a'', ''b'', ''l''] + 1 = 6" by simp
  ultimately show ?thesis using dir_lists_all[of posix_fs "''/''" "init_lfs example_fs"] by metis
qed

text \<open>
  C26 Directory locks exclude each other: in every history of taking, freeing and collecting locks and of other
  changes that leave the held lock files and the paths to them, on a file system whose \<open>symlink\<close> and \<open>unlink\<close>
  do what POSIX says (where \<open>unlink\<close> may fail), each lock that is held has its lock file, no two held locks
  share a directory entry, and \<open>lock_dir\<close> by any path to a directory whose lock is held gives \<open>nil\<close> and a
  message and changes no lock. Histories do not lock a path that goes through a component \<open>lockfile.lfs\<close>.
\<close>

theorem lock_dir_exclusive:
  assumes "symlink_contract P denotes passes present" "lock_history P N denotes passes present s" "held s a n"
  shows "\<exists>e. denotes (os s) n = Some e \<and> e \<in> present (os s) \<and>
    (\<forall>b m. held s b m \<longrightarrow> denotes (os s) m = Some e \<longrightarrow> b = a) \<and>
    (\<forall>path r s'. denotes (os s) (cstring path @ lockfile) = Some e \<longrightarrow>
       lfs_lock_dir P N [LStr path] s = (r, s') \<longrightarrow> locks s' = locks s \<and> (\<exists>msg. r = Returns [LNil, LStr msg]))"
proof -
  note o = locks_okD[OF lock_history_ok[OF assms(2,1)]]
  obtain e where e: "denotes (os s) n = Some e" "e \<in> present (os s)"
    using o(2)[OF assms(3)] by (auto simp: lock_file_ok_def)
  have "locks s' = locks s \<and> (\<exists>e. r = Returns [LNil, LStr e])"
    if p: "denotes (os s) (cstring path @ lockfile) = Some e" "lfs_lock_dir P N [LStr path] s = (r, s')"
    for path r s'
    using p(2)
  proof (cases rule: lock_dir_cases)
    case refused
    then show ?thesis using p(2)
      by (auto simp: lfs_lock_dir_def arg_def in_os_def Let_def split: sum.splits prod.splits)
  next
    case (taken path' name x)
    from symlink_contractD(1)[OF assms(1) taken(3)] taken(1,2) p(1) e(2) show ?thesis
      by (auto simp: arg_def)
  qed simp
  with o(3) assms(3) e show ?thesis by metis
qed

definition locked :: "fsys lfs" where
  "locked = snd (lfs_lock_dir posix_fs plain_num [LStr ''w''] (init_lfs example_fs))"

lemma cstring_examples:
  "cstring ''w'' @ lockfile = ''w/lockfile.lfs''" "cstring ''/l'' @ lockfile = ''/l/lockfile.lfs''"
  by (simp_all add: cstring_def NUL_def lockfile_def)

lemma lock_in_example:
  assumes "fst (os_symlink posix_fs ''lock'' ''w/lockfile.lfs'' (os s)) = Inr ()"
  shows "lfs_lock_dir posix_fs plain_num [LStr ''w''] s = (Returns [LUser (Lock (next_id s))],
    s\<lparr>os := snd (os_symlink posix_fs ''lock'' ''w/lockfile.lfs'' (os s)),
      locks := (locks s)(next_id s \<mapsto> \<lparr>ln = Some ''w/lockfile.lfs''\<rparr>), next_id := next_id s + 1\<rparr>)"
proof -
  have m: "os_malloc posix_fs n x = Inr ()" for n x by (simp add: posix_fs_def)
  obtain x where "os_symlink posix_fs ''lock'' ''w/lockfile.lfs'' (os s) = (Inr (), x)"
    using assms by (metis prod.collapse)
  then show ?thesis by (simp add: lfs_lock_dir_def arg_def in_os_def cstring_examples m Let_def)
qed

lemma locked_os:
  "os_symlink posix_fs ''lock'' ''w/lockfile.lfs'' example_fs = (Inr (), os locked)"
  "locked = \<lparr>os = os locked, streams = Map.empty, dirs = Map.empty, locks = [0 \<mapsto> \<lparr>ln = Some ''w/lockfile.lfs''\<rparr>],
     next_id = 1\<rparr>"
proof -
  let ?r = "os_symlink posix_fs ''lock'' ''w/lockfile.lfs'' example_fs"
  have r: "fst ?r = Inr ()" by code_simp
  have l: "locked = \<lparr>os = snd ?r, streams = Map.empty, dirs = Map.empty, locks = [0 \<mapsto> \<lparr>ln = Some ''w/lockfile.lfs''\<rparr>],
     next_id = 1\<rparr>"
    using lock_in_example[of "init_lfs example_fs"] r by (simp add: locked_def init_lfs_def)
  have "os locked = snd ?r" using arg_cong[OF l, of os] by simp
  then show "?r = (Inr (), os locked)" "locked = \<lparr>os = os locked, streams = Map.empty, dirs = Map.empty,
     locks = [0 \<mapsto> \<lparr>ln = Some ''w/lockfile.lfs''\<rparr>], next_id = 1\<rparr>"
    using r l by (metis prod.collapse)+
qed

lemma locked_held: "held locked 0 ''w/lockfile.lfs''"
  by (subst locked_os(2)) (simp add: held_def)

lemma clean_w: "clean_path path_way example_fs ''w/lockfile.lfs''"
proof -
  have "list_all (\<lambda>e. snd e \<noteq> ''lockfile.lfs'') (fst (resolve example_fs ''w/lockfile.lfs''))" by code_simp
  then show ?thesis by (simp add: clean_path_def path_way_def list_all_iff)
qed

lemma locked_history: "lock_history posix_fs plain_num path_entry path_way entries locked"
  unfolding locked_def
  by (rule lock_history.take_lock[OF lock_history.start])
    (rule prod.collapse[symmetric], use clean_w in \<open>simp add: arg_def init_lfs_def cstring_examples\<close>)

theorem lock_dir_exclusive_witness:
  "held locked 0 ''w/lockfile.lfs'' \<and>
    (\<exists>e. fst (lfs_lock_dir posix_fs plain_num [LStr ''/l''] locked) = Returns [LNil, LStr e])"
proof -
  have "path_entry (snd (os_symlink posix_fs ''lock'' ''w/lockfile.lfs'' example_fs)) ''/l/lockfile.lfs'' =
      path_entry (snd (os_symlink posix_fs ''lock'' ''w/lockfile.lfs'' example_fs)) ''w/lockfile.lfs''"
    by code_simp
  then have "path_entry (os locked) (cstring ''/l'' @ lockfile) = path_entry (os locked) ''w/lockfile.lfs''"
    by (simp add: locked_os(1) cstring_examples)
  with lock_dir_exclusive[OF posix_fs_contract locked_history locked_held] locked_held show ?thesis
    by (metis prod.collapse)
qed

text \<open>
  C38 A lock taken with a relative path is lost when the working directory changes: the lock remembers the
  path that it was given. Once \<open>chdir\<close> makes this path lead to another entry, which a second lock then takes,
  freeing the first lock unlinks the second one's file: the second lock still counts as held but its file is
  gone, so a third \<open>lock_dir\<close> whose \<open>symlink\<close> succeeds holds the same entry, while the first lock file stays
  although no lock object keeps it.
\<close>

theorem relative_lock_lost:
  assumes "symlink_contract P denotes passes present" "lock_history P N denotes passes present s"
    "held s a (cstring path @ lockfile)" "denotes (os s) (cstring path @ lockfile) = Some e1"
    "change_dir P N [LStr d] s = (Returns [LBool True], s1)" "e1 \<in> present (os s1)"
    "denotes (os s1) (cstring path @ lockfile) = Some e2" "e2 \<noteq> e1"
    "lfs_lock_dir P N [LStr path] s1 = (Returns [LUser (Lock b)], s2)"
    "e2 \<notin> present (os_unlink P (cstring path @ lockfile) (os s2))"
  shows "\<exists>s3. lfs_unlock_dir P [LUser (Lock a) :: 'n lval] s2 = (Returns [], s3) \<and>
    held s3 b (cstring path @ lockfile) \<and> denotes (os s3) (cstring path @ lockfile) = Some e2 \<and>
    e2 \<notin> present (os s3) \<and> e1 \<in> present (os s3) \<and> (\<forall>m. \<not> held s3 a m) \<and>
    (\<forall>c s4. lfs_lock_dir P N [LStr path] s3 = (Returns [LUser (Lock c)], s4) \<longrightarrow>
       c \<noteq> b \<and> held s4 b (cstring path @ lockfile) \<and> held s4 c (cstring path @ lockfile) \<and> e2 \<in> present (os s4))"
proof -
  let ?n = "cstring path @ lockfile"
  note C = symlink_contractD[OF assms(1)]
  note o = locks_okD[OF lock_history_ok[OF assms(2,1)]]
  have s1: "s1 = s\<lparr>os := os s1\<rparr>"
    using assms(5) by (auto simp: change_dir_def luaL_checkstring_def arg_def in_os_def split: prod.splits)
  then have l1: "locks s1 = locks s" "next_id s1 = next_id s" by (metis lfs.simps(4,5) lfs.surjective lfs.update_convs(1))+
  have a: "a < next_id s" using o(1)[of a] assms(3) by (simp add: held_def)
  obtain x where x: "os_symlink P ''lock'' ?n (os s1) = (Inr (), x)" and b: "b = next_id s1"
    and s2: "s2 = s1\<lparr>os := x, locks := (locks s1)(next_id s1 \<mapsto> \<lparr>ln = Some ?n\<rparr>), next_id := next_id s1 + 1\<rparr>"
    using assms(9) by (cases rule: lock_dir_cases) (auto simp: arg_def)
  have p: "present x = insert e2 (present (os s1))" "e2 \<notin> present (os s1)" "same_paths denotes passes e2 (os s1) x"
    using C(1)[OF x] assms(7) by auto
  have w: "e2 \<notin> passes (os s1) ?n" using C(4)[of "os s1" ?n] assms(7) p(2) by auto
  then have d2: "denotes x ?n = Some e2" "e2 \<notin> passes x ?n" using same_pathsD[OF p(3) w] assms(7) by auto
  have h2: "held s2 a ?n" "held s2 b ?n" "a \<noteq> b" using assms(3) a l1 b by (simp_all add: s2 held_def)
  define s3 where "s3 = s2\<lparr>os := os_unlink P ?n (os s2), locks := (locks s2)(a \<mapsto> \<lparr>ln = None\<rparr>)\<rparr>"
  have u: "lfs_unlock_dir P [LUser (Lock a) :: 'n lval] s2 = (Returns [], s3)"
    using h2(1) by (simp add: lfs_unlock_dir_def arg_def held_def s3_def)
  have k: "present x - {e2} \<subseteq> present (os_unlink P ?n x)" "same_paths denotes passes e2 x (os_unlink P ?n x)"
    using C(3)[OF d2(1)] by auto
  have d3: "denotes (os s3) ?n = Some e2" using same_pathsD[OF k(2) d2(2)] d2(1) by (simp add: s3_def s2)
  have h3: "held s3 b ?n" "\<forall>m. \<not> held s3 a m" using h2 by (simp_all add: s3_def held_def)
  have n3: "e2 \<notin> present (os s3)" using assms(10) by (simp add: s3_def)
  have e1: "e1 \<in> present (os s3)" using k(1) p(1) assms(6,8) by (auto simp: s3_def s2)
  have "c \<noteq> b \<and> held s4 b ?n \<and> held s4 c ?n \<and> e2 \<in> present (os s4)"
    if "lfs_lock_dir P N [LStr path] s3 = (Returns [LUser (Lock c)], s4)" for c s4
    using that
  proof (cases rule: lock_dir_cases)
    case (taken path' name y)
    have "next_id s3 \<noteq> b" using b by (simp add: s3_def s2)
    moreover have "e2 \<in> present y" using C(1)[OF taken(3)] taken(1,2) d3 by (auto simp: arg_def)
    ultimately show ?thesis using taken h3(1) by (auto simp: held_def arg_def)
  qed auto
  with u h3 d3 n3 e1 show ?thesis by blast
qed

definition moved :: "fsys lfs" where
  "moved = snd (change_dir posix_fs plain_num [LStr ''/b''] locked)"

definition relocked :: "fsys lfs" where
  "relocked = snd (lfs_lock_dir posix_fs plain_num [LStr ''w''] moved)"

text \<open>The file system of the example after each call.\<close>

definition moved_fs :: fsys where
  "moved_fs = (snd (os_symlink posix_fs ''lock'' ''w/lockfile.lfs'' example_fs))\<lparr>cwd := 3\<rparr>"

definition relocked_fs :: fsys where
  "relocked_fs = snd (os_symlink posix_fs ''lock'' ''w/lockfile.lfs'' moved_fs)"

lemma fs_calls:
  "path_entry example_fs ''w/lockfile.lfs'' = Some (2, ''lockfile.lfs'')"
  "path_entry (snd (os_symlink posix_fs ''lock'' ''w/lockfile.lfs'' example_fs)) ''w/lockfile.lfs'' = Some (2, ''lockfile.lfs'')"
  "path_dir (snd (os_symlink posix_fs ''lock'' ''w/lockfile.lfs'' example_fs)) ''/b'' = Some 3"
  "path_entry moved_fs ''w/lockfile.lfs'' = Some (4, ''lockfile.lfs'')"
  "map_of (tree moved_fs) (2, ''lockfile.lfs'') = Some (Link ''lock'')"
  "fst (os_symlink posix_fs ''lock'' ''w/lockfile.lfs'' moved_fs) = Inr ()"
  "map_of (tree (os_unlink posix_fs ''w/lockfile.lfs'' relocked_fs)) (4, ''lockfile.lfs'') = None"
  "fst (os_symlink posix_fs ''lock'' ''w/lockfile.lfs'' (os_unlink posix_fs ''w/lockfile.lfs'' relocked_fs)) = Inr ()"
  by code_simp+

lemma moved_eq:
  "change_dir posix_fs plain_num [LStr ''/b''] locked = (Returns [LBool True], moved)" "os moved = moved_fs"
  "next_id moved = 1" "locks moved = [0 \<mapsto> \<lparr>ln = Some ''w/lockfile.lfs''\<rparr>]"
proof -
  have "os locked = snd (os_symlink posix_fs ''lock'' ''w/lockfile.lfs'' example_fs)" using locked_os(1) by simp
  then have d: "os_chdir posix_fs (cstring ''/b'') (os locked) = (Inr (), moved_fs)"
    using fs_calls(3) by (simp add: fs_chdir_def moved_fs_def cstring_def NUL_def) (simp add: posix_fs_def fs_chdir_def)
  have c: "change_dir posix_fs plain_num [LStr ''/b''] locked = (Returns [LBool True], locked\<lparr>os := moved_fs\<rparr>)"
    using d by (simp add: change_dir_def luaL_checkstring_def arg_def in_os_def ok_or_message_def)
  then show "change_dir posix_fs plain_num [LStr ''/b''] locked = (Returns [LBool True], moved)" "os moved = moved_fs"
    by (simp_all add: moved_def)
  show "next_id moved = 1" "locks moved = [0 \<mapsto> \<lparr>ln = Some ''w/lockfile.lfs''\<rparr>]"
    using c by (simp_all add: moved_def) (subst locked_os(2), simp)+
qed

lemma relocked_eq:
  "lfs_lock_dir posix_fs plain_num [LStr ''w''] moved = (Returns [LUser (Lock 1)], relocked)" "os relocked = relocked_fs"
  using lock_in_example[of moved] fs_calls(6) by (simp_all add: relocked_def moved_eq relocked_fs_def)

theorem relative_lock_lost_witness:
  "\<exists>s3 c s4. lfs_unlock_dir posix_fs [LUser (Lock 0) :: int lval] relocked = (Returns [], s3) \<and>
    lfs_lock_dir posix_fs plain_num [LStr ''w''] s3 = (Returns [LUser (Lock c)], s4) \<and> c \<noteq> 1 \<and>
    held s4 1 ''w/lockfile.lfs'' \<and> held s4 c ''w/lockfile.lfs'' \<and> (2, ''lockfile.lfs'') \<in> entries (os s3)"
proof -
  note n = cstring_examples(1)
  have e: "path_entry (os locked) ''w/lockfile.lfs'' = Some (2, ''lockfile.lfs'')"
    using fs_calls(2) locked_os(1) by simp
  have p: "(2, ''lockfile.lfs'') \<in> entries (os moved)" using fs_calls(5) by (auto simp: moved_eq entries_def)
  have d: "path_entry (os moved) ''w/lockfile.lfs'' = Some (4, ''lockfile.lfs'')" using fs_calls(4) by (simp add: moved_eq)
  have u: "(4, ''lockfile.lfs'') \<notin> entries (os_unlink posix_fs ''w/lockfile.lfs'' (os relocked))"
    using fs_calls(7) by (auto simp: relocked_eq entries_def)
  obtain s3 where u3: "lfs_unlock_dir posix_fs [LUser (Lock 0) :: int lval] relocked = (Returns [], s3)"
    and e3: "(2, ''lockfile.lfs'') \<in> entries (os s3)"
    and k3: "\<forall>c s4. lfs_lock_dir posix_fs plain_num [LStr ''w''] s3 = (Returns [LUser (Lock c)], s4) \<longrightarrow>
         c \<noteq> 1 \<and> held s4 1 ''w/lockfile.lfs'' \<and> held s4 c ''w/lockfile.lfs'' \<and>
         (4, ''lockfile.lfs'') \<in> entries (os s4)"
    using relative_lock_lost[OF posix_fs_contract locked_history, of 0 "''w''", unfolded n, OF locked_held e
        moved_eq(1) p d _ relocked_eq(1) u] by auto
  have "locks relocked 0 = Some \<lparr>ln = Some ''w/lockfile.lfs''\<rparr>"
    using lock_in_example[of moved] fs_calls(6) by (simp add: relocked_def moved_eq)
  then have "os s3 = os_unlink posix_fs ''w/lockfile.lfs'' relocked_fs"
    using u3 by (auto simp: lfs_unlock_dir_def arg_def relocked_eq)
  then have "fst (os_symlink posix_fs ''lock'' ''w/lockfile.lfs'' (os s3)) = Inr ()" using fs_calls(8) by simp
  from lock_in_example[OF this] u3 e3 k3 show ?thesis by blast
qed

text \<open>
  C28 File attributes: \<open>lfs.attributes(f)\<close> on a file that \<open>stat\<close> finds gives a new table with these fourteen
  names in this order, each with the field of the \<open>stat\<close> record that it stands for: \<open>mode\<close> is the name of the
  file type, \<open>permissions\<close> the permission string, the others are numbers. \<open>lfs.attributes(f, name)\<close> gives the
  value that this table has for the name, up to its first NUL byte, or, for any other name, an error.
  \<open>lfs.attributes(f, t)\<close> stores the same fields into the table \<open>t\<close> and keeps its other keys.
\<close>

theorem attributes_typed:
  assumes "os_stat P (cstring f) (os s) = Inr info"
    "t = [(''mode'', LStr (mode2string (st_mode info))), (''dev'', LNum (n_of_int N (st_dev info))),
      (''ino'', LNum (n_of_int N (st_ino info))), (''nlink'', LNum (n_of_int N (st_nlink info))),
      (''uid'', LNum (n_of_int N (st_uid info))), (''gid'', LNum (n_of_int N (st_gid info))),
      (''rdev'', LNum (n_of_int N (st_rdev info))), (''access'', LNum (n_of_int N (st_atime info))),
      (''modification'', LNum (n_of_int N (st_mtime info))), (''change'', LNum (n_of_int N (st_ctime info))),
      (''size'', LNum (n_of_int N (st_size info))), (''permissions'', LStr (perm2string (st_mode info))),
      (''blocks'', LNum (n_of_int N (st_blocks info))), (''blksize'', LNum (n_of_int N (st_blksize info)))]"
  shows "file_info P N [LStr f] s = (Returns [LTab t], s) \<and>
    (\<forall>m. file_info P N [LStr f, LStr m] s = (case map_of t (cstring m) of
       Some v \<Rightarrow> (Returns [v], s) | None \<Rightarrow> (Raises (Lua_error ''invalid attribute name''), s))) \<and>
    (\<forall>t0. \<exists>t1. file_info P N [LStr f, LTab t0] s = (Returns [LTab t1], s) \<and> map_of t1 = map_of t0 ++ map_of t)"
proof -
  have t: "t = attribute_table N info"
    by (simp add: assms(2) attribute_table_def members_def push_st_mode_def push_st_perm_def push_st_def)
  have "file_info P N [LStr f] s = (Returns [LTab t], s)"
    using assms(1) by (simp add: file_info_def do_file_info_def luaL_checkstring_def arg_def store_members_new t)
  moreover have "file_info P N [LStr f, LStr m] s = (case map_of t (cstring m) of
       Some v \<Rightarrow> (Returns [v], s) | None \<Rightarrow> (Raises (Lua_error ''invalid attribute name''), s))" for m
    using assms(1)
    by (simp add: file_info_def do_file_info_def luaL_checkstring_def arg_def map_of_attribute_table t split: option.split)
  moreover have "\<exists>t1. file_info P N [LStr f, LTab t0] s = (Returns [LTab t1], s) \<and> map_of t1 = map_of t0 ++ map_of t" for t0
    using assms(1) store_members_given[of N info t0]
    by (auto simp: file_info_def do_file_info_def luaL_checkstring_def arg_def t)
  ultimately show ?thesis by blast
qed

definition with_file :: "fsys lfs" where
  "with_file = init_lfs example_fs"

lemma with_file_stat: "os_stat posix_fs (cstring ''/a/x'') (os with_file) = Inr (fs_info Plain)"
proof -
  have "fs_stat (cstring ''/a/x'') example_fs = Inr (fs_info Plain)" by code_simp
  then show ?thesis by (simp add: posix_fs_def with_file_def init_lfs_def)
qed

theorem attributes_typed_witness:
  "(\<exists>t. file_info posix_fs plain_num [LStr ''/a/x''] with_file = (Returns [LTab t], with_file) \<and>
      map_of t ''ino'' = Some (LNum 2) \<and> map_of t ''gid'' = Some (LNum 10)) \<and>
    file_info posix_fs plain_num [LStr ''/a/x'', LStr ''change''] with_file = (Returns [LNum 5], with_file)"
proof -
  note k = attributes_typed[OF with_file_stat refl, of plain_num]
  from k have "file_info posix_fs plain_num [LStr ''/a/x'', LStr ''change''] with_file = (Returns [LNum 5], with_file)"
    by (simp add: cstring_def NUL_def fs_info_def plain_num_def)
  moreover from k have "\<exists>t. file_info posix_fs plain_num [LStr ''/a/x''] with_file = (Returns [LTab t], with_file) \<and>
      map_of t ''ino'' = Some (LNum 2) \<and> map_of t ''gid'' = Some (LNum 10)"
    by (simp add: fs_info_def plain_num_def)
  ultimately show ?thesis by blast
qed

text \<open>
  C29 The permission string: \<open>perm2string\<close> shows the nine permission bits from the owner's read bit down, each
  as its letter or a dash, and reading the string back gives exactly these bits of the mode.
\<close>

theorem perm_round_trip:
  "perm2string mode = map (\<lambda>i. if bit mode (8 - i) then ''rwxrwxrwx'' ! i else CHR ''-'') [0..<9] \<and>
   parse_perm (perm2string mode) = mode AND 0x1FF"
  using parse_perm2string[of mode] perm2string_chars[of mode] by (simp add: perm_char_def)

text \<open>
  Two calls that the library does not check: \<open>close\<close> of a directory without its argument dereferences a
  null pointer, and \<open>lfs.attributes(f, t, x)\<close> with a table \<open>t\<close> and a further argument that is no table stores
  into that argument.
\<close>

theorem unchecked_arguments_crash:
  assumes "os_stat P (cstring f) (os s) = Inr info" "\<not> is_table x"
  shows "dir_close ([] :: 'n lval list) s = (Crashes, s) \<and>
    file_info P N [LStr f, LTab t, x] s = (Crashes, s)"
  using assms
  by (simp add: dir_close_def arg_def file_info_def do_file_info_def luaL_checkstring_def store_members_def is_table_def
      split: lval.splits)

theorem unchecked_arguments_crash_witness:
  "file_info posix_fs plain_num [LStr ''/a/x'', LTab [], LNum 1] with_file = (Crashes, with_file)"
proof -
  note with_file_stat
  moreover have "\<not> is_table (LNum 1 :: int lval)" by (simp add: is_table_def)
  ultimately show ?thesis using unchecked_arguments_crash by blast
qed

end
