(* ===== verification/Spec2Isabelle.thy ===== *)
theory Spec2Isabelle
  imports Luaw_Stream Luaw_Url_Decode Lpack Timer_Spec Luaw_Loop_Props Luaw_Logging Luaw_Main Lfs_Props
begin

text \<open>
  A verification of luaw, an event-driven web server: a C program that embeds Lua, runs on libuv and
  parses HTTP with a copy of http-parser. All sources named below are under \<^verbatim>\<open>src/src/\<close>.

  \<^bold>\<open>The program.\<close> \<^verbatim>\<open>luaw_server.c\<close> reads a configuration, loads the Lua scheduler and runs the
  libuv loop. Every callback of the loop ends in Lua: it resumes the Lua thread that waits for a timer,
  for input, for the end of a write or for a connection. Lua in turn calls the C methods of user timers
  (\<^verbatim>\<open>luaw_timer.c\<close>), connections (\<^verbatim>\<open>luaw_tcp.c\<close>) and the log (\<^verbatim>\<open>luaw_logging.c\<close>). The bytes that a
  connection delivers are parsed by \<open>parse_http\<close> (\<^verbatim>\<open>luaw_http_parser.c\<close>), which drives the state machine
  of \<^verbatim>\<open>http_parser.c\<close> one callback at a time, and by the decoders for URLs and forms; \<^verbatim>\<open>lua_lpack.c\<close>
  serialises Lua values; \<^verbatim>\<open>lfs.c\<close>, LuaFileSystem, gives Lua directories, locks and file
  attributes. The helpers of \<^verbatim>\<open>luaw_common.c\<close> resume threads and count references.

  \<^bold>\<open>The theories.\<close>

  \<^item> \<open>Luaw_Prelude\<close>: bytes, C strings, buffer spans, and the theorem collections of the development.

  \<^item> \<open>Http_Types\<close>: enumerations, tables, character classes and structures of \<^verbatim>\<open>http_parser.h\<close> and
    \<^verbatim>\<open>http_parser.c\<close>, and the small functions (\<open>http_parser_init\<close>, \<open>http_parser_pause\<close>,
    \<open>http_should_keep_alive\<close>, \<open>http_message_needs_eof\<close>, \<open>http_method_str\<close>). Fields keep their C widths as
    words; the order of the states, which \<open>PARSING_HEADER\<close> uses, is an instance of the class of linear orders.

  \<^item> \<open>Http_Url\<close>: \<open>parse_url_char\<close>, \<open>http_parse_host_char\<close>, \<open>http_parse_host\<close>, \<open>http_parser_parse_url\<close>;
    the memory of the result structure is an argument, as the C code does not initialise all of it.
    \<open>Http_Url_Inv\<close> shows that the fields of a result lie inside the URL, except for the host of a URL that has
    a schema and no host.

  \<^item> \<open>Http_Exec\<close>: \<open>http_parser_execute\<close>. The local variables are the record \<open>exec_ctx\<close>, each \<open>case\<close> of the
    \<open>switch\<close> is one definition \<open>do_...\<close>, the macros are definitions with the macros' names, and \<open>goto\<close>,
    \<open>return\<close>, failing assertions and wild reads are constructors of \<open>ctl\<close>. \<open>dispatch\<close> is the \<open>switch\<close>,
    \<open>run_byte\<close> the label \<open>reexecute_byte\<close>, \<open>exec_loop\<close> the loop over the buffer. Callbacks are functions
    on the application's object and the parser.

  \<^item> \<open>Http_Inv\<close>: the invariant \<open>wf_parser\<close>, the locale \<open>http_callbacks\<close> with what the parser relies on
    from callbacks, and inside it one preservation lemma per handler, up to safety of a whole call.

  \<^item> \<open>Http_Bytewise\<close>: how the parser treats a stream that arrives in pieces. A recording application
    (interpreting \<open>http_callbacks\<close>) shows that one call on a buffer does exactly what one call per byte
    does, so that the cutting of the stream into buffers cannot be observed.

  \<^item> \<open>Http_Request\<close>: what the automata inside the parser recognise. The method automaton accepts exactly
    the strings of the method table, the header-name automaton exactly the header names it is meant to
    find, and the digits of a content length add up to the number written or are refused.

  \<^item> \<open>Http_Roundtrip\<close>: a printer of requests, and that the parser reads back what it prints. The phases of
    a request (method, path, version, headers, body) are followed one by one; \<open>goes\<close> says that a piece is
    parsed without an error and what is reported, \<open>stands\<close> where the parser is.

  \<^item> \<open>Luaw_Http\<close>: the parser object of the Lua library, its eight callbacks (each pauses the parser),
    \<open>parse_http\<close>, \<open>luaw_parse_url\<close>. The callbacks are shown to meet the locale's contract; the properties
    are safety, progress of every call, and that a buffer is used up after boundedly many calls. The outcomes
    \<open>Parse_abort\<close> (a failed assertion) and \<open>Parse_crash\<close> (anything else that goes wrong) are distinct. The
    \<open>int\<close> variables of \<open>parse_http\<close> are integers here, which is right for buffers shorter than 2 GB.

  \<^item> \<open>Luaw_Suspend\<close>, \<open>Luaw_Stream\<close>: the parser with the pausing callbacks of \<open>parse_http\<close> beside the parser with
    the recorder. Each step of the one is a step of the other up to the next callback (\<open>pair\<close>), and nothing but
    the size limit depends on the count of header bytes, the only part of the parser in which the two differ
    later; so the calls that use up a buffer report exactly what is recorded, and a printed request reaches
    Lua intact.

  \<^item> \<open>Luaw_Url_Decode\<close>: \<open>luaw_url_decode\<close>, \<open>handle_name_value_pair\<close> and the in-place \<open>decode_hex_str\<close>, with
    a functional specification that covers malformed input too, where the code uses an uninitialised variable,
    and what the decoder makes of every form-encoded list of parameters up to the first with an empty part.

  \<^item> \<open>Lpack\<close>: readers and writers of \<^verbatim>\<open>lua_lpack.c\<close>, the write queue and \<open>to_hex\<close>; round trip of whole
    queues across byte orders, buffer bounds. \<open>buff_size\<close> is the C expression with its wrap to an \<open>int\<close>.

  \<^item> \<open>Luaw_World\<close>: the state of the event-driven part as the record \<open>luaw\<close> (heap of timers and
    connections, Lua registry references, the log of resumed threads, a crash flag) and the helpers of
    \<^verbatim>\<open>luaw_common.c\<close>. libuv's calls on handles are the record \<open>uv_api\<close>, an argument of every operation;
    \<open>uv_contract\<close> states what libuv documents of them. Return codes of calls that can fail are arguments.

  \<^item> \<open>Luaw_Own\<close>: the ownership invariant. For each object the reference count is the number of its
    holders (Lua, the libuv handles and requests in flight), and whatever a holder can reach is
    allocated. The locale \<open>lua_runtime\<close> is the interface to resumed Lua code: it keeps the invariant.

  \<^item> \<open>Luaw_Timer\<close>, \<open>Luaw_Tcp\<close>: every method and every libuv callback of timers and connections, each with
    a lemma that it keeps the invariant.

  \<^item> \<open>Luaw_Server\<close>: Lua code as finite decision trees of calls (\<open>lua_script\<close>), \<open>on_server_connect\<close>,
    \<open>run_user_threads\<close>, \<open>handle_shutdown_req\<close>, and the event loop as the inductive relation \<open>loop_step\<close>:
    one step is one callback that libuv may run, or one run of Lua code. Interprets \<open>lua_runtime\<close> on the
    scripts and concludes that every reachable state satisfies the invariant.

  \<^item> \<open>Timer_Spec\<close>: an automaton with five states that user timers refine, in histories whose events come with
    the Lua code that a woken thread runs; this code may do anything (\<open>spares\<close>) but use the timer itself or
    wake further threads.

  \<^item> \<open>Luaw_Loop_Props\<close>: memory safety of all reachable states, exact reference counts, who is woken by a
    callback and with what, and two ways in which data or a resumption goes wrong.

  \<^item> \<open>Luaw_Logging\<close>: the log file with its asynchronous requests, rotation, and the syslog decisions.

  \<^item> \<open>Luaw_Startup\<close>: the reader that feeds Lua files to \<open>lua_load\<close>, and the configuration.

  \<^item> \<open>Luaw_Main\<close>: \<open>main\<close> from the command line to the event loop, and the clean-up after it, which is shown
    to leave every handle closing whatever the loop did.

  \<^item> \<open>Lfs\<close>: every function of \<^verbatim>\<open>lfs.c\<close> in its POSIX form, as a function of the arguments of the Lua call and
    of the state \<open>lfs\<close> (directory objects, their streams, lock objects, the operating system).

  \<^item> \<open>Posix_Fs\<close>: a small file system with directories, symbolic links, a working directory and path lookup,
    an instance of the interface of \<open>Lfs\<close> on which the hypotheses about POSIX are shown to hold.

  \<^item> \<open>Lfs_Props\<close>: histories of the library as the relations \<open>lfs_reachable\<close> and \<open>lock_history\<close>; streams
    are owned and closed once, iteration is complete, directory locks exclude each other, attributes are
    typed and the permission string can be read back.

  \<^bold>\<open>Bounds and fuel.\<close> \<open>run_byte\<close> repeats the \<open>switch\<close> for one byte at most \<open>reexecute_bound = 5\<close> times:
  \<open>reexec_rank\<close> shows that at most three repetitions occur, and the safety theorem excludes the outcome
  \<open>Diverged\<close>. \<open>exec_loop\<close>, \<open>decode_hex_loop\<close> and \<open>lua_load\<close> are total functions with termination proofs;
  the first needs that the read position only moves forward. \<open>drain\<close>, the driver that calls \<open>parse_http\<close>
  until a buffer is empty, takes fuel; twice the number of bytes plus two is proved to be enough. \<open>for_dir\<close>, Lua's
  loop over a directory, takes fuel too, and one more than the number of names is enough. The
  remaining recursions are structural. The event loop is a relation, so that nothing bounds a history.

  \<^bold>\<open>Arguments that stand for code outside the repository.\<close> libuv (\<open>uv_api\<close> and return codes), the Lua
  code that a resumed thread runs (\<open>lua_code\<close>, any function for the operations, scripts in the loop),
  number conversions of Lua and of the floating-point hardware in \<open>Lpack\<close>, the uninitialised memory of
  \<open>http_parser_url\<close> and of \<open>hex_ch\<close>, the contents of files, and in \<open>Lfs\<close> the operating system (the record
  \<open>posix\<close>, of which \<open>symlink_contract\<close> states what POSIX says of \<open>symlink\<close> and \<open>unlink\<close>: a new link is a new
  directory entry, an existing one is refused, and paths that do not pass through the entry keep their
  meaning) and Lua's numbers (\<open>lua_num\<close>). Of libuv's write requests it is assumed that every submission
  completes once; libuv says so of requests that are not in flight, while \<open>write_buffer\<close> may submit its one
  request again before it has completed. \<open>overlapped\<close> marks the connections for which this has happened, and
  exact reference counts are claimed only for the others.

  \<^bold>\<open>Not modelled.\<close> the Windows branches of \<^verbatim>\<open>lfs.c\<close>; the functions that only register
  tables with Lua (\<open>luaw_init_*_lib\<close>, \<open>make_metatable\<close>, \<open>luaL_setfuncs\<close> for LuaJIT); \<open>set_lua_path\<close>
  and the static handles of the server, which have no state that the code reads; the table behind
  \<open>http_errno_name\<close> and \<open>http_errno_description\<close>, which no code here calls; the Lua library \<^verbatim>\<open>src/lib/\<close>.
  The Lua stack is replaced by arguments and results, except in \<open>resume_lua_thread\<close>, whose callers depend
  on its layout. Allocation is assumed to succeed where the code does not test it.
\<close>

end
